(* ===== verification/Rust_Text.thy ===== *)
theory Rust_Text
  imports Rust_Prelude
begin

text \<open>
  The part of \<^verbatim>\<open>str\<close> that looks at Unicode scalar values: validity of UTF-8 (\<^verbatim>\<open>String::from_utf8\<close>,
  \<^verbatim>\<open>str::from_utf8\<close>), \<^verbatim>\<open>chars\<close> with \<^verbatim>\<open>char::is_control\<close>, and \<^verbatim>\<open>trim\<close> with the whitespace of the Unicode
  standard (\<^verbatim>\<open>White_Space\<close>).
\<close>

section \<open>UTF-8\<close>

definition utf8_cont :: "char \<Rightarrow> bool" where
  "utf8_cont c = (128 \<le> byte_of c \<and> byte_of c \<le> 191)"

definition byte_in :: "nat \<Rightarrow> nat \<Rightarrow> char \<Rightarrow> bool" where
  "byte_in lo hi c = (lo \<le> byte_of c \<and> byte_of c \<le> hi)"

text \<open>The well-formed byte sequences of the Unicode standard (table 3-7), longest form last.\<close>

fun utf8_valid :: "string \<Rightarrow> bool" where
  "utf8_valid [] = True"
| "utf8_valid (a # r) =
     (if byte_of a \<le> 127 then utf8_valid r
      else (case r of [] \<Rightarrow> False | b # r2 \<Rightarrow>
        if byte_in 194 223 a then utf8_cont b \<and> utf8_valid r2
        else (case r2 of [] \<Rightarrow> False | c # r3 \<Rightarrow>
          if byte_in 224 239 a
          then (if byte_of a = 224 then byte_in 160 191 b
                else if byte_of a = 237 then byte_in 128 159 b else utf8_cont b)
               \<and> utf8_cont c \<and> utf8_valid r3
          else (case r3 of [] \<Rightarrow> False | d # r4 \<Rightarrow>
            byte_in 240 244 a
            \<and> (if byte_of a = 240 then byte_in 144 191 b
               else if byte_of a = 244 then byte_in 128 143 b else utf8_cont b)
            \<and> utf8_cont c \<and> utf8_cont d \<and> utf8_valid r4))))"

text \<open>\<^verbatim>\<open>String::from_utf8\<close>: the bytes as a string when they are valid.\<close>

definition from_utf8 :: "bytes \<Rightarrow> string option" where
  "from_utf8 bs = (if utf8_valid (bytes_str bs) then Some (bytes_str bs) else None)"

lemma from_utf8_str_bytes [simp, wire_simps]: "utf8_valid s \<Longrightarrow> from_utf8 (str_bytes s) = Some s"
  by (simp add: from_utf8_def)

lemma utf8_valid_ascii: "list_all (\<lambda>c. byte_of c \<le> 127) s \<Longrightarrow> utf8_valid s"
  by (induction s) auto

text \<open>
  \<^verbatim>\<open>chars\<close>: the encodings of the scalar values of a valid string, one list each. A scalar value
  starts at every byte that is not a continuation byte.
\<close>

lemma length_dropWhile_Suc [termination_simp]: "length (dropWhile P xs) < Suc (length xs)"
  by (simp add: le_imp_less_Suc length_dropWhile_le)

fun utf8_chars :: "string \<Rightarrow> string list" where
  "utf8_chars [] = []"
| "utf8_chars (a # r) = (a # takeWhile utf8_cont r) # utf8_chars (dropWhile utf8_cont r)"

lemma concat_utf8_chars: "concat (utf8_chars s) = s"
  by (induction s rule: utf8_chars.induct) auto

text \<open>\<^verbatim>\<open>char::is_control\<close>: category Cc, U+0000 to U+001F and U+007F to U+009F.\<close>

definition char_is_control :: "string \<Rightarrow> bool" where
  "char_is_control ch =
     (case ch of [c] \<Rightarrow> byte_of c < 32 \<or> byte_of c = 127
      | [a, b] \<Rightarrow> byte_of a = 194 \<and> byte_of b \<le> 159
      | _ \<Rightarrow> False)"

definition chars_take :: "nat \<Rightarrow> string \<Rightarrow> string" where
  "chars_take n s = concat (take n (utf8_chars s))"

text \<open>
  \<^verbatim>\<open>String::from_utf8_lossy\<close>: what the bytes at the front are (a scalar value, or the longest beginning of
  one) and how many; the latter is replaced by U+FFFD.
\<close>

definition second_ok :: "char \<Rightarrow> char \<Rightarrow> bool" where
  "second_ok a b =
     (if byte_of a = 224 then byte_in 160 191 b else if byte_of a = 237 then byte_in 128 159 b
      else if byte_of a = 240 then byte_in 144 191 b else if byte_of a = 244 then byte_in 128 143 b else utf8_cont b)"

definition utf8_front :: "char \<Rightarrow> string \<Rightarrow> bool \<times> nat" where
  "utf8_front a r =
     (if byte_of a \<le> 127 then (True, 1)
      else if \<not> byte_in 194 244 a then (False, 1)
      else (case r of
          [] \<Rightarrow> (False, 1)
        | b # r2 \<Rightarrow>
            if \<not> second_ok a b then (False, 1)
            else if byte_in 194 223 a then (True, 2)
            else (case r2 of
                [] \<Rightarrow> (False, 2)
              | c # r3 \<Rightarrow>
                  if \<not> utf8_cont c then (False, 2)
                  else if byte_in 224 239 a then (True, 3)
                  else (case r3 of
                      [] \<Rightarrow> (False, 3)
                    | d # r4 \<Rightarrow> if utf8_cont d then (True, 4) else (False, 3)))))"

lemma utf8_front_pos: "0 < snd (utf8_front a r)"
  by (simp add: utf8_front_def split: list.split)

function from_utf8_lossy :: "string \<Rightarrow> string" where
  "from_utf8_lossy s =
     (case s of
        [] \<Rightarrow> []
      | a # r \<Rightarrow>
         (case utf8_front a r of
            (ok, n) \<Rightarrow> (if ok then take n s else [CHR 0xEF, CHR 0xBF, CHR 0xBD]) @ from_utf8_lossy (drop n s)))"
  by pat_completeness auto
termination
proof (relation "measure length")
  fix s a r x y
  assume "s = a # r" and "(x, y) = utf8_front a r"
  moreover from this have "0 < y" using utf8_front_pos [of a r] by (metis snd_conv)
  ultimately show "(drop y s, s) \<in> measure length" by simp
qed simp

declare from_utf8_lossy.simps [simp del]

lemma utf8_front_valid: "utf8_front a r = (True, n) \<Longrightarrow> utf8_valid (take n (a # r) @ s) = utf8_valid s"
  by (auto simp: utf8_front_def second_ok_def byte_in_def utf8_cont_def split: list.splits if_splits)

lemma from_utf8_lossy_valid: "utf8_valid (from_utf8_lossy s)"
proof (induction s rule: from_utf8_lossy.induct)
  case (1 s)
  show ?case
  proof (cases s)
    case Nil
    then show ?thesis by (subst from_utf8_lossy.simps) simp
  next
    case (Cons a r)
    obtain ok n where f: "utf8_front a r = (ok, n)" by fastforce
    have ih: "utf8_valid (from_utf8_lossy (drop n s))" using 1 [OF Cons f [symmetric]] by simp
    have mark: "utf8_valid ([CHR 0xEF, CHR 0xBF, CHR 0xBD] @ t) = utf8_valid t" for t
      by (simp add: byte_in_def utf8_cont_def)
    have "from_utf8_lossy s = (if ok then take n (a # r) else [CHR 0xEF, CHR 0xBF, CHR 0xBD]) @ from_utf8_lossy (drop n s)"
      using Cons f by (subst from_utf8_lossy.simps) simp
    then show ?thesis using utf8_front_valid [of a r n] f ih by (cases ok) (simp_all only: mark if_True if_False)
  qed
qed

declare utf8_valid.simps(2) [simp del]

text \<open>A sequence that starts with a byte above 127: how many bytes follow, and which.\<close>

definition tail_len :: "char \<Rightarrow> nat" where
  "tail_len a = (if byte_in 194 223 a then 1 else if byte_in 224 239 a then 2 else 3)"

definition tail_ok :: "char \<Rightarrow> string \<Rightarrow> bool" where
  "tail_ok a bs =
     (if byte_in 194 223 a then list_all utf8_cont bs
      else if byte_in 224 239 a
      then (if byte_of a = 224 then byte_in 160 191 (hd bs)
            else if byte_of a = 237 then byte_in 128 159 (hd bs) else utf8_cont (hd bs))
           \<and> list_all utf8_cont (tl bs)
      else byte_in 240 244 a
           \<and> (if byte_of a = 240 then byte_in 144 191 (hd bs)
              else if byte_of a = 244 then byte_in 128 143 (hd bs) else utf8_cont (hd bs))
           \<and> list_all utf8_cont (tl bs))"

lemma utf8_unfold:
  assumes "\<not> byte_of a \<le> (127 :: nat)"
  shows "utf8_valid (a # r) \<longleftrightarrow>
     tail_len a \<le> length r \<and> tail_ok a (take (tail_len a) r) \<and> utf8_valid (drop (tail_len a) r)"
proof -
  consider "r = []" | b where "r = [b]" | b x where "r = [b, x]" | b x d s where "r = b # x # d # s"
    by (cases r; cases "tl r"; cases "tl (tl r)") auto
  then show ?thesis
    using assms
    by cases (cases "byte_in 194 223 a"; cases "byte_in 224 239 a"; subst utf8_valid.simps(2);
        auto simp: tail_len_def tail_ok_def numeral_2_eq_2 numeral_3_eq_3)+
qed

lemma tail_ok_cont: "tail_ok a bs \<Longrightarrow> bs \<noteq> [] \<Longrightarrow> c \<in> set bs \<Longrightarrow> utf8_cont c"
  by (cases bs) (auto simp: tail_ok_def list_all_iff utf8_cont_def byte_in_def split: if_splits)

text \<open>A valid string may be cut before any byte that is not a continuation byte.\<close>

lemma utf8_split: "\<not> utf8_cont c \<Longrightarrow> utf8_valid (p @ c # r) \<longleftrightarrow> utf8_valid p \<and> utf8_valid (c # r)"
proof (induction p rule: length_induct)
  case (1 p)
  show ?case
  proof (cases p)
    case (Cons a q)
    show ?thesis
    proof (cases "byte_of a \<le> (127 :: nat)")
      case True
      then have "utf8_valid (a # s) = utf8_valid s" for s by (subst utf8_valid.simps(2)) simp
      then show ?thesis using 1 Cons by simp
    next
      case False
      note unfold = utf8_unfold [OF False]
      show ?thesis
      proof (cases "tail_len a \<le> length q")
        case True
        have "length (drop (tail_len a) q) < length p" using Cons by simp
        then have "utf8_valid (drop (tail_len a) q @ c # r) \<longleftrightarrow> utf8_valid (drop (tail_len a) q) \<and> utf8_valid (c # r)"
          using 1 by blast
        then show ?thesis using True Cons by (simp add: unfold)
      next
        case short: False
        then have "c \<in> set (take (tail_len a) (q @ c # r))" by (simp add: take_Cons')
        then have "\<not> tail_ok a (take (tail_len a) (q @ c # r))" using tail_ok_cont 1(2) by fastforce
        then show ?thesis using short Cons by (simp add: unfold)
      qed
    qed
  qed simp
qed

declare utf8_valid.simps(2) [simp]

section \<open>Whitespace and trim\<close>

definition ws_seqs :: "string list" where
  "ws_seqs =
     map (\<lambda>n. [char_of n]) [9::nat, 10, 11, 12, 13, 32]
     @ map (map char_of) [[194::nat, 133], [194, 160], [225, 154, 128],
         [226, 128, 128], [226, 128, 129], [226, 128, 130], [226, 128, 131], [226, 128, 132],
         [226, 128, 133], [226, 128, 134], [226, 128, 135], [226, 128, 136], [226, 128, 137],
         [226, 128, 138], [226, 128, 168], [226, 128, 169], [226, 128, 175], [226, 129, 159],
         [227, 128, 128]]"

text \<open>Drop leading members of \<open>seqs\<close> as long as one matches.\<close>

function strip_seqs :: "string list \<Rightarrow> string \<Rightarrow> string" where
  "strip_seqs seqs s =
     (case find (\<lambda>w. w \<noteq> [] \<and> starts_with w s) seqs of
        None \<Rightarrow> s
      | Some w \<Rightarrow> strip_seqs seqs (drop (length w) s))"
  by pat_completeness auto
termination
  by (relation "measure (\<lambda>(seqs, s). length s)")
     (auto simp: find_Some_iff starts_with_iff)

declare strip_seqs.simps [simp del]

definition trim_start :: "string \<Rightarrow> string" where
  "trim_start s = strip_seqs ws_seqs s"

definition trim_end :: "string \<Rightarrow> string" where
  "trim_end s = rev (strip_seqs (map rev ws_seqs) (rev s))"

definition trim :: "string \<Rightarrow> string" where
  "trim s = trim_end (trim_start s)"

lemma strip_seqs_suffix: "\<exists>p. s = p @ strip_seqs seqs s"
proof (induction seqs s rule: strip_seqs.induct)
  case (1 seqs s)
  show ?case
  proof (cases "find (\<lambda>w. w \<noteq> [] \<and> starts_with w s) seqs")
    case None
    then show ?thesis by (simp add: strip_seqs.simps [of seqs s])
  next
    case (Some w)
    with 1 obtain p where "drop (length w) s = p @ strip_seqs seqs (drop (length w) s)" by blast
    then have "s = (take (length w) s @ p) @ strip_seqs seqs (drop (length w) s)"
      by (metis append.assoc append_take_drop_id)
    moreover from Some have "strip_seqs seqs s = strip_seqs seqs (drop (length w) s)"
      by (simp add: strip_seqs.simps [of seqs s])
    ultimately show ?thesis by metis
  qed
qed

lemma strip_seqs_no_match:
  "w \<in> set seqs \<Longrightarrow> w \<noteq> [] \<Longrightarrow> \<not> starts_with w (strip_seqs seqs s)"
proof (induction seqs s rule: strip_seqs.induct)
  case (1 seqs s)
  show ?case
  proof (cases "find (\<lambda>w. w \<noteq> [] \<and> starts_with w s) seqs")
    case None
    then have "strip_seqs seqs s = s" by (simp add: strip_seqs.simps [of seqs s])
    with None 1(2,3) show ?thesis by (auto simp: find_None_iff)
  next
    case (Some v)
    with 1 show ?thesis by (simp add: strip_seqs.simps [of seqs s])
  qed
qed

lemma strip_seqs_id:
  "\<forall>w \<in> set seqs. w = [] \<or> \<not> starts_with w s \<Longrightarrow> strip_seqs seqs s = s"
  by (subst strip_seqs.simps) (auto simp: find_None_iff split: option.split dest!: find_Some_iff [THEN iffD1])

lemma strip_seqs_idem [simp]: "strip_seqs seqs (strip_seqs seqs s) = strip_seqs seqs s"
  by (rule strip_seqs_id) (auto dest: strip_seqs_no_match)

text \<open>Trimming removes bytes at the two ends only.\<close>

lemma trim_middle: "\<exists>a b. s = a @ trim s @ b"
proof -
  obtain a where a: "s = a @ trim_start s"
    using strip_seqs_suffix unfolding trim_start_def by blast
  obtain b where "rev (trim_start s) = b @ strip_seqs (map rev ws_seqs) (rev (trim_start s))"
    using strip_seqs_suffix by blast
  then have "trim_start s = trim s @ rev b"
    unfolding trim_def trim_end_def by (metis rev_append rev_rev_ident)
  with a show ?thesis by metis
qed

lemma set_trim: "set (trim s) \<subseteq> set s"
proof -
  obtain a b where "s = a @ trim s @ b" using trim_middle by blast
  then have "set s = set a \<union> set (trim s) \<union> set b" by (metis Un_assoc set_append)
  then show ?thesis by blast
qed

lemma length_trim: "length (trim s) \<le> length s"
proof -
  obtain a b where "s = a @ trim s @ b" using trim_middle by blast
  then have "length s = length a + length (trim s) + length b" by (metis add.assoc length_append)
  then show ?thesis by simp
qed

text \<open>
  A string of printable ASCII characters (no space) is its own trim; this covers the tokens the
  configuration accepts.
\<close>

definition graphic :: "char \<Rightarrow> bool" where
  "graphic c = (33 \<le> byte_of c \<and> byte_of c \<le> 126)"

lemma ws_seqs_heads: "w \<in> set ws_seqs \<Longrightarrow> w \<noteq> [] \<and> \<not> graphic (hd w) \<and> \<not> graphic (last w)"
  by (auto simp: ws_seqs_def graphic_def)

lemma trim_start_graphic: "s = [] \<or> graphic (hd s) \<Longrightarrow> trim_start s = s"
  unfolding trim_start_def
  by (rule strip_seqs_id) (use ws_seqs_heads in \<open>auto simp: starts_with_iff hd_append\<close>)

lemma trim_start_space: "trim_start (CHR '' '' # s) = trim_start s"
proof -
  have "take 6 ws_seqs = [[CHR 0x09], [CHR 0x0A], [CHR 0x0B], [CHR 0x0C], [CHR 0x0D], '' '']" by code_simp
  then obtain rest where ws: "ws_seqs = [[CHR 0x09], [CHR 0x0A], [CHR 0x0B], [CHR 0x0C], [CHR 0x0D], '' ''] @ rest"
    by (metis append_take_drop_id)
  have "find (\<lambda>w. w \<noteq> [] \<and> starts_with w (CHR '' '' # s)) ws_seqs = Some '' ''"
    unfolding ws by (simp add: starts_with_def)
  then show ?thesis unfolding trim_start_def by (subst strip_seqs.simps) simp
qed

lemma trim_graphic:
  assumes "s = [] \<or> graphic (hd s) \<and> graphic (last s)"
  shows "trim s = s"
proof (cases "s = []")
  case True
  have "strip_seqs seqs [] = []" for seqs
    by (rule strip_seqs_id) (auto simp: starts_with_iff)
  with True show ?thesis by (simp add: trim_def trim_start_def trim_end_def)
next
  case False
  have "\<not> starts_with w s" if "w \<in> set ws_seqs" for w
    using ws_seqs_heads [OF that] assms False by (auto simp: starts_with_iff hd_append)
  then have "strip_seqs ws_seqs s = s" by (intro strip_seqs_id) auto
  moreover have "\<not> starts_with w (rev s)" if "w \<in> set (map rev ws_seqs)" for w
  proof -
    from that obtain v where v: "v \<in> set ws_seqs" "w = rev v" by auto
    then show ?thesis
      using ws_seqs_heads [OF v(1)] assms False
      by (auto simp: starts_with_iff) (metis hd_append2 hd_rev rev_is_Nil_conv)
  qed
  then have "strip_seqs (map rev ws_seqs) (rev s) = rev s" by (intro strip_seqs_id) auto
  ultimately show ?thesis by (simp add: trim_def trim_start_def trim_end_def)
qed

section \<open>Lines and boundaries\<close>

text \<open>\<^verbatim>\<open>str::lines\<close>: a line ends at a newline, a carriage return before it goes, the last one may have none.\<close>

definition str_lines :: "string \<Rightarrow> string list" where
  "str_lines s =
     (let ps = split_on CHR 0x0A s;
          body = map (\<lambda>l. if l \<noteq> [] \<and> last l = CHR 0x0D then butlast l else l) (butlast ps) in
      if last ps = [] then body else body @ [last ps])"

text \<open>\<^verbatim>\<open>str::is_char_boundary\<close>, and that a valid text may be cut there.\<close>

definition is_char_boundary :: "string \<Rightarrow> nat \<Rightarrow> bool" where
  "is_char_boundary s i = (i = 0 \<or> i = length s \<or> i < length s \<and> \<not> utf8_cont (s ! i))"

lemma boundary_take:
  assumes "utf8_valid s" and "is_char_boundary s n"
  shows "utf8_valid (take n s)"
proof (cases "n < length s \<and> n \<noteq> 0")
  case True
  then have "s = take n s @ s ! n # drop (Suc n) s" by (simp add: id_take_nth_drop)
  then show ?thesis using assms True utf8_split [of "s ! n" "take n s" "drop (Suc n) s"] by (auto simp: is_char_boundary_def)
qed (use assms in \<open>auto simp: is_char_boundary_def\<close>)

lemma boundary_drop:
  assumes "utf8_valid s" and "is_char_boundary s n"
  shows "utf8_valid (drop n s)"
proof (cases "n < length s")
  case True
  then have "s = take n s @ s ! n # drop (Suc n) s" by (rule id_take_nth_drop)
  then show ?thesis
    using assms True utf8_split [of "s ! n" "take n s" "drop (Suc n) s"]
    by (cases "n = 0") (auto simp: is_char_boundary_def Cons_nth_drop_Suc)
qed simp

text \<open>Trimming at the end takes whole characters away.\<close>

lemma trim_end_Nil: "trim_end [] = []"
proof -
  have "\<forall>w \<in> set (map rev ws_seqs). w = [] \<or> \<not> starts_with w []" by (auto simp: starts_with_iff)
  then show ?thesis unfolding trim_end_def using strip_seqs_id [of "map rev ws_seqs" "[]"] by simp
qed

lemma ws_seqs_whole: "w \<in> set ws_seqs \<Longrightarrow> w \<noteq> [] \<and> \<not> utf8_cont (hd w)"
  by (auto simp: ws_seqs_def utf8_cont_def)

lemma trim_end_valid: "utf8_valid s \<Longrightarrow> utf8_valid (trim_end s)"
proof -
  have "seqs = map rev ws_seqs \<Longrightarrow> utf8_valid (rev r) \<Longrightarrow> utf8_valid (rev (strip_seqs seqs r))" for seqs r
  proof (induction seqs r rule: strip_seqs.induct)
    case (1 seqs r)
    show ?case
    proof (cases "find (\<lambda>w. w \<noteq> [] \<and> starts_with w r) seqs")
      case None
      then show ?thesis using 1(3) by (simp add: strip_seqs.simps [of seqs r])
    next
      case (Some w)
      then have w: "rev w \<in> set ws_seqs" "r = w @ drop (length w) r"
        using 1(2) by (auto simp: find_Some_iff starts_with_iff)
      have h: "rev w \<noteq> []" "\<not> utf8_cont (hd (rev w))" using ws_seqs_whole [OF w(1)] by auto
      then obtain c x where c: "rev w = c # x" "\<not> utf8_cont c" by (metis list.collapse)
      have "rev r = rev (drop (length w) r) @ c # x" using w(2) c(1) by (metis rev_append)
      then have "utf8_valid (rev (drop (length w) r))" using 1(3) utf8_split [OF c(2)] by metis
      then show ?thesis using 1(1) [OF Some 1(2)] Some by (simp add: strip_seqs.simps [of seqs r])
    qed
  qed
  then show "utf8_valid s \<Longrightarrow> ?thesis" unfolding trim_end_def by simp
qed

lemma trim_idem [simp]: "trim (trim s) = trim s"
proof -
  have "strip_seqs ws_seqs (trim s) = trim s"
  proof (rule strip_seqs_id)
    show "\<forall>w \<in> set ws_seqs. w = [] \<or> \<not> starts_with w (trim s)"
    proof (intro ballI disjCI)
      fix w assume w: "w \<in> set ws_seqs" and st: "\<not> \<not> starts_with w (trim s)"
      obtain b where "rev (trim_start s) = b @ strip_seqs (map rev ws_seqs) (rev (trim_start s))" using strip_seqs_suffix by blast
      then have "trim_start s = trim s @ rev b" unfolding trim_def trim_end_def by (metis rev_append rev_rev_ident)
      then have "starts_with w (strip_seqs ws_seqs s)" using st by (auto simp: starts_with_iff trim_start_def)
      then show "w = []" using strip_seqs_no_match [OF w] by blast
    qed
  qed
  then show ?thesis unfolding trim_def trim_end_def trim_start_def by simp
qed

end
