(* ===== verification/Stream_Codec.thy ===== *)
theory Stream_Codec
  imports Rust_Text
begin

text \<open>
  The interface of a self-delimiting encoding on a byte stream, as the readers of the agent use
  it: they decode one item from the front of what has arrived and go on behind it. The provider
  promises that an encoded item is read back whatever follows it, and that a successful read
  consumes at least one byte. Two clients are proved once: a sequence of encoded items is read
  back as that sequence, and the encoding is prefix free.
\<close>

fun decode_many :: "(bytes \<Rightarrow> ('a \<times> bytes) option) \<Rightarrow> nat \<Rightarrow> bytes \<Rightarrow> ('a list \<times> bytes) option" where
  "decode_many dec 0 bs = Some ([], bs)"
| "decode_many dec (Suc n) bs =
     (case dec bs of None \<Rightarrow> None
      | Some (a, rest) \<Rightarrow>
          (case decode_many dec n rest of None \<Rightarrow> None | Some (as, r) \<Rightarrow> Some (a # as, r)))"

text \<open>Read items until the input is used up or an item cannot be read; the rest is returned.\<close>

function decode_all :: "(bytes \<Rightarrow> ('a \<times> bytes) option) \<Rightarrow> bytes \<Rightarrow> 'a list \<times> bytes" where
  "decode_all dec bs =
     (case dec bs of None \<Rightarrow> ([], bs)
      | Some (a, rest) \<Rightarrow>
          if length rest < length bs
          then (let (as, r) = decode_all dec rest in (a # as, r)) else ([], bs))"
  by pat_completeness auto
termination
  by (relation "measure (\<lambda>(dec, bs). length bs)") auto

declare decode_all.simps [simp del]

locale stream_codec =
  fixes valid :: "'a \<Rightarrow> bool"
    and enc :: "'a \<Rightarrow> bytes"
    and dec :: "bytes \<Rightarrow> ('a \<times> bytes) option"
  assumes dec_enc: "valid a \<Longrightarrow> dec (enc a @ rest) = Some (a, rest)"
    and dec_shrinks: "dec bs = Some (a, rest) \<Longrightarrow> length rest < length bs"
    and dec_Nil: "dec [] = None"
begin

lemma decode_many_enc:
  "list_all valid as \<Longrightarrow> decode_many dec (length as) (concat (map enc as) @ rest) = Some (as, rest)"
  by (induction as) (auto simp: dec_enc)

lemma decode_all_enc:
  "list_all valid as \<Longrightarrow> decode_all dec (concat (map enc as)) = (as, [])"
proof (induction as)
  case Nil
  then show ?case by (simp add: decode_all.simps dec_Nil)
next
  case (Cons a as)
  then have "dec (enc a @ concat (map enc as)) = Some (a, concat (map enc as))"
    by (simp add: dec_enc)
  with Cons dec_shrinks [OF this] show ?case
    by (simp add: decode_all.simps [of dec "enc a @ concat (map enc as)"])
qed

lemma enc_prefix_free:
  "valid a \<Longrightarrow> valid b \<Longrightarrow> enc a @ r = enc b @ s \<Longrightarrow> a = b \<and> r = s"
  by (metis dec_enc option.inject prod.inject)

lemma enc_nonempty: "valid a \<Longrightarrow> enc a \<noteq> []"
  using dec_enc [of a "[]"] dec_Nil by auto

end

end
