(* ===== verification/Masque.thy ===== *)
theory Masque
  imports Stream_Codec
begin

unbundle bit_operations_syntax

text \<open>
  \<^verbatim>\<open>native/src/masque/varint.rs\<close> and \<^verbatim>\<open>native/src/masque/capsule.rs\<close>: QUIC variable-length integers,
  DATAGRAM capsules and the UDP payload inside them. Values are \<^verbatim>\<open>u64\<close> words; appending to the
  output vector is appending to the list the function is given.
\<close>

section \<open>varint.rs\<close>

definition MAX_VARINT :: u64 where
  "MAX_VARINT = 2 ^ 62 - 1"

datatype varint_error = VarintRangeError u64

definition varint_encode :: "u64 \<Rightarrow> bytes \<Rightarrow> varint_error + bytes" where
  "varint_encode v out =
     (if v < 2 ^ 6 then Ok (out @ [ucast v])
      else if v < 2 ^ 14 then Ok (out @ to_be 2 (unat ((ucast v :: u16) OR 0x4000)))
      else if v < 2 ^ 30 then Ok (out @ to_be 4 (unat ((ucast v :: u32) OR 0x80000000)))
      else if v \<le> MAX_VARINT then Ok (out @ to_be 8 (unat (v OR 0xC000000000000000)))
      else Err (VarintRangeError v))"

definition varint_decode :: "bytes \<Rightarrow> (u64 \<times> nat) option" where
  "varint_decode buf =
     (case buf of [] \<Rightarrow> None
      | first # _ \<Rightarrow>
          (let len = 2 ^ unat (drop_bit 6 first) in
           if length buf < len then None
           else Some (foldl (\<lambda>v b. push_bit 8 v OR ucast b) (ucast (first AND 0x3f)) (take (len - 1) (tl buf)),
                      len)))"

section \<open>capsule.rs\<close>

definition DATAGRAM_CAPSULE_TYPE :: u64 where "DATAGRAM_CAPSULE_TYPE = 0"
definition MAX_CAPSULE_VALUE_LEN :: nat where "MAX_CAPSULE_VALUE_LEN = 65527 + 8"
definition CONTEXT_ID_RAW_UDP :: u64 where "CONTEXT_ID_RAW_UDP = 0"

datatype capsule_error = CapsuleTooLong

definition encode_datagram :: "bytes \<Rightarrow> varint_error + bytes" where
  "encode_datagram payload =
     (case varint_encode DATAGRAM_CAPSULE_TYPE [] of
        Err e \<Rightarrow> Err e
      | Ok out \<Rightarrow>
          (case varint_encode (word_of_nat (length payload)) out of
             Err e \<Rightarrow> Err e
           | Ok out2 \<Rightarrow> Ok (out2 @ payload)))"

definition capsule_decode :: "bytes \<Rightarrow> capsule_error + (u64 \<times> bytes \<times> nat) option" where
  "capsule_decode buf =
     (case varint_decode buf of
        None \<Rightarrow> Ok None
      | Some (cap_type, type_len) \<Rightarrow>
          (case varint_decode (drop type_len buf) of
             None \<Rightarrow> Ok None
           | Some (len, len_len) \<Rightarrow>
               if MAX_CAPSULE_VALUE_LEN < unat len then Err CapsuleTooLong
               else (let header_len = type_len + len_len; total = header_len + unat len in
                     if length buf < total then Ok None
                     else Ok (Some (cap_type, take (unat len) (drop header_len buf), total)))))"

definition udp_encode :: "bytes \<Rightarrow> varint_error + bytes" where
  "udp_encode udp_payload =
     (case varint_encode CONTEXT_ID_RAW_UDP [] of Err e \<Rightarrow> Err e | Ok out \<Rightarrow> Ok (out @ udp_payload))"

definition udp_decode :: "bytes \<Rightarrow> bytes option" where
  "udp_decode buf =
     (case varint_decode buf of None \<Rightarrow> None
      | Some (context_id, consumed) \<Rightarrow>
          if context_id \<noteq> CONTEXT_ID_RAW_UDP then None else Some (drop consumed buf))"

section \<open>Lemmas on varints\<close>

lemma unat_shift_or:
  fixes v :: u64 and b :: byte
  assumes "unat v < 2 ^ 56"
  shows "unat (push_bit 8 v OR ucast b) = unat v * 256 + unat b"
proof -
  have "unat (push_bit 8 v) = unat v * 256"
    using assms by (simp add: push_bit_eq_mult unat_word_ariths)
  moreover have "unat (ucast b :: u64) = unat b"
    using unat_byte_lt [of b] by (simp add: unsigned_ucast_eq take_bit_nat_eq_self)
  moreover have "unat b OR (unat v * 2 ^ 8) = unat b + unat v * 2 ^ 8"
    using unat_byte_lt [of b] by (intro or_shifted_add) simp
  ultimately show ?thesis by (simp add: unsigned_or_eq or.commute)
qed

lemma unat_foldl_shift:
  fixes a :: u64
  assumes "(unat a + 1) * 256 ^ length bs \<le> 2 ^ 64"
  shows "unat (foldl (\<lambda>v b. push_bit 8 v OR ucast b) a bs) = unat a * 256 ^ length bs + from_be bs"
  using assms
proof (induction bs arbitrary: a rule: rev_induct)
  case Nil
  then show ?case by simp
next
  case (snoc b bs)
  have pos: "unat a * 256 ^ length bs + from_be bs < (unat a + 1) * 256 ^ length bs"
    using from_be_bound [of bs] by simp
  have le: "(unat a + 1) * 256 ^ length bs \<le> 2 ^ 56" using snoc.prems by simp
  then have "unat (foldl (\<lambda>v b. push_bit 8 v OR ucast b) a bs) = unat a * 256 ^ length bs + from_be bs"
    by (intro snoc.IH) simp
  with pos le show ?case by (simp add: unat_shift_or algebra_simps)
qed
lemma varint_decode_at:
  assumes "k < 4" and "n = 2 ^ k" and "v < 64 * 256 ^ (n - 1)"
  shows "varint_decode (to_be n (k * 64 * 256 ^ (n - 1) + v) @ rest) = Some (word_of_nat v, n)"
proof -
  define x m q where "x = k * 64 * 256 ^ (n - 1) + v" and "m = n - 1" and "q = v div 256 ^ m"
  have n: "n = Suc m" using assms(2) by (simp add: m_def)
  have q: "q < 64" using assms(3) by (simp add: q_def m_def less_mult_imp_div_less)
  have xd: "x div 256 ^ m = k * 64 + q" and xm: "x mod 256 ^ m = v mod 256 ^ m"
    by (simp_all add: x_def m_def q_def)
  define first where "first = (word_of_nat (k * 64 + q) :: byte)"
  have first: "unat first = k * 64 + q"
    using assms(1) q unfolding first_def by (subst unat_of_nat) simp
  have enc: "to_be n x = first # to_be m x"
    unfolding n by (simp only: to_be_Cons xd first_def)
  have tag: "unat (drop_bit 6 first) = k"
    using first q by (simp add: drop_bit_eq_div unat_div)
  have "unat (first AND 0x3f) = q"
  proof -
    have "unat (first AND 0x3f) = unat first AND mask 6"
      by (simp add: unsigned_and_eq mask_eq_exp_minus_1)
    also have "\<dots> = q" using first q by (simp add: take_bit_eq_mod flip: take_bit_eq_mask)
    finally show ?thesis .
  qed
  then have a: "unat (ucast (first AND 0x3f) :: u64) = q"
    using q by (simp add: unsigned_ucast_eq take_bit_nat_eq_self)
  let ?r = "foldl (\<lambda>v b. push_bit 8 v OR ucast b) (ucast (first AND 0x3f) :: u64) (to_be m x)"
  have "k = 0 \<or> k = 1 \<or> k = 2 \<or> k = 3" using assms(1) by auto
  then have "m \<le> 7" using assms(2) by (auto simp: m_def)
  then have "(256 :: nat) ^ m \<le> 256 ^ 7" by (intro power_increasing) auto
  then have "(q + 1) * 256 ^ m \<le> 64 * 256 ^ 7" using q by (intro mult_mono) auto
  then have "unat ?r = q * 256 ^ m + from_be (to_be m x)"
    using a by (subst unat_foldl_shift) simp_all
  also have "\<dots> = v" by (simp only: from_be_to_be xm q_def div_mult_mod_eq)
  finally have "word_of_nat (unat ?r) = (word_of_nat v :: u64)" by (rule arg_cong)
  then have r: "?r = word_of_nat v" by simp
  have "2 ^ k = Suc m" using n assms(2) by simp
  with tag r n have "varint_decode (first # to_be m x @ rest) = Some (word_of_nat v, n)"
    by (simp add: varint_decode_def Let_def)
  then have "varint_decode (to_be n x @ rest) = Some (word_of_nat v, n)"
    by (simp only: enc append_Cons)
  then show ?thesis by (simp only: x_def)
qed

lemma varint_encode_Ok:
  assumes "unat v < 2 ^ 62"
  shows "\<exists>k n. k < 4 \<and> n = 2 ^ k \<and> unat v < 64 * 256 ^ (n - 1)
     \<and> varint_encode v out = Ok (out @ to_be n (k * 64 * 256 ^ (n - 1) + unat v))"
proof -
  have cast16: "unat (ucast v :: u16) = unat v" if "unat v < 2 ^ 14"
    using that by (simp add: unsigned_ucast_eq take_bit_nat_eq_self)
  have cast32: "unat (ucast v :: u32) = unat v" if "unat v < 2 ^ 30"
    using that by (simp add: unsigned_ucast_eq take_bit_nat_eq_self)
  have b1: "(ucast v :: byte) = word_of_nat (unat v)" by simp
  consider "unat v < 2 ^ 6" | "\<not> unat v < 2 ^ 6" "unat v < 2 ^ 14"
    | "\<not> unat v < 2 ^ 14" "unat v < 2 ^ 30" | "\<not> unat v < 2 ^ 30" by linarith
  then show ?thesis
  proof cases
    case 1
    then show ?thesis
      by (intro exI [of _ 0] exI [of _ 1]) (simp add: varint_encode_def word_less_nat_alt)
  next
    case 2
    have "unat ((ucast v :: u16) OR 0x4000) = 1 * 64 * 256 + unat v"
      using or_shifted_add [of "unat v" 14 1] 2 cast16 by (simp add: unsigned_or_eq)
    with 2 show ?thesis
      by (intro exI [of _ 1] exI [of _ 2]) (simp add: varint_encode_def word_less_nat_alt)
  next
    case 3
    have "unat ((ucast v :: u32) OR 0x80000000) = 2 * 64 * 256 ^ 3 + unat v"
      using or_shifted_add [of "unat v" 30 2] 3 cast32 by (simp add: unsigned_or_eq)
    with 3 show ?thesis
      by (intro exI [of _ 2] exI [of _ 4]) (simp add: varint_encode_def word_less_nat_alt)
  next
    case 4
    have "unat (v OR 0xC000000000000000) = 3 * 64 * 256 ^ 7 + unat v"
      using or_shifted_add [of "unat v" 62 3] assms by (simp add: unsigned_or_eq)
    with 4 assms show ?thesis
      by (intro exI [of _ 3] exI [of _ 8])
        (simp add: varint_encode_def word_less_nat_alt word_le_nat_alt MAX_VARINT_def)
  qed
qed
lemma varint_encode_iff:
  "(\<exists>bs. varint_encode v out = Ok bs) \<longleftrightarrow> unat v < 2 ^ 62"
proof
  assume "\<exists>bs. varint_encode v out = Ok bs"
  then show "unat v < 2 ^ 62"
    by (auto simp: varint_encode_def word_less_nat_alt word_le_nat_alt MAX_VARINT_def split: if_splits)
next
  assume "unat v < 2 ^ 62"
  then show "\<exists>bs. varint_encode v out = Ok bs" using varint_encode_Ok by blast
qed

lemma varint_decode_encode:
  assumes "varint_encode v [] = Ok bs"
  shows "varint_decode (bs @ rest) = Some (v, length bs)"
proof -
  have "unat v < 2 ^ 62" using assms varint_encode_iff by blast
  then obtain k n where k: "k < 4" "n = 2 ^ k" "unat v < 64 * 256 ^ (n - 1)"
    and e: "varint_encode v [] = Ok ([] @ to_be n (k * 64 * 256 ^ (n - 1) + unat v))"
    using varint_encode_Ok by blast
  with assms have "bs = to_be n (k * 64 * 256 ^ (n - 1) + unat v)" by simp
  with varint_decode_at [OF k] show ?thesis by simp
qed

lemma varint_encode_append:
  "varint_encode v out = map_sum id (\<lambda>bs. out @ bs) (varint_encode v [])"
  by (simp add: varint_encode_def)

lemma drop_bit_6_lt: "unat (drop_bit 6 (b :: byte)) < 4"
  using unat_byte_lt [of b] by (simp add: drop_bit_eq_div unat_div less_mult_imp_div_less)

lemma varint_decode_len:
  assumes "varint_decode buf = Some (v, n)"
  shows "n \<in> {1, 2, 4, 8}" and "n \<le> length buf"
proof -
  obtain first r where buf: "buf = first # r" using assms by (cases buf) (auto simp: varint_decode_def)
  from drop_bit_6_lt [of first] have "unat (drop_bit 6 first) \<in> {0, 1, 2, 3}" by auto
  then show "n \<in> {1, 2, 4, 8}" and "n \<le> length buf"
    using assms by (auto simp: buf varint_decode_def Let_def split: if_splits)
qed

lemma varint_decode_append:
  "varint_decode buf = Some (v, n) \<Longrightarrow> varint_decode (buf @ x) = Some (v, n)"
  by (cases buf) (auto simp: varint_decode_def Let_def split: if_splits)

section \<open>Capsules\<close>

lemma varint_encode_0: "varint_encode 0 out = Ok (out @ [0])"
  by (simp add: varint_encode_def)

lemma varint_decode_0: "varint_decode (0 # r) = Some (0, 1)"
  by (simp add: varint_decode_def)

lemma encode_datagram_eq:
  "encode_datagram payload = map_sum id (\<lambda>h. 0 # h @ payload) (varint_encode (word_of_nat (length payload)) [])"
  by (cases "varint_encode (word_of_nat (length payload)) []")
    (simp_all add: encode_datagram_def DATAGRAM_CAPSULE_TYPE_def varint_encode_0
      varint_encode_append [of _ "[0]"])

lemma capsule_decode_cases:
  assumes "capsule_decode buf = Ok (Some (t, v, n))"
  shows "2 \<le> n" and "n \<le> length buf" and "length v \<le> MAX_CAPSULE_VALUE_LEN"
proof -
  from assms obtain t1 l l1 where d1: "varint_decode buf = Some (t, t1)"
    and d2: "varint_decode (drop t1 buf) = Some (l, l1)" and n: "n = t1 + l1 + unat l"
    and le: "n \<le> length buf" and v: "v = take (unat l) (drop (t1 + l1) buf)"
    and m: "unat l \<le> MAX_CAPSULE_VALUE_LEN"
    by (auto simp: capsule_decode_def Let_def split: option.splits if_splits)
  have "1 \<le> t1" "1 \<le> l1" using varint_decode_len(1) [OF d1] varint_decode_len(1) [OF d2] by auto
  with n show "2 \<le> n" by simp
  show "n \<le> length buf" by (rule le)
  show "length v \<le> MAX_CAPSULE_VALUE_LEN" using v m by simp
qed

text \<open>What has been read stays read when more bytes arrive; a violation stays one.\<close>

lemma capsule_decode_append:
  assumes "capsule_decode buf \<noteq> Ok None"
  shows "capsule_decode (buf @ x) = capsule_decode buf"
proof -
  from assms obtain t t1 l l1 where d1: "varint_decode buf = Some (t, t1)"
    and d2: "varint_decode (drop t1 buf) = Some (l, l1)"
    by (auto simp: capsule_decode_def split: option.splits)
  have "t1 \<le> length buf" using varint_decode_len(2) [OF d1] .
  with d2 have "varint_decode (drop t1 (buf @ x)) = Some (l, l1)"
    by (simp add: varint_decode_append)
  moreover have "\<not> length buf < t1 + l1 + unat l \<or> MAX_CAPSULE_VALUE_LEN < unat l"
    using assms d1 d2 by (auto simp: capsule_decode_def Let_def split: if_splits)
  ultimately show ?thesis
    using varint_decode_append [OF d1, of x] d1 d2 by (auto simp: capsule_decode_def Let_def)
qed

lemma capsule_decode_encode:
  assumes "length payload \<le> MAX_CAPSULE_VALUE_LEN" and "encode_datagram payload = Ok bs"
  shows "capsule_decode (bs @ rest) = Ok (Some (0, payload, length bs))"
proof -
  from assms(2) obtain h where h: "varint_encode (word_of_nat (length payload)) [] = Ok h"
    and bs: "bs = 0 # h @ payload"
    by (cases "varint_encode (word_of_nat (length payload)) []") (auto simp: encode_datagram_eq)
  have len: "unat (word_of_nat (length payload) :: u64) = length payload"
    using assms(1) by (subst unat_of_nat) (simp add: MAX_CAPSULE_VALUE_LEN_def)
  show ?thesis
    using assms(1) len
    by (simp add: bs capsule_decode_def varint_decode_0 varint_decode_encode [OF h] Let_def)
qed

lemma encode_datagram_Ok:
  "length payload \<le> MAX_CAPSULE_VALUE_LEN \<Longrightarrow> \<exists>bs. encode_datagram payload = Ok bs"
proof -
  assume a: "length payload \<le> MAX_CAPSULE_VALUE_LEN"
  then have "unat (word_of_nat (length payload) :: u64) < 2 ^ 62"
    by (subst unat_of_nat) (simp add: MAX_CAPSULE_VALUE_LEN_def)
  then obtain h where "varint_encode (word_of_nat (length payload)) [] = Ok h"
    using varint_encode_iff by blast
  then show ?thesis by (simp add: encode_datagram_eq)
qed

section \<open>socket.rs: the datagram pumps\<close>

text \<open>
  A bounded channel (\<^verbatim>\<open>mpsc::channel(PUMP_CAPACITY)\<close>): the queued items and whether each end still
  exists.
\<close>

definition PUMP_CAPACITY :: nat where "PUMP_CAPACITY = 256"
definition DROP_LOG_EVERY :: nat where "DROP_LOG_EVERY = 1000"

datatype direction = Outbound | Inbound

record chan =
  ch_items :: "bytes list"
  ch_rx_open :: bool
  ch_tx_open :: bool

text \<open>The counters of one socket, the process-wide totals and the rate-limited log lines.\<close>

record drop_counters =
  dc_outbound :: nat
  dc_inbound :: nat
  dc_outbound_total :: nat
  dc_inbound_total :: nat
  dc_log :: "(direction \<times> nat) list"

definition note_drop :: "direction \<Rightarrow> drop_counters \<Rightarrow> drop_counters" where
  "note_drop dir c =
     (let n = (case dir of Outbound \<Rightarrow> dc_outbound c | Inbound \<Rightarrow> dc_inbound c) + 1;
          c1 = (case dir of
                  Outbound \<Rightarrow> c\<lparr>dc_outbound := n, dc_outbound_total := dc_outbound_total c + 1\<rparr>
                | Inbound \<Rightarrow> c\<lparr>dc_inbound := n, dc_inbound_total := dc_inbound_total c + 1\<rparr>)
      in if n mod DROP_LOG_EVERY = 0 then c1\<lparr>dc_log := dc_log c1 @ [(dir, n)]\<rparr> else c1)"

datatype pump_closed = PumpClosed

definition offer :: "chan \<Rightarrow> drop_counters \<Rightarrow> direction \<Rightarrow> bytes \<Rightarrow> pump_closed + (chan \<times> drop_counters)" where
  "offer tx counters dir payload =
     (if \<not> ch_rx_open tx then Err PumpClosed
      else if length (ch_items tx) < PUMP_CAPACITY then Ok (tx\<lparr>ch_items := ch_items tx @ [payload]\<rparr>, counters)
      else Ok (tx, note_drop dir counters))"

text \<open>
  The inner loop of the inbound pump: decode capsules from the front of the buffer and offer the
  UDP payload of each DATAGRAM capsule with context id 0, until the buffer holds no complete
  capsule. \<open>None\<close> for the buffer: the task returned (its buffer is gone).
\<close>

record inbound =
  in_buf :: "bytes option"
  in_tx :: chan
  in_drops :: drop_counters

lemma capsule_decode_shrinks:
  "capsule_decode buf = Ok (Some (t, v, n)) \<Longrightarrow> length buf - n < length buf"
  using capsule_decode_cases(1,2) [of buf t v n] by simp

function inbound_drain :: "bytes \<Rightarrow> chan \<Rightarrow> drop_counters \<Rightarrow> inbound" where
  "inbound_drain buf tx counters =
     (case capsule_decode buf of
        Err e \<Rightarrow> \<lparr>in_buf = None, in_tx = tx\<lparr>ch_tx_open := False\<rparr>, in_drops = counters\<rparr>
      | Ok None \<Rightarrow> \<lparr>in_buf = Some buf, in_tx = tx, in_drops = counters\<rparr>
      | Ok (Some (cap_type, value, consumed)) \<Rightarrow>
          if cap_type = 0
          then (case udp_decode value of
                  None \<Rightarrow> inbound_drain (drop consumed buf) tx counters
                | Some udp_payload \<Rightarrow>
                    (case offer tx counters Inbound udp_payload of
                       Err e \<Rightarrow> \<lparr>in_buf = None, in_tx = tx\<lparr>ch_tx_open := False\<rparr>, in_drops = counters\<rparr>
                     | Ok (tx2, counters2) \<Rightarrow> inbound_drain (drop consumed buf) tx2 counters2))
          else inbound_drain (drop consumed buf) tx counters)"
  by pat_completeness auto
termination
  by (relation "measure (\<lambda>(buf, tx, c). length buf)")
     (auto dest: capsule_decode_shrinks)

declare inbound_drain.simps [simp del]

definition inbound_chunk :: "bytes \<Rightarrow> inbound \<Rightarrow> inbound" where
  "inbound_chunk chunk s =
     (case in_buf s of None \<Rightarrow> s
      | Some buf \<Rightarrow> inbound_drain (buf @ chunk) (in_tx s) (in_drops s))"

text \<open>The h2 receive stream ended or failed: the task returns and its sender is dropped.\<close>

definition inbound_end :: "inbound \<Rightarrow> inbound" where
  "inbound_end s = s\<lparr>in_buf := None, in_tx := (in_tx s)\<lparr>ch_tx_open := False\<rparr>\<rparr>"

text \<open>The outbound pump: one payload taken from the queue becomes one frame on the h2 stream.\<close>

definition outbound_frame :: "bytes \<Rightarrow> varint_error + bytes" where
  "outbound_frame payload =
     (case udp_encode payload of Err e \<Rightarrow> Err e | Ok p \<Rightarrow> encode_datagram p)"

fun outbound_pump :: "bytes list \<Rightarrow> bytes \<Rightarrow> bytes" where
  "outbound_pump [] wire = wire"
| "outbound_pump (payload # ps) wire =
     (case outbound_frame payload of
        Ok framed \<Rightarrow> outbound_pump ps (wire @ framed)
      | Err e \<Rightarrow> outbound_pump ps wire)"

text \<open>The socket as quinn drives it.\<close>

record masque_socket =
  to_send :: chan
  recv_rx :: chan
  sock_drops :: drop_counters

datatype recv_result = Ready bytes | BrokenPipe | Pending

definition try_send :: "bytes \<Rightarrow> masque_socket \<Rightarrow> pump_closed + masque_socket" where
  "try_send contents s =
     (case offer (to_send s) (sock_drops s) Outbound contents of
        Err e \<Rightarrow> Err e
      | Ok (tx, c) \<Rightarrow> Ok (s\<lparr>to_send := tx, sock_drops := c\<rparr>))"

definition poll_recv :: "nat \<Rightarrow> masque_socket \<Rightarrow> recv_result \<times> masque_socket" where
  "poll_recv buf_len s =
     (case ch_items (recv_rx s) of
        payload # rest \<Rightarrow>
          (Ready (take (min (length payload) buf_len) payload), s\<lparr>recv_rx := (recv_rx s)\<lparr>ch_items := rest\<rparr>\<rparr>)
      | [] \<Rightarrow> (if ch_tx_open (recv_rx s) then Pending else BrokenPipe, s))"

section \<open>Properties\<close>

text \<open>
  A varint that was encoded is read back, whatever follows it, and exactly its own bytes are
  consumed; encoding fails exactly above 2^62 - 1.
\<close>

theorem varint_roundtrip:
  "case varint_encode v [] of
     Ok bs \<Rightarrow> unat v < 2 ^ 62 \<and> varint_decode (bs @ rest) = Some (v, length bs)
   | Err e \<Rightarrow> 2 ^ 62 \<le> unat v \<and> e = VarintRangeError v"
proof (cases "varint_encode v []")
  case (Inl e)
  then have "\<not> unat v < 2 ^ 62" using varint_encode_iff [of v "[]"] by simp
  with Inl show ?thesis by (auto simp: varint_encode_def split: if_splits)
next
  case (Inr bs)
  then show ?thesis using varint_encode_iff [of v "[]"] varint_decode_encode by simp
qed

lemma inbound_drain_skip:
  "capsule_decode buf = Ok (Some (t, v, n)) \<Longrightarrow> t \<noteq> 0 \<or> udp_decode v = None \<Longrightarrow>
     inbound_drain buf tx c = inbound_drain (drop n buf) tx c"
  by (subst inbound_drain.simps) auto

lemma inbound_drain_offer:
  "capsule_decode buf = Ok (Some (0, v, n)) \<Longrightarrow> udp_decode v = Some p \<Longrightarrow>
     inbound_drain buf tx c =
       (case offer tx c Inbound p of
          Err e \<Rightarrow> \<lparr>in_buf = None, in_tx = tx\<lparr>ch_tx_open := False\<rparr>, in_drops = c\<rparr>
        | Ok (tx2, c2) \<Rightarrow> inbound_drain (drop n buf) tx2 c2)"
  by (subst inbound_drain.simps) simp

lemma inbound_chunk_drain:
  "inbound_chunk b (inbound_drain buf tx c) = inbound_drain (buf @ b) tx c"
proof (induction buf tx c rule: inbound_drain.induct)
  case (1 buf tx c)
  note unf = inbound_drain.simps [of buf tx c] inbound_drain.simps [of "buf @ b" tx c]
  show ?case
  proof (cases "capsule_decode buf")
    case (Inl e)
    then have "capsule_decode (buf @ b) = Err e" by (simp add: capsule_decode_append)
    with Inl show ?thesis by (simp add: unf inbound_chunk_def)
  next
    case (Inr r)
    show ?thesis
    proof (cases r)
      case None
      then show ?thesis using Inr by (simp add: unf(1) inbound_chunk_def)
    next
      case (Some a)
      obtain t v n where a: "a = (t, v, n)" by (cases a)
      have d: "capsule_decode buf = Ok (Some (t, v, n))" using Inr Some a by simp
      then have d2: "capsule_decode (buf @ b) = Ok (Some (t, v, n))"
        by (simp add: capsule_decode_append)
      have dr: "drop n (buf @ b) = drop n buf @ b" using capsule_decode_cases(2) [OF d] by simp
      show ?thesis
      proof (cases "t = 0 \<and> udp_decode v \<noteq> None")
        case True
        then obtain p where p: "t = 0" "udp_decode v = Some p" by auto
        show ?thesis
        proof (cases "offer tx c Inbound p")
          case (Inl e)
          with d d2 p show ?thesis by (simp add: inbound_drain_offer inbound_chunk_def)
        next
          case (Inr o2)
          then show ?thesis
            using d d2 p dr "1.IH"(2) [OF d refl refl refl p(1,2) Inr]
            by (cases o2) (simp add: inbound_drain_offer)
        qed
      next
        case False
        have "inbound_chunk b (inbound_drain (drop n buf) tx c) = inbound_drain (drop n buf @ b) tx c"
          using False "1.IH"(1) [OF d refl refl refl] "1.IH"(3) [OF d refl refl refl] by (cases "t = 0") auto
        then show ?thesis
          using False d d2 dr inbound_drain_skip [of buf t v n tx c] inbound_drain_skip [of "buf @ b" t v n tx c]
          by auto
      qed
    qed
  qed
qed

text \<open>
  What the inbound pump delivers, drops and keeps does not depend on how the bytes of the h2
  stream are cut into chunks.
\<close>

theorem inbound_chunking:
  "fold inbound_chunk chunks (inbound_chunk [] s) = inbound_chunk (concat chunks) s"
proof (cases "in_buf s")
  case None
  then have "inbound_chunk x s = s" for x by (simp add: inbound_chunk_def)
  then have "fold inbound_chunk chunks s = s" by (induction chunks) auto
  with \<open>\<And>x. inbound_chunk x s = s\<close> show ?thesis by simp
next
  case (Some buf)
  have "fold inbound_chunk chunks (inbound_drain b tx c) = inbound_drain (b @ concat chunks) tx c" for b tx c
    by (induction chunks arbitrary: b) (simp_all add: inbound_chunk_drain)
  with Some show ?thesis by (simp add: inbound_chunk_def)
qed

lemma udp_encode_eq: "udp_encode p = Ok (0 # p)"
  by (simp add: udp_encode_def CONTEXT_ID_RAW_UDP_def varint_encode_0)

lemma udp_decode_eq: "udp_decode (0 # p) = Some p"
  by (simp add: udp_decode_def CONTEXT_ID_RAW_UDP_def varint_decode_0)

lemma outbound_frame_decode:
  assumes "length p < MAX_CAPSULE_VALUE_LEN"
  shows "\<exists>bs. outbound_frame p = Ok bs
     \<and> (\<forall>rest. capsule_decode (bs @ rest) = Ok (Some (0, 0 # p, length bs)))"
proof -
  have le: "length (0 # p) \<le> MAX_CAPSULE_VALUE_LEN" using assms by simp
  then obtain bs where "encode_datagram (0 # p) = Ok bs" using encode_datagram_Ok by blast
  with capsule_decode_encode [OF le this] show ?thesis by (simp add: outbound_frame_def udp_encode_eq)
qed

lemma outbound_pump_wire: "outbound_pump ps w = w @ outbound_pump ps []"
proof (induction ps arbitrary: w)
  case (Cons p ps)
  show ?case
  proof (cases "outbound_frame p")
    case (Inl e)
    then show ?thesis using Cons [of w] by simp
  next
    case (Inr f)
    then show ?thesis using Cons [of "w @ f"] Cons [of f] by simp
  qed
qed simp

lemma dc_inbound_note_drop [simp]: "dc_inbound (note_drop Inbound c) = Suc (dc_inbound c)"
  by (simp add: note_drop_def Let_def)

lemma inbound_drain_pumped:
  assumes "list_all (\<lambda>p. length p < MAX_CAPSULE_VALUE_LEN) ps" and "ch_rx_open tx"
    and "length (ch_items tx) \<le> PUMP_CAPACITY"
  shows "let r = inbound_drain (outbound_pump ps []) tx c;
             room = PUMP_CAPACITY - length (ch_items tx) in
         in_buf r = Some [] \<and> ch_items (in_tx r) = ch_items tx @ take room ps
         \<and> dc_inbound (in_drops r) = dc_inbound c + (length ps - room)"
  using assms
proof (induction ps arbitrary: tx c)
  case Nil
  then show ?case by (simp add: inbound_drain.simps [of "[]"] capsule_decode_def varint_decode_def)
next
  case (Cons p ps)
  then have "length p < MAX_CAPSULE_VALUE_LEN" by simp
  then obtain bs where bs: "outbound_frame p = Ok bs"
    and d: "\<And>rest. capsule_decode (bs @ rest) = Ok (Some (0, 0 # p, length bs))"
    using outbound_frame_decode by blast
  have w: "outbound_pump (p # ps) [] = bs @ outbound_pump ps []"
    using bs outbound_pump_wire [of ps bs] by simp
  show ?case
  proof (cases "length (ch_items tx) < PUMP_CAPACITY")
    case True
    define tx2 where "tx2 = tx\<lparr>ch_items := ch_items tx @ [p]\<rparr>"
    have step: "inbound_drain (outbound_pump (p # ps) []) tx c = inbound_drain (outbound_pump ps []) tx2 c"
      using True Cons.prems(2) inbound_drain_offer [OF d udp_decode_eq, of "outbound_pump ps []" tx c]
      unfolding w by (simp add: offer_def tx2_def)
    have room: "PUMP_CAPACITY - length (ch_items tx) = Suc (PUMP_CAPACITY - length (ch_items tx2))"
      using True by (simp add: tx2_def)
    then have "ch_items tx2 @ take (PUMP_CAPACITY - length (ch_items tx2)) ps
        = ch_items tx @ take (PUMP_CAPACITY - length (ch_items tx)) (p # ps)"
      by (simp add: tx2_def)
    moreover have "list_all (\<lambda>p. length p < MAX_CAPSULE_VALUE_LEN) ps" "ch_rx_open tx2"
      "length (ch_items tx2) \<le> PUMP_CAPACITY" using Cons.prems True by (simp_all add: tx2_def)
    ultimately show ?thesis
      using Cons.IH [of tx2 c] room unfolding step Let_def by simp
  next
    case False
    have step: "inbound_drain (outbound_pump (p # ps) []) tx c
        = inbound_drain (outbound_pump ps []) tx (note_drop Inbound c)"
      using False Cons.prems(2) inbound_drain_offer [OF d udp_decode_eq, of "outbound_pump ps []" tx c]
      unfolding w by (simp add: offer_def)
    with Cons.IH [of tx "note_drop Inbound c"] Cons.prems False show ?thesis by (simp add: Let_def)
  qed
qed

text \<open>
  End to end. Datagrams that fit a capsule, framed by the outbound pump and cut into arbitrary
  chunks on the way, reach the inbound queue in order; once the queue is full the rest are
  counted as dropped, and nothing is left in the buffer.
\<close>

theorem masque_delivery:
  assumes "list_all (\<lambda>p. length p < MAX_CAPSULE_VALUE_LEN) ps"
    and "concat chunks = outbound_pump ps []"
    and "in_buf s = Some []" and "ch_rx_open (in_tx s)"
    and "length (ch_items (in_tx s)) \<le> PUMP_CAPACITY"
  shows "let r = fold inbound_chunk chunks s; room = PUMP_CAPACITY - length (ch_items (in_tx s)) in
     in_buf r = Some [] \<and> ch_items (in_tx r) = ch_items (in_tx s) @ take room ps
     \<and> dc_inbound (in_drops r) = dc_inbound (in_drops s) + (length ps - room)"
proof -
  have "inbound_chunk [] s = s"
    using assms(3)
    by (cases s) (simp add: inbound_chunk_def inbound_drain.simps [of "[]"] capsule_decode_def varint_decode_def)
  moreover have "fold inbound_chunk chunks (inbound_chunk [] s) = inbound_chunk (concat chunks) s"
  proof -
    have "fold inbound_chunk chunks (inbound_drain b tx c) = inbound_drain (b @ concat chunks) tx c" for b tx c
      by (induction chunks arbitrary: b) (simp_all add: inbound_chunk_drain)
    with assms(3) show ?thesis by (simp add: inbound_chunk_def)
  qed
  ultimately have "fold inbound_chunk chunks s = inbound_drain (outbound_pump ps []) (in_tx s) (in_drops s)"
    using assms(2,3) by (simp add: inbound_chunk_def)
  then show ?thesis using inbound_drain_pumped [OF assms(1,4,5), of "in_drops s"] by simp
qed

definition idle_inbound :: inbound where
  "idle_inbound = \<lparr>in_buf = Some [], in_tx = \<lparr>ch_items = [], ch_rx_open = True, ch_tx_open = True\<rparr>,
     in_drops = \<lparr>dc_outbound = 0, dc_inbound = 0, dc_outbound_total = 0, dc_inbound_total = 0, dc_log = []\<rparr>\<rparr>"

theorem masque_delivery_witness:
  "ch_items (in_tx (fold inbound_chunk [[0], [3, 0, 7], [8, 0, 1, 0]] idle_inbound)) = [[7, 8], []]"
proof -
  have "list_all (\<lambda>p. length p < MAX_CAPSULE_VALUE_LEN) [[7, 8], [] :: bytes]"
    by (simp add: MAX_CAPSULE_VALUE_LEN_def)
  moreover have "concat [[0], [3, 0, 7], [8, 0, 1, 0]] = outbound_pump [[7, 8], []] []"
    by (simp add: outbound_frame_def udp_encode_eq encode_datagram_eq varint_encode_def)
  ultimately show ?thesis
    using masque_delivery [of "[[7, 8], []]" "[[0], [3, 0, 7], [8, 0, 1, 0]]" idle_inbound]
    by (simp add: idle_inbound_def PUMP_CAPACITY_def Let_def)
qed

end
