(* ===== verification/ForwardWire.thy ===== *)
theory ForwardWire
  imports Stream_Codec
begin

text \<open>
  The frames of the channel forward (\<^verbatim>\<open>channel_run/forward_wire.rs\<close>): \<^verbatim>\<open>Frame::encode\<close> and
  \<^verbatim>\<open>Frame::read\<close>. The reader takes the bytes that arrive on the session until it ends, so an
  \<^verbatim>\<open>UnexpectedEof\<close> is the end of the list, and returns the frame with the bytes behind it.
\<close>

definition TAG_OPEN :: byte where "TAG_OPEN = 1"
definition TAG_DATA :: byte where "TAG_DATA = 2"
definition TAG_CLOSE :: byte where "TAG_CLOSE = 3"

definition MAX_TARGET_WIRE_LEN :: nat where "MAX_TARGET_WIRE_LEN = 2048"
definition MAX_DATA_FRAME_LEN :: nat where "MAX_DATA_FRAME_LEN = 1048576"
definition CLOSE_REASON_ABORT :: string where "CLOSE_REASON_ABORT = ''abort''"

lemmas wire_consts = TAG_OPEN_def TAG_DATA_def TAG_CLOSE_def MAX_TARGET_WIRE_LEN_def
  MAX_DATA_FRAME_LEN_def

datatype frame =
    Open u32 string
  | Data u32 bytes
  | Close u32 "string option"

datatype io_kind = UnexpectedEof | InvalidData

record io_error =
  io_kind :: io_kind
  io_msg :: string

fun encode :: "frame \<Rightarrow> bytes" where
  "encode (Open sid target) =
     [TAG_OPEN] @ u32_be sid @ to_be 2 (length target) @ str_bytes target"
| "encode (Data sid payload) =
     [TAG_DATA] @ u32_be sid @ to_be 4 (length payload) @ payload"
| "encode (Close sid reason) =
     (let r = (case reason of None \<Rightarrow> [] | Some r \<Rightarrow> r)
      in [TAG_CLOSE] @ u32_be sid @ [if reason = None then 0 else 1] @ to_be 2 (length r) @ str_bytes r)"

text \<open>\<^verbatim>\<open>read_exact\<close>.\<close>

definition read_exact :: "nat \<Rightarrow> bytes \<Rightarrow> io_error + bytes \<times> bytes" where
  "read_exact n bs =
     (if length bs < n then Err \<lparr>io_kind = UnexpectedEof, io_msg = ''early eof''\<rparr>
      else Ok (take n bs, drop n bs))"

definition read_string :: "nat \<Rightarrow> bytes \<Rightarrow> io_error + string \<times> bytes" where
  "read_string max_len bs =
     (case read_exact 2 bs of Err e \<Rightarrow> Err e
      | Ok (lb, r1) \<Rightarrow>
          (let len = from_be lb
           in if max_len < len
              then Err \<lparr>io_kind = InvalidData,
                        io_msg = ''forward frame string of '' @ show_nat len @ '' bytes exceeds the ''
                                 @ show_nat max_len @ ''-byte cap''\<rparr>
              else (case read_exact len r1 of Err e \<Rightarrow> Err e
                | Ok (buf, r2) \<Rightarrow>
                    (case from_utf8 buf of
                       None \<Rightarrow> Err \<lparr>io_kind = InvalidData, io_msg = ''forward frame string is not utf8''\<rparr>
                     | Some s \<Rightarrow> Ok (s, r2)))))"

definition with_id :: "u32 \<Rightarrow> io_error \<Rightarrow> io_error" where
  "with_id sid e = e\<lparr>io_msg := ''stream '' @ show_nat (unat sid) @ '': '' @ io_msg e\<rparr>"

definition map_err :: "('e \<Rightarrow> 'f) \<Rightarrow> 'e + 'a \<Rightarrow> 'f + 'a" where
  "map_err f r = (case r of Err e \<Rightarrow> Err (f e) | Ok a \<Rightarrow> Ok a)"

definition read_open :: "u32 \<Rightarrow> bytes \<Rightarrow> io_error + frame \<times> bytes" where
  "read_open sid bs =
     (case map_err (with_id sid) (read_string MAX_TARGET_WIRE_LEN bs) of Err e \<Rightarrow> Err e
      | Ok (target, r) \<Rightarrow> Ok (Open sid target, r))"

definition read_data :: "u32 \<Rightarrow> bytes \<Rightarrow> io_error + frame \<times> bytes" where
  "read_data sid bs =
     (case map_err (with_id sid) (read_exact 4 bs) of Err e \<Rightarrow> Err e
      | Ok (lb, r1) \<Rightarrow>
          (let len = from_be lb
           in if MAX_DATA_FRAME_LEN < len
              then Err (with_id sid \<lparr>io_kind = InvalidData,
                         io_msg = ''forward Data frame of '' @ show_nat len @ '' bytes exceeds the ''
                                  @ show_nat MAX_DATA_FRAME_LEN @ ''-byte cap''\<rparr>)
              else (case map_err (with_id sid) (read_exact len r1) of Err e \<Rightarrow> Err e
                | Ok (payload, r2) \<Rightarrow> Ok (Data sid payload, r2))))"

definition read_close :: "u32 \<Rightarrow> bytes \<Rightarrow> io_error + frame \<times> bytes" where
  "read_close sid bs =
     (case map_err (with_id sid) (read_exact 1 bs) of Err e \<Rightarrow> Err e
      | Ok (has_reason, r1) \<Rightarrow>
          (case map_err (with_id sid) (read_string MAX_TARGET_WIRE_LEN r1) of Err e \<Rightarrow> Err e
           | Ok (text, r2) \<Rightarrow> Ok (Close sid (if hd has_reason \<noteq> 0 then Some text else None), r2)))"

definition read_frame :: "bytes \<Rightarrow> io_error + frame \<times> bytes" where
  "read_frame bs =
     (case read_exact 1 bs of Err e \<Rightarrow> Err e
      | Ok (tag, r1) \<Rightarrow> (case read_exact 4 r1 of Err e \<Rightarrow> Err e
        | Ok (idb, r2) \<Rightarrow>
            (let sid = u32_of_be idb
             in if hd tag = TAG_OPEN then read_open sid r2
                else if hd tag = TAG_DATA then read_data sid r2
                else if hd tag = TAG_CLOSE then read_close sid r2
                else Err (with_id sid \<lparr>io_kind = InvalidData,
                            io_msg = ''unknown forward frame tag '' @ show_nat (unat (hd tag))\<rparr>))))"

section \<open>The caps\<close>

text \<open>The frames within the caps of the reader: every frame an agent builds is one.\<close>

fun frame_valid :: "frame \<Rightarrow> bool" where
  "frame_valid (Open sid target) = (length target \<le> MAX_TARGET_WIRE_LEN \<and> utf8_valid target)"
| "frame_valid (Data sid payload) = (length payload \<le> MAX_DATA_FRAME_LEN)"
| "frame_valid (Close sid reason) =
     (case reason of None \<Rightarrow> True | Some r \<Rightarrow> length r \<le> MAX_TARGET_WIRE_LEN \<and> utf8_valid r)"

lemma read_exact_append [wire_simps]: "length a = n \<Longrightarrow> read_exact n (a @ b) = Ok (a, b)"
  by (auto simp: read_exact_def)

lemma read_exact_OkD: "read_exact n bs = Ok (a, b) \<Longrightarrow> bs = a @ b \<and> length a = n"
  by (auto simp: read_exact_def split: if_splits)

lemma read_exact_ErrD: "read_exact n bs = Err e \<Longrightarrow> io_kind e = UnexpectedEof \<and> length bs < n"
  by (auto simp: read_exact_def split: if_splits)

lemma read_string_enc [wire_simps]:
  assumes "length s \<le> max_len" "max_len < 65536" "utf8_valid s"
  shows "read_string max_len (to_be 2 (length s) @ str_bytes s @ rest) = Ok (s, rest)"
proof -
  have "from_be (to_be 2 (length s)) = length s" using assms by (simp add: wire_simps)
  then show ?thesis using assms by (simp add: read_string_def read_exact_append Let_def del: to_be.simps)
qed

lemma map_err_simps [simp]: "map_err f (Ok a) = Ok a" "map_err f (Err e) = Err (f e)"
  by (simp_all add: map_err_def)

lemma read_frame_tagged:
  "read_frame (t # u32_be sid @ r) =
     (if t = TAG_OPEN then read_open sid r
      else if t = TAG_DATA then read_data sid r
      else if t = TAG_CLOSE then read_close sid r
      else Err (with_id sid \<lparr>io_kind = InvalidData, io_msg = ''unknown forward frame tag '' @ show_nat (unat t)\<rparr>))"
  by (simp add: read_frame_def read_exact_def Let_def)

lemma read_encode:
  assumes "frame_valid f"
  shows "read_frame (encode f @ rest) = Ok (f, rest)"
proof (cases f)
  case (Open sid target)
  then show ?thesis using assms
    by (simp add: read_frame_tagged read_open_def wire_simps wire_consts del: to_be.simps)
next
  case (Data sid payload)
  moreover from this assms have "from_be (to_be 4 (length payload)) = length payload"
    by (simp add: wire_simps wire_consts)
  ultimately show ?thesis using assms
    by (simp add: read_frame_tagged read_data_def read_exact_append Let_def TAG_OPEN_def TAG_DATA_def del: to_be.simps)
next
  case (Close sid reason)
  have one: "read_exact 1 (b # bs) = Ok ([b], bs)" for b bs by (simp add: read_exact_def)
  show ?thesis using assms Close
    by (cases reason)
      (simp_all add: read_frame_tagged read_close_def one [unfolded One_nat_def] one Let_def wire_consts
        read_string_enc [of "[]", simplified] read_string_enc utf8_valid_ascii del: to_be.simps)
qed

section \<open>What a successful read tells\<close>

lemma read_string_OkD:
  assumes "read_string m bs = Ok (s, rest)"
  shows "length s \<le> m \<and> utf8_valid s \<and> bs = to_be 2 (length s) @ str_bytes s @ rest"
proof -
  from assms obtain lb r1 buf where lb: "read_exact 2 bs = Ok (lb, r1)" "from_be lb \<le> m"
    and buf: "read_exact (from_be lb) r1 = Ok (buf, rest)" and s: "utf8_valid (bytes_str buf)" "s = bytes_str buf"
    by (auto simp: read_string_def from_utf8_def Let_def split: sum.splits if_splits)
  from read_exact_OkD [OF lb(1)] read_exact_OkD [OF buf] to_be_from_be [of lb]
  show ?thesis using s lb(2) by auto
qed

text \<open>The spellings of a \<open>Close\<close> that the encoder does not use but the reader takes.\<close>

definition odd_close :: "frame \<Rightarrow> bytes \<Rightarrow> bool" where
  "odd_close f bs = (\<exists>sid reason flag why rest. f = Close sid reason
     \<and> bs = [TAG_CLOSE] @ u32_be sid @ [flag] @ to_be 2 (length why) @ str_bytes why @ rest
     \<and> length why \<le> MAX_TARGET_WIRE_LEN \<and> (flag = 0 \<and> why \<noteq> [] \<or> flag \<notin> {0, 1}))"

lemma u32_be_of_be: "length b = 4 \<Longrightarrow> u32_be (u32_of_be b) = b"
proof -
  assume l: "length b = 4"
  then have "unat (word_of_nat (from_be b) :: u32) = from_be b"
    using from_be_bound [of b] by (simp add: unat_of_nat)
  then show ?thesis using to_be_from_be [of b] l by (simp add: u32_be_def u32_of_be_def)
qed

lemma read_frame_head:
  assumes "read_frame bs = Ok (f, rest)"
  obtains t sid r where "bs = t # u32_be sid @ r" "read_frame (t # u32_be sid @ r) = Ok (f, rest)"
proof -
  from assms obtain tag r1 idb r2 where "read_exact 1 bs = Ok (tag, r1)" "read_exact 4 r1 = Ok (idb, r2)"
    by (auto simp: read_frame_def split: sum.splits)
  then have "bs = tag @ idb @ r2" "length tag = 1" "length idb = 4" by (auto dest: read_exact_OkD)
  moreover from this obtain t where "tag = [t]" by (cases tag) auto
  ultimately have "bs = t # u32_be (u32_of_be idb) @ r2" by (simp add: u32_be_of_be)
  then show ?thesis using assms that by metis
qed

lemma read_data_OkD:
  assumes "read_data sid bs = Ok (f, rest)"
  shows "\<exists>p. f = Data sid p \<and> length p \<le> MAX_DATA_FRAME_LEN \<and> bs = to_be 4 (length p) @ p @ rest"
proof -
  from assms obtain lb r1 p where "read_exact 4 bs = Ok (lb, r1)" "from_be lb \<le> MAX_DATA_FRAME_LEN"
    "read_exact (from_be lb) r1 = Ok (p, rest)" "f = Data sid p"
    by (auto simp: read_data_def map_err_def Let_def split: sum.splits if_splits)
  then show ?thesis using to_be_from_be [of lb] by (auto dest!: read_exact_OkD)
qed

lemma read_open_OkD:
  assumes "read_open sid bs = Ok (f, rest)"
  shows "\<exists>t. f = Open sid t \<and> length t \<le> MAX_TARGET_WIRE_LEN \<and> utf8_valid t
           \<and> bs = to_be 2 (length t) @ str_bytes t @ rest"
  using assms by (auto simp: read_open_def map_err_def split: sum.splits dest!: read_string_OkD)

lemma read_close_OkD:
  assumes "read_close sid bs = Ok (f, rest)"
  shows "\<exists>flag t. f = Close sid (if flag \<noteq> 0 then Some t else None) \<and> length t \<le> MAX_TARGET_WIRE_LEN
           \<and> utf8_valid t \<and> bs = [flag] @ to_be 2 (length t) @ str_bytes t @ rest"
proof -
  from assms obtain fl r1 t where "read_exact 1 bs = Ok (fl, r1)"
    "read_string MAX_TARGET_WIRE_LEN r1 = Ok (t, rest)" "f = Close sid (if hd fl \<noteq> 0 then Some t else None)"
    by (auto simp: read_close_def map_err_def split: sum.splits)
  moreover from this(1) obtain flag where "fl = [flag]" "bs = flag # r1"
    using read_exact_OkD by (metis append_Cons append_Nil length_0_conv length_Suc_conv One_nat_def)
  ultimately show ?thesis by (auto dest!: read_string_OkD)
qed

lemma read_frame_sound:
  assumes "read_frame bs = Ok (f, rest)"
  shows "frame_valid f \<and> (bs = encode f @ rest \<or> odd_close f bs)
           \<and> length bs \<le> length rest + 9 + MAX_DATA_FRAME_LEN \<and> length rest + 5 < length bs"
proof -
  from read_frame_head [OF assms] obtain t sid r where bs: "bs = t # u32_be sid @ r"
    and rd: "read_frame (t # u32_be sid @ r) = Ok (f, rest)" .
  consider (op) "t = TAG_OPEN" "read_open sid r = Ok (f, rest)"
    | (data) "t = TAG_DATA" "read_data sid r = Ok (f, rest)"
    | (close) "t = TAG_CLOSE" "read_close sid r = Ok (f, rest)"
    using rd by (auto simp: read_frame_tagged split: if_splits)
  then show ?thesis
  proof cases
    case op
    then show ?thesis using read_open_OkD [OF op(2)] bs by (auto simp: wire_consts)
  next
    case data
    then show ?thesis using read_data_OkD [OF data(2)] bs by (auto simp: wire_consts)
  next
    case close
    from read_close_OkD [OF close(2)] obtain flag why where
      c: "f = Close sid (if flag \<noteq> 0 then Some why else None)" "length why \<le> MAX_TARGET_WIRE_LEN"
        "utf8_valid why" "r = [flag] @ to_be 2 (length why) @ str_bytes why @ rest" by blast
    have "bs = encode f @ rest \<or> odd_close f bs"
    proof (cases "flag = 0 \<and> why \<noteq> [] \<or> flag \<notin> {0, 1}")
      case True
      then have "odd_close f bs" unfolding odd_close_def using c bs close(1) by (metis append_Cons append_Nil)
      then show ?thesis ..
    next
      case False
      then show ?thesis using c bs close(1) by (auto simp: Let_def str_bytes_def)
    qed
    then show ?thesis using c bs by (auto simp: wire_consts)
  qed
qed

interpretation fw: stream_codec frame_valid encode "\<lambda>bs. case read_frame bs of Ok x \<Rightarrow> Some x | Err e \<Rightarrow> None"
proof
  fix bs f rest
  assume "(case read_frame bs of Ok x \<Rightarrow> Some x | Err e \<Rightarrow> None) = Some (f, rest)"
  then show "length rest < length bs"
    using read_frame_sound [of bs f rest] by (auto split: sum.splits)
qed (simp_all add: read_encode, simp add: read_frame_def read_exact_def)

section \<open>Truncation\<close>

text \<open>
  A reader is steady when more input does not change a result other than \<open>UnexpectedEof\<close>: what was
  read stays read, and a malformed frame stays malformed with the same message.
\<close>

definition steady :: "(bytes \<Rightarrow> io_error + 'a \<times> bytes) \<Rightarrow> bool" where
  "steady R = (\<forall>bs q. (case R bs of Ok (a, r) \<Rightarrow> R (bs @ q) = Ok (a, r @ q)
     | Err e \<Rightarrow> io_kind e = InvalidData \<longrightarrow> R (bs @ q) = Err e))"

definition read_then :: "(bytes \<Rightarrow> io_error + 'a \<times> bytes) \<Rightarrow> ('a \<Rightarrow> bytes \<Rightarrow> io_error + 'b \<times> bytes)
    \<Rightarrow> bytes \<Rightarrow> io_error + 'b \<times> bytes" where
  "read_then R K bs = (case R bs of Err e \<Rightarrow> Err e | Ok (a, r) \<Rightarrow> K a r)"

lemma steady_read_exact: "steady (read_exact n)"
  by (auto simp: steady_def read_exact_def)

lemma steady_Ok: "steady (\<lambda>bs. Ok (a, bs))" and steady_Err: "steady (\<lambda>bs. Err e)"
  by (simp_all add: steady_def)

lemma steady_with_id: "steady R \<Longrightarrow> steady (\<lambda>bs. map_err (with_id sid) (R bs))"
  by (fastforce simp: steady_def map_err_def with_id_def split: sum.splits)

lemma steady_read_then:
  assumes "steady R" "\<And>a. steady (K a)"
  shows "steady (read_then R K)"
  unfolding steady_def read_then_def
proof (intro allI)
  fix bs q
  show "case case R bs of Err e \<Rightarrow> Err e | Ok (a, r) \<Rightarrow> K a r of
      Err e \<Rightarrow> io_kind e = InvalidData \<longrightarrow> (case R (bs @ q) of Err e \<Rightarrow> Err e | Ok (a, r) \<Rightarrow> K a r) = Err e
    | Ok (a, r) \<Rightarrow> (case R (bs @ q) of Err e \<Rightarrow> Err e | Ok (a, r) \<Rightarrow> K a r) = Ok (a, r @ q)"
  proof (cases "R bs")
    case (Inl e)
    then show ?thesis using assms(1) by (auto simp: steady_def split: sum.splits dest: spec [of _ bs])
  next
    case (Inr x)
    obtain a r where x: "x = (a, r)" by fastforce
    with Inr assms(1) have "R (bs @ q) = Ok (a, r @ q)" unfolding steady_def
      by (metis (mono_tags, lifting) old.prod.case sum.case(2))
    then show ?thesis using Inr x assms(2) [of a] by (auto simp: steady_def split: sum.splits)
  qed
qed

lemma steady_if: "steady F \<Longrightarrow> steady G \<Longrightarrow> steady (\<lambda>bs. if c then F bs else G bs)"
  by (cases c) simp_all

lemma steady_case_option:
  "steady F \<Longrightarrow> (\<And>s. steady (G s)) \<Longrightarrow> steady (\<lambda>bs. case x of None \<Rightarrow> F bs | Some s \<Rightarrow> G s bs)"
  by (cases x) simp_all

lemmas steady_intros = steady_read_exact steady_Ok steady_Err steady_with_id steady_if
  steady_case_option steady_read_then

lemma steady_read_string: "steady (read_string m)"
proof -
  have eq: "read_string m = read_then (read_exact 2) (\<lambda>lb bs.
      if m < from_be lb
      then Err \<lparr>io_kind = InvalidData, io_msg = ''forward frame string of '' @ show_nat (from_be lb)
                @ '' bytes exceeds the '' @ show_nat m @ ''-byte cap''\<rparr>
      else read_then (read_exact (from_be lb)) (\<lambda>buf bs.
        case from_utf8 buf of
          None \<Rightarrow> Err \<lparr>io_kind = InvalidData, io_msg = ''forward frame string is not utf8''\<rparr>
        | Some s \<Rightarrow> Ok (s, bs)) bs)"
    unfolding read_string_def read_then_def Let_def ..
  show ?thesis unfolding eq by (intro steady_intros)
qed

lemma steady_read_open: "steady (read_open sid)"
proof -
  have eq: "read_open sid = read_then (\<lambda>bs. map_err (with_id sid) (read_string MAX_TARGET_WIRE_LEN bs))
      (\<lambda>t bs. Ok (Open sid t, bs))"
    unfolding read_open_def read_then_def Let_def ..
  show ?thesis unfolding eq by (intro steady_intros steady_read_string)
qed

lemma steady_read_data: "steady (read_data sid)"
proof -
  have eq: "read_data sid = read_then (\<lambda>bs. map_err (with_id sid) (read_exact 4 bs)) (\<lambda>lb bs.
      if MAX_DATA_FRAME_LEN < from_be lb
      then Err (with_id sid \<lparr>io_kind = InvalidData,
                 io_msg = ''forward Data frame of '' @ show_nat (from_be lb) @ '' bytes exceeds the ''
                          @ show_nat MAX_DATA_FRAME_LEN @ ''-byte cap''\<rparr>)
      else read_then (\<lambda>bs. map_err (with_id sid) (read_exact (from_be lb) bs)) (\<lambda>p bs. Ok (Data sid p, bs)) bs)"
    unfolding read_data_def read_then_def Let_def ..
  show ?thesis unfolding eq by (intro steady_intros)
qed

lemma steady_read_close: "steady (read_close sid)"
proof -
  have eq: "read_close sid = read_then (\<lambda>bs. map_err (with_id sid) (read_exact 1 bs)) (\<lambda>fl.
      read_then (\<lambda>bs. map_err (with_id sid) (read_string MAX_TARGET_WIRE_LEN bs))
        (\<lambda>t bs. Ok (Close sid (if hd fl \<noteq> 0 then Some t else None), bs)))"
    unfolding read_close_def read_then_def ..
  show ?thesis unfolding eq by (intro steady_intros steady_read_string)
qed

lemma steady_read_frame: "steady read_frame"
proof -
  have eq: "read_frame = read_then (read_exact 1) (\<lambda>tag. read_then (read_exact 4) (\<lambda>idb bs.
      if hd tag = TAG_OPEN then read_open (u32_of_be idb) bs
      else if hd tag = TAG_DATA then read_data (u32_of_be idb) bs
      else if hd tag = TAG_CLOSE then read_close (u32_of_be idb) bs
      else Err (with_id (u32_of_be idb) \<lparr>io_kind = InvalidData,
                  io_msg = ''unknown forward frame tag '' @ show_nat (unat (hd tag))\<rparr>)))"
    unfolding read_frame_def read_then_def Let_def ..
  show ?thesis unfolding eq by (intro steady_intros steady_read_open steady_read_data steady_read_close)
qed

section \<open>Properties\<close>

text \<open>
  C8: A session carries the frames the peer sent: the bytes of any sequence of frames within the
  caps are read back as exactly that sequence, with nothing left over.
\<close>

theorem frames_roundtrip:
  assumes "list_all frame_valid fs"
  shows "decode_all (\<lambda>bs. case read_frame bs of Ok x \<Rightarrow> Some x | Err e \<Rightarrow> None) (concat (map encode fs)) = (fs, [])"
  using assms by (rule fw.decode_all_enc)

theorem frames_roundtrip_witness:
  "decode_all (\<lambda>bs. case read_frame bs of Ok x \<Rightarrow> Some x | Err e \<Rightarrow> None)
     (concat (map encode [Open 1 ''localhost:22'', Data 1 [7, 8], Close 1 (Some ''abort''), Close 2 None]))
   = ([Open 1 ''localhost:22'', Data 1 [7, 8], Close 1 (Some ''abort''), Close 2 None], [])"
  by (rule frames_roundtrip) (simp add: wire_consts)

text \<open>
  Whatever bytes a peer sends, a frame that is read obeys the caps on the target, the reason and
  the payload, its strings are UTF-8, it used more than five bytes and at most nine bytes more than
  the payload cap, and the bytes it was read from are its encoding, but for a \<open>Close\<close> whose flag byte
  is neither 0 nor 1 or which has no reason and carries a text all the same.
\<close>

theorem frame_read_bounded:
  assumes "read_frame bs = Ok (f, rest)"
  shows "frame_valid f \<and> (bs = encode f @ rest \<or> odd_close f bs)
           \<and> length rest + 5 < length bs \<and> length bs \<le> length rest + 9 + MAX_DATA_FRAME_LEN"
  using read_frame_sound [OF assms] by simp

theorem frame_read_bounded_witness:
  "read_frame (encode (Data 5 [1, 2]) @ [9]) = Ok (Data 5 [1, 2], [9]) \<and> frame_valid (Data 5 [1, 2])"
proof -
  have "read_frame (encode (Data 5 [1, 2]) @ [9]) = Ok (Data 5 [1, 2], [9])"
    by (rule read_encode) (simp add: wire_consts)
  with frame_read_bounded [OF this] show ?thesis by simp
qed

text \<open>
  A frame that is cut off is never mistaken for another frame nor for a malformed one: reading
  any proper prefix of the encoding of a frame within the caps is an \<open>UnexpectedEof\<close>, which the
  engines treat as the end of the session.
\<close>

theorem frame_truncated_is_eof:
  assumes "frame_valid f" "encode f = p @ q" "q \<noteq> []"
  shows "\<exists>e. read_frame p = Err e \<and> io_kind e = UnexpectedEof"
proof -
  have full: "read_frame (p @ q) = Ok (f, [])" using read_encode [OF assms(1), of "[]"] assms(2) by simp
  have st: "case read_frame p of Ok (a, r) \<Rightarrow> read_frame (p @ q) = Ok (a, r @ q)
     | Err e \<Rightarrow> io_kind e = InvalidData \<longrightarrow> read_frame (p @ q) = Err e"
    using steady_read_frame by (simp add: steady_def)
  show ?thesis
  proof (cases "read_frame p")
    case (Inl e)
    then have "io_kind e \<noteq> InvalidData" using st full by auto
    then have "io_kind e = UnexpectedEof" by (cases "io_kind e") auto
    with Inl show ?thesis by blast
  next
    case (Inr x)
    then show ?thesis using st full assms(3) by auto
  qed
qed

theorem frame_truncated_is_eof_witness:
  "\<exists>e. read_frame [3, 0, 0] = Err e \<and> io_kind e = UnexpectedEof"
proof -
  have "encode (Close 0 None) = [3, 0, 0] @ [0, 0, 0, 0, 0]"
    by (simp add: TAG_CLOSE_def u32_be_def to_be_0 str_bytes_def del: to_be.simps) (simp add: eval_nat_numeral)
  from frame_truncated_is_eof [OF _ this] show ?thesis by simp
qed

end
