(* ===== verification/Credit_Account.thy ===== *)
theory Credit_Account
  imports Rust_Prelude
begin

text \<open>
  The contract of a sender's window, which both flow controls of the forward rely on: the session
  window (\<^verbatim>\<open>SessionSend\<close>) and the credit of one stream. A sender has spent some of a fixed cap and
  not got it back; the peer repays, at most what is outstanding. The clients are proved once: any
  honest sequence of repayments is taken, and no sequence of repayments gives a peer more than what
  it was owed.
\<close>

primrec repay_all :: "(nat \<Rightarrow> 's \<Rightarrow> 's option) \<Rightarrow> nat list \<Rightarrow> 's \<Rightarrow> 's option" where
  "repay_all repay [] s = Some s"
| "repay_all repay (n # ns) s = (case repay n s of None \<Rightarrow> None | Some s' \<Rightarrow> repay_all repay ns s')"

locale credit_account =
  fixes wf :: "'s \<Rightarrow> bool"
    and outstanding :: "'s \<Rightarrow> nat"
    and cap :: "'s \<Rightarrow> nat"
    and repay :: "nat \<Rightarrow> 's \<Rightarrow> 's option"
  assumes outstanding_le_cap: "wf s \<Longrightarrow> outstanding s \<le> cap s"
    and repay_Some: "wf s \<Longrightarrow> n \<le> outstanding s \<Longrightarrow>
      \<exists>s'. repay n s = Some s' \<and> wf s' \<and> outstanding s' = outstanding s - n \<and> cap s' = cap s"
    and repay_None: "wf s \<Longrightarrow> outstanding s < n \<Longrightarrow> repay n s = None"
begin

lemma repay_iff: "wf s \<Longrightarrow> repay n s \<noteq> None \<longleftrightarrow> n \<le> outstanding s"
  using repay_Some [of s n] repay_None [of s n] by (cases "n \<le> outstanding s") auto

lemma repay_all_honest:
  "wf s \<Longrightarrow> sum_list ns \<le> outstanding s \<Longrightarrow>
   \<exists>s'. repay_all repay ns s = Some s' \<and> wf s' \<and> outstanding s' = outstanding s - sum_list ns \<and> cap s' = cap s"
proof (induction ns arbitrary: s)
  case (Cons n ns)
  then obtain s1 where "repay n s = Some s1" "wf s1" "outstanding s1 = outstanding s - n" "cap s1 = cap s"
    using repay_Some [of s n] by auto
  moreover have "sum_list ns \<le> outstanding s1" using Cons.prems(2) calculation(3) by simp
  moreover obtain s2 where "repay_all repay ns s1 = Some s2" "wf s2"
    "outstanding s2 = outstanding s1 - sum_list ns" "cap s2 = cap s1"
    using Cons.IH [OF calculation(2,5)] by blast
  ultimately show ?case by auto
qed auto

lemma repay_all_sound:
  "wf s \<Longrightarrow> repay_all repay ns s = Some s' \<Longrightarrow>
   wf s' \<and> cap s' = cap s \<and> outstanding s' + sum_list ns = outstanding s"
proof (induction ns arbitrary: s)
  case (Cons n ns)
  then obtain s1 where s1: "repay n s = Some s1" "repay_all repay ns s1 = Some s'"
    by (auto split: option.splits)
  with Cons.prems(1) have "n \<le> outstanding s" using repay_iff [of s n] by simp
  from repay_Some [OF Cons.prems(1) this] s1(1)
  have "wf s1" "outstanding s1 = outstanding s - n" "cap s1 = cap s" by auto
  with Cons.IH [OF _ s1(2)] \<open>n \<le> outstanding s\<close> show ?case by auto
qed simp

lemma repay_all_bound: "wf s \<Longrightarrow> repay_all repay ns s = Some s' \<Longrightarrow> sum_list ns \<le> cap s"
  using repay_all_sound [of s ns s'] outstanding_le_cap [of s] by linarith

end

end
