(* ===== verification/ForwardFlow.thy ===== *)
theory ForwardFlow
  imports ForwardWire Credit_Account
begin

text \<open>
  Flow control of the channel forward (\<^verbatim>\<open>channel_run/forward_stream.rs\<close>, from the control messages
  to \<^verbatim>\<open>SessionSend\<close>): the control frames on stream 0, the receive side and the send side of the
  session window, and the credit of one stream.

  A tokio \<^verbatim>\<open>Semaphore\<close> is its number of permits that no completed \<^verbatim>\<open>acquire_many\<close> holds; an
  acquisition is the moment it completes, which is possible when that many permits are there. The
  counters under the mutex and the permits change together in every operation below, as they do in
  the code. Time is a number of nanoseconds.
\<close>

section \<open>Constants and configuration\<close>

definition DATA_CHUNK_LEN :: nat where "DATA_CHUNK_LEN = 16 * 1024"
definition CHANNEL_CAP :: nat where "CHANNEL_CAP = 64"
definition CONTROL_ID :: u32 where "CONTROL_ID = 0"
definition FC_WINDOW :: nat where "FC_WINDOW = 256 * 1024"
definition CTL_HELLO :: byte where "CTL_HELLO = 1"
definition CTL_WINDOW :: byte where "CTL_WINDOW = 2"
definition CTL_FC_ON :: byte where "CTL_FC_ON = 3"
definition CTL_SWINDOW :: byte where "CTL_SWINDOW = 4"
definition HELLO_V2 :: byte where "HELLO_V2 = 2"
definition SESSION_WINDOW :: nat where "SESSION_WINDOW = 256 * 1024"
definition SESSION_WINDOW_MIN :: nat where "SESSION_WINDOW_MIN = 4 * DATA_CHUNK_LEN"
definition SESSION_WINDOW_MAX :: nat where "SESSION_WINDOW_MAX = 16 * 1024 * 1024"
definition SESSION_ACK_DELAY :: duration where "SESSION_ACK_DELAY = millis 100"
definition SESSION_DEAD_AFTER :: duration where "SESSION_DEAD_AFTER = secs 30"

lemmas flow_consts = DATA_CHUNK_LEN_def CHANNEL_CAP_def CONTROL_ID_def FC_WINDOW_def CTL_HELLO_def
  CTL_WINDOW_def CTL_FC_ON_def CTL_SWINDOW_def HELLO_V2_def SESSION_WINDOW_def SESSION_WINDOW_MIN_def
  SESSION_WINDOW_MAX_def

definition FORWARD_SESSION_WINDOW_ENV :: string where
  "FORWARD_SESSION_WINDOW_ENV = ''CT_CHANNEL_FORWARD_SESSION_WINDOW_KIB''"

text \<open>\<open>raw\<close> is \<^verbatim>\<open>std::env::var(FORWARD_FLOW_ENV).ok()\<close>.\<close>

definition flow_control_from_env :: "string option \<Rightarrow> bool" where
  "flow_control_from_env raw = (raw \<notin> {Some ''off'', Some ''0'', Some ''false''})"

text \<open>
  The error messages carry the value; \<^verbatim>\<open>{raw:?}\<close> is \<open>dbg raw\<close> for the \<^verbatim>\<open>Debug\<close> form of a string.
  \<^verbatim>\<open>usize\<close> has 64 bits.
\<close>

definition session_window_range :: string where
  "session_window_range = show_nat (SESSION_WINDOW_MIN div 1024) @ '' to '' @ show_nat (SESSION_WINDOW_MAX div 1024) @ '' KiB''"

definition session_window_from :: "(string \<Rightarrow> string) \<Rightarrow> string option \<Rightarrow> string + nat" where
  "session_window_from dbg raw =
     (case raw of None \<Rightarrow> Ok SESSION_WINDOW
      | Some r0 \<Rightarrow>
          (let r = trim r0
           in if r = [] then Ok SESSION_WINDOW
              else (case parse_uint (2 ^ 64) r of
                  None \<Rightarrow> Err (FORWARD_SESSION_WINDOW_ENV @ ''='' @ dbg r
                               @ '' is not a whole number of KiB ('' @ session_window_range @ '')'')
                | Some kib \<Rightarrow>
                    if kib * 1024 < 2 ^ 64 \<and> SESSION_WINDOW_MIN \<le> kib * 1024 \<and> kib * 1024 \<le> SESSION_WINDOW_MAX
                    then Ok (kib * 1024)
                    else Err (FORWARD_SESSION_WINDOW_ENV @ ''='' @ show_nat kib @ '' is outside ''
                              @ session_window_range
                              @ '': a peer ends the session below the minimum and uses no more than the maximum''))))"

definition session_window_from_env :: "(string \<Rightarrow> string) \<Rightarrow> string option \<Rightarrow> nat" where
  "session_window_from_env dbg raw =
     (case session_window_from dbg raw of Ok w \<Rightarrow> w | Err _ \<Rightarrow> SESSION_WINDOW)"

section \<open>Control messages\<close>

definition hello_frame :: "u32 \<Rightarrow> frame" where
  "hello_frame window = Data CONTROL_ID ([CTL_HELLO, 67, 70, 67, HELLO_V2] @ u32_be window)"

definition swindow_frame :: "u32 \<Rightarrow> frame" where
  "swindow_frame bs = Data CONTROL_ID ([CTL_SWINDOW] @ u32_be bs)"

definition window_frame :: "u32 \<Rightarrow> u32 \<Rightarrow> frame" where
  "window_frame sid bs = Data CONTROL_ID ([CTL_WINDOW] @ u32_be sid @ u32_be bs)"

definition fc_on_frame :: "u32 \<Rightarrow> frame" where
  "fc_on_frame sid = Data CONTROL_ID ([CTL_FC_ON] @ u32_be sid)"

datatype control =
    Hello "u32 option"
  | Window u32 u32
  | FcOn u32
  | SWindow u32

text \<open>
  The slice patterns of the code in their order; the letters of the HELLO are \<^verbatim>\<open>b'C'\<close> (67) and
  \<^verbatim>\<open>b'F'\<close> (70).
\<close>

definition parse_control :: "bytes \<Rightarrow> control option" where
  "parse_control p =
     (case p of [] \<Rightarrow> None
      | t # rest \<Rightarrow>
          if t = CTL_HELLO \<and> take 3 rest = [67, 70, 67] \<and> 8 \<le> length rest \<and> HELLO_V2 \<le> rest ! 3
          then Some (Hello (Some (u32_of_be (take 4 (drop 4 rest)))))
          else if t = CTL_HELLO \<and> take 3 rest = [67, 70, 67] then Some (Hello None)
          else if t = CTL_WINDOW \<and> 8 \<le> length rest
          then Some (Window (u32_of_be (take 4 rest)) (u32_of_be (take 4 (drop 4 rest))))
          else if t = CTL_FC_ON \<and> 4 \<le> length rest then Some (FcOn (u32_of_be (take 4 rest)))
          else if t = CTL_SWINDOW \<and> 4 \<le> length rest then Some (SWindow (u32_of_be (take 4 rest)))
          else None)"

section \<open>The session window, receive side\<close>

record session_recv =
  sr_on :: bool
  sr_unacked :: nat
  sr_flush_at :: "nat option"
  sr_window :: nat

definition granting :: "nat \<Rightarrow> session_recv" where
  "granting window = \<lparr>sr_on = False, sr_unacked = 0, sr_flush_at = None, sr_window = window\<rparr>"

definition flush :: "session_recv \<Rightarrow> frame option \<times> session_recv" where
  "flush r =
     (let bs = sr_unacked r
      in (if 0 < bs then Some (swindow_frame (word_of_nat bs)) else None,
          r\<lparr>sr_flush_at := None, sr_unacked := 0\<rparr>))"

definition received :: "nat \<Rightarrow> nat \<Rightarrow> session_recv \<Rightarrow> frame option \<times> session_recv" where
  "received now bs r =
     (if \<not> sr_on r \<or> bs = 0 then (None, r)
      else (let r1 = r\<lparr>sr_unacked := sr_unacked r + bs\<rparr>
            in if sr_window r1 div 4 \<le> sr_unacked r1 then flush r1
               else (None, if sr_flush_at r1 = None then r1\<lparr>sr_flush_at := Some (now + SESSION_ACK_DELAY)\<rparr> else r1)))"

section \<open>The session window, send side\<close>

record session_send =
  ss_budget :: nat
  ss_first :: nat
  ss_budget_cap :: nat
  ss_first_cap :: nat
  ss_owed_first :: nat
  ss_owed_budget :: nat
  ss_sending :: nat

text \<open>One chunk between \<^verbatim>\<open>take\<close> and \<^verbatim>\<open>queued\<close> or its drop: the part it was paid from, its bytes.\<close>

record session_sending =
  sg_from_first :: bool
  sg_bytes :: nat

definition from_hello :: "u32 \<Rightarrow> unit + session_send option" where
  "from_hello window32 =
     (let window = min (unat window32) SESSION_WINDOW_MAX
      in if window = 0 then Ok None
         else if window < SESSION_WINDOW_MIN then Err ()
         else (let first_cap = min (window div 4) (4 * DATA_CHUNK_LEN);
                   budget_cap = window - first_cap
               in Ok (Some \<lparr>ss_budget = budget_cap, ss_first = first_cap, ss_budget_cap = budget_cap,
                            ss_first_cap = first_cap, ss_owed_first = 0, ss_owed_budget = 0,
                            ss_sending = 0\<rparr>)))"

text \<open>\<^verbatim>\<open>take\<close> when it is polled: \<open>None\<close> while it has to wait.\<close>

definition take_window :: "bool \<Rightarrow> nat \<Rightarrow> session_send \<Rightarrow> (session_sending \<times> session_send) option" where
  "take_window first_chunk bs s =
     (if first_chunk \<and> bs \<le> ss_first s
      then Some (\<lparr>sg_from_first = True, sg_bytes = bs\<rparr>,
                 s\<lparr>ss_first := ss_first s - bs, ss_owed_first := ss_owed_first s + bs,
                   ss_sending := ss_sending s + bs\<rparr>)
      else if bs \<le> ss_budget s
      then Some (\<lparr>sg_from_first = False, sg_bytes = bs\<rparr>,
                 s\<lparr>ss_budget := ss_budget s - bs, ss_owed_budget := ss_owed_budget s + bs,
                   ss_sending := ss_sending s + bs\<rparr>)
      else None)"

definition sending_queued :: "session_sending \<Rightarrow> session_send \<Rightarrow> session_send" where
  "sending_queued h s = s\<lparr>ss_sending := ss_sending s - sg_bytes h\<rparr>"

definition sending_drop :: "session_sending \<Rightarrow> session_send \<Rightarrow> session_send" where
  "sending_drop h s =
     (if sg_bytes h = 0 then s
      else if sg_from_first h
      then (let own = min (sg_bytes h) (ss_owed_first s);
                other = min (sg_bytes h - own) (ss_owed_budget s)
            in s\<lparr>ss_sending := ss_sending s - sg_bytes h,
                 ss_owed_first := ss_owed_first s - own, ss_owed_budget := ss_owed_budget s - other,
                 ss_first := ss_first s + own, ss_budget := ss_budget s + other\<rparr>)
      else (let own = min (sg_bytes h) (ss_owed_budget s);
                other = min (sg_bytes h - own) (ss_owed_first s)
            in s\<lparr>ss_sending := ss_sending s - sg_bytes h,
                 ss_owed_budget := ss_owed_budget s - own, ss_owed_first := ss_owed_first s - other,
                 ss_first := ss_first s + other, ss_budget := ss_budget s + own\<rparr>))"

definition unacknowledged :: "session_send \<Rightarrow> nat" where
  "unacknowledged s = ss_owed_first s + ss_owed_budget s - ss_sending s"

text \<open>\<open>None\<close> is the \<^verbatim>\<open>false\<close> of the code: more was acknowledged than is unacknowledged.\<close>

definition acknowledge :: "nat \<Rightarrow> session_send \<Rightarrow> session_send option" where
  "acknowledge bs s =
     (if ss_owed_first s + ss_owed_budget s - ss_sending s < bs then None
      else (let pay = min bs (ss_owed_first s)
            in Some (s\<lparr>ss_owed_first := ss_owed_first s - pay,
                       ss_owed_budget := ss_owed_budget s - (bs - pay),
                       ss_first := ss_first s + pay, ss_budget := ss_budget s + (bs - pay)\<rparr>)))"

definition session_is_dead :: "nat \<Rightarrow> session_send option \<Rightarrow> nat option \<Rightarrow> bool \<times> nat option" where
  "session_is_dead now send since =
     (case send of
        Some s \<Rightarrow>
          if 0 < unacknowledged s
          then (let from = (case since of None \<Rightarrow> now | Some t \<Rightarrow> t)
                in (SESSION_DEAD_AFTER \<le> now - from, Some from))
          else (False, None)
      | None \<Rightarrow> (False, None))"

lemmas session_defs = take_window_def sending_queued_def sending_drop_def unacknowledged_def
  acknowledge_def

section \<open>Conservation of the session window\<close>

text \<open>
  Per part of the window: what is free plus what is owed is the part's size; the frames that are
  not in the queue yet are among what is owed.
\<close>

definition session_wf :: "session_send \<Rightarrow> bool" where
  "session_wf s =
     (ss_first s + ss_owed_first s = ss_first_cap s \<and> ss_budget s + ss_owed_budget s = ss_budget_cap s
      \<and> ss_sending s \<le> ss_owed_first s + ss_owed_budget s)"

definition session_cap :: "session_send \<Rightarrow> nat" where
  "session_cap s = ss_first_cap s + ss_budget_cap s"

lemma session_cap_simps [simp]:
  "session_cap (s\<lparr>ss_first := a\<rparr>) = session_cap s" "session_cap (s\<lparr>ss_budget := a\<rparr>) = session_cap s"
  "session_cap (s\<lparr>ss_owed_first := a\<rparr>) = session_cap s" "session_cap (s\<lparr>ss_owed_budget := a\<rparr>) = session_cap s"
  "session_cap (s\<lparr>ss_sending := a\<rparr>) = session_cap s"
  by (simp_all add: session_cap_def)

lemma from_hello_wf:
  assumes "from_hello w = Ok (Some s)"
  shows "session_wf s \<and> unacknowledged s = 0 \<and> ss_sending s = 0
           \<and> session_cap s = min (unat w) SESSION_WINDOW_MAX \<and> SESSION_WINDOW_MIN \<le> session_cap s
           \<and> ss_first_cap s = min (session_cap s div 4) (4 * DATA_CHUNK_LEN)"
proof -
  define v where "v = min (unat w) SESSION_WINDOW_MAX"
  from assms have "v \<noteq> 0" "SESSION_WINDOW_MIN \<le> v" and s: "s = \<lparr>ss_budget = v - min (v div 4) (4 * DATA_CHUNK_LEN),
      ss_first = min (v div 4) (4 * DATA_CHUNK_LEN), ss_budget_cap = v - min (v div 4) (4 * DATA_CHUNK_LEN),
      ss_first_cap = min (v div 4) (4 * DATA_CHUNK_LEN), ss_owed_first = 0, ss_owed_budget = 0, ss_sending = 0\<rparr>"
    unfolding from_hello_def Let_def v_def [symmetric] by (auto split: if_splits)
  moreover have "min (v div 4) (4 * DATA_CHUNK_LEN) \<le> v" by auto
  ultimately show ?thesis
    unfolding v_def [symmetric] by (simp add: session_wf_def session_cap_def unacknowledged_def)
qed

lemma take_window_wf:
  assumes "session_wf s" "take_window fc n s = Some (h, s')"
  shows "session_wf s' \<and> sg_bytes h = n \<and> ss_sending s' = ss_sending s + n
           \<and> unacknowledged s' = unacknowledged s \<and> session_cap s' = session_cap s"
  using assms by (auto simp: take_window_def session_wf_def session_cap_def unacknowledged_def split: if_splits)

lemma sending_queued_wf:
  assumes "session_wf s" "sg_bytes h \<le> ss_sending s"
  shows "session_wf (sending_queued h s) \<and> ss_sending (sending_queued h s) = ss_sending s - sg_bytes h
           \<and> unacknowledged (sending_queued h s) = unacknowledged s + sg_bytes h
           \<and> session_cap (sending_queued h s) = session_cap s"
  using assms by (auto simp: sending_queued_def session_wf_def session_cap_def unacknowledged_def)

lemma sending_drop_wf:
  assumes "session_wf s" "sg_bytes h \<le> ss_sending s"
  shows "session_wf (sending_drop h s) \<and> ss_sending (sending_drop h s) = ss_sending s - sg_bytes h
           \<and> unacknowledged (sending_drop h s) = unacknowledged s
           \<and> session_cap (sending_drop h s) = session_cap s"
  using assms
  by (auto simp: sending_drop_def session_wf_def session_cap_def unacknowledged_def Let_def min_def)

lemma acknowledge_wf:
  assumes "session_wf s" "acknowledge n s = Some s'"
  shows "session_wf s' \<and> unacknowledged s' + n = unacknowledged s \<and> ss_sending s' = ss_sending s
           \<and> session_cap s' = session_cap s"
  using assms
  by (auto simp: acknowledge_def session_wf_def session_cap_def unacknowledged_def Let_def min_def split: if_splits)

lemma acknowledge_iff: "acknowledge n s \<noteq> None \<longleftrightarrow> n \<le> unacknowledged s"
  by (auto simp: acknowledge_def unacknowledged_def Let_def)

lemma unacknowledged_le: "session_wf s \<Longrightarrow> unacknowledged s \<le> session_cap s"
  by (auto simp: session_wf_def session_cap_def unacknowledged_def)

interpretation sw: credit_account session_wf unacknowledged session_cap acknowledge
proof
  fix s n assume s: "session_wf s" "n \<le> unacknowledged s"
  then obtain s' where "acknowledge n s = Some s'" using acknowledge_iff by blast
  with acknowledge_wf [OF s(1) this]
  show "\<exists>s'. acknowledge n s = Some s' \<and> session_wf s' \<and> unacknowledged s' = unacknowledged s - n
      \<and> session_cap s' = session_cap s" by auto
next
  fix s n assume "session_wf s" "unacknowledged s < n"
  then show "acknowledge n s = None" using acknowledge_iff [of n s] by auto
qed (rule unacknowledged_le)

section \<open>The two ends of a session window\<close>

text \<open>
  One direction of a session between two members that keep the protocol: the sender's window, the
  chunks that a pump has taken and not queued, the payload lengths of the \<open>Data\<close> frames on their
  way (the queue, the wire), the receiver's counter, and the acknowledgements on their way back.
  The steps are the operations of the code in any order: a pump takes a chunk, queues it, or is
  dropped while it waits; the receiving engine reads a frame or its delay passes; the sending engine
  reads an acknowledgement.
\<close>

record session_link =
  sl_send :: session_send
  sl_held :: "session_sending list"
  sl_data :: "nat list"
  sl_recv :: session_recv
  sl_acks :: "frame list"

fun opt_list :: "'a option \<Rightarrow> 'a list" where
  "opt_list None = []"
| "opt_list (Some a) = [a]"

inductive link_step :: "session_link \<Rightarrow> session_link \<Rightarrow> bool" where
  link_take: "0 < n \<Longrightarrow> n \<le> DATA_CHUNK_LEN \<Longrightarrow> take_window fc n (sl_send l) = Some (h, s) \<Longrightarrow>
     link_step l (l\<lparr>sl_send := s, sl_held := sl_held l @ [h]\<rparr>)"
| link_queue: "sl_held l = a @ h # b \<Longrightarrow>
     link_step l (l\<lparr>sl_send := sending_queued h (sl_send l), sl_held := a @ b, sl_data := sl_data l @ [sg_bytes h]\<rparr>)"
| link_drop: "sl_held l = a @ h # b \<Longrightarrow>
     link_step l (l\<lparr>sl_send := sending_drop h (sl_send l), sl_held := a @ b\<rparr>)"
| link_read: "sl_data l = n # ds \<Longrightarrow> received now n (sl_recv l) = (ack, r) \<Longrightarrow>
     link_step l (l\<lparr>sl_data := ds, sl_recv := r, sl_acks := sl_acks l @ opt_list ack\<rparr>)"
| link_flush: "sr_flush_at (sl_recv l) \<noteq> None \<Longrightarrow> flush (sl_recv l) = (ack, r) \<Longrightarrow>
     link_step l (l\<lparr>sl_recv := r, sl_acks := sl_acks l @ opt_list ack\<rparr>)"
| link_ack: "sl_acks l = Data CONTROL_ID p # fs \<Longrightarrow> parse_control p = Some (SWindow w) \<Longrightarrow>
     acknowledge (unat w) (sl_send l) = Some s \<Longrightarrow> link_step l (l\<lparr>sl_send := s, sl_acks := fs\<rparr>)"

text \<open>Both ends right after the HELLO that granted \<open>w\<close> bytes.\<close>

definition link_start :: "u32 \<Rightarrow> session_link \<Rightarrow> bool" where
  "link_start w l =
     (from_hello w = Ok (Some (sl_send l)) \<and> unat w \<le> SESSION_WINDOW_MAX \<and> sl_held l = [] \<and> sl_data l = []
      \<and> sl_recv l = (granting (unat w))\<lparr>sr_on := True\<rparr> \<and> sl_acks l = [])"

definition link_inv :: "nat \<Rightarrow> session_link \<Rightarrow> bool" where
  "link_inv w l =
     (session_wf (sl_send l) \<and> session_cap (sl_send l) = w \<and> w \<le> SESSION_WINDOW_MAX
      \<and> ss_first_cap (sl_send l) \<le> w div 4 \<and> SESSION_WINDOW_MIN \<le> w
      \<and> ss_sending (sl_send l) = sum_list (map sg_bytes (sl_held l))
      \<and> sr_on (sl_recv l) \<and> sr_window (sl_recv l) = w \<and> sr_unacked (sl_recv l) < w div 4
      \<and> (0 < sr_unacked (sl_recv l) \<longleftrightarrow> sr_flush_at (sl_recv l) \<noteq> None)
      \<and> list_all (\<lambda>n. 0 < n) (sl_data l) \<and> list_all (\<lambda>h. 0 < sg_bytes h) (sl_held l)
      \<and> (\<exists>bs. sl_acks l = map (\<lambda>b. swindow_frame (word_of_nat b)) bs
           \<and> unacknowledged (sl_send l) = sum_list (sl_data l) + sr_unacked (sl_recv l) + sum_list bs))"

lemma parse_swindow: "parse_control ([CTL_SWINDOW] @ u32_be w) = Some (SWindow w)"
  by (simp add: parse_control_def flow_consts)

lemma link_start_inv: "link_start w l \<Longrightarrow> link_inv (unat w) l"
proof -
  assume l: "link_start w l"
  then have "from_hello w = Ok (Some (sl_send l))" by (simp add: link_start_def)
  from from_hello_wf [OF this] l show ?thesis
    by (auto simp: link_inv_def link_start_def granting_def flow_consts intro: exI [of _ "[]"])
qed

lemma sum_list_split: "xs = a @ h # b \<Longrightarrow> sum_list (map f xs) = f h + sum_list (map f (a @ b))"
  for f :: "'a \<Rightarrow> nat"
  by simp

lemma received_cases:
  assumes "received now n r = (ack, r')" "sr_on r" "0 < n"
  obtains (acked) "sr_window r div 4 \<le> sr_unacked r + n" "ack = Some (swindow_frame (word_of_nat (sr_unacked r + n)))"
      "r' = r\<lparr>sr_flush_at := None, sr_unacked := 0\<rparr>"
    | (counted) t where "sr_unacked r + n < sr_window r div 4" "ack = None"
      "r' = r\<lparr>sr_unacked := sr_unacked r + n, sr_flush_at := Some t\<rparr>"
proof (cases "sr_window r div 4 \<le> sr_unacked r + n")
  case True
  then show ?thesis using assms acked by (simp add: received_def flush_def Let_def)
next
  case False
  obtain t where "r' = r\<lparr>sr_unacked := sr_unacked r + n, sr_flush_at := Some t\<rparr>"
  proof (cases "sr_flush_at r")
    case None
    then show ?thesis using assms False that [of "now + SESSION_ACK_DELAY"] by (simp add: received_def Let_def)
  next
    case (Some t)
    then have "r = r\<lparr>sr_flush_at := Some t\<rparr>" by simp
    then show ?thesis using assms False Some that [of t] by (auto simp: received_def Let_def)
  qed
  then show ?thesis using assms False counted by (auto simp: received_def Let_def split: if_splits)
qed

lemma link_step_inv:
  assumes "link_step l l'" "link_inv w l"
  shows "link_inv w l'"
proof -
  from assms(2) obtain bs where acks: "sl_acks l = map (\<lambda>b. swindow_frame (word_of_nat b)) bs"
    and bal: "unacknowledged (sl_send l) = sum_list (sl_data l) + sr_unacked (sl_recv l) + sum_list bs"
    unfolding link_inv_def by blast
  have wf: "session_wf (sl_send l)" and cap: "session_cap (sl_send l) = w" "w \<le> SESSION_WINDOW_MAX"
    using assms(2) by (simp_all add: link_inv_def)
  from assms(1) show ?thesis
  proof (cases rule: link_step.cases)
    case (link_take n fc h s)
    from take_window_wf [OF wf link_take(4)] assms(2) link_take show ?thesis
      by (auto simp: link_inv_def session_cap_def take_window_def split: if_splits)
  next
    case (link_queue a h b)
    then have le: "sg_bytes h \<le> ss_sending (sl_send l)" and pos: "0 < sg_bytes h"
      using assms(2) by (auto simp: link_inv_def)
    from sending_queued_wf [OF wf le] assms(2) link_queue pos acks bal show ?thesis
      by (auto simp: link_inv_def session_cap_def sending_queued_def intro: exI [of _ bs])
  next
    case (link_drop a h b)
    then have le: "sg_bytes h \<le> ss_sending (sl_send l)" using assms(2) by (auto simp: link_inv_def)
    have caps: "ss_first_cap (sending_drop h (sl_send l)) = ss_first_cap (sl_send l)"
      by (simp add: sending_drop_def Let_def)
    from sending_drop_wf [OF wf le] assms(2) link_drop acks bal caps show ?thesis
      by (auto simp: link_inv_def)
  next
    case (link_read n ds now ack r)
    have "sr_on (sl_recv l)" "0 < n" using assms(2) link_read by (auto simp: link_inv_def)
    from link_read(3) this show ?thesis
    proof (cases rule: received_cases)
      case acked
      then show ?thesis using assms(2) link_read acks bal
        by (auto simp: link_inv_def intro!: exI [of _ "bs @ [sr_unacked (sl_recv l) + n]"])
    next
      case (counted t)
      then show ?thesis using assms(2) link_read acks bal \<open>0 < n\<close>
        by (auto simp: link_inv_def intro!: exI [of _ bs])
    qed
  next
    case (link_flush ack r)
    then show ?thesis using assms(2) acks bal
      by (auto simp: link_inv_def flush_def Let_def intro!: exI [of _ "bs @ [sr_unacked (sl_recv l)]"])
  next
    case (link_ack p fs u s)
    then obtain b bs' where bs: "bs = b # bs'" and "p = [CTL_SWINDOW] @ u32_be (word_of_nat b)"
      and fs: "fs = map (\<lambda>b. swindow_frame (word_of_nat b)) bs'"
      using acks by (cases bs) (auto simp: swindow_frame_def)
    then have "u = word_of_nat b" using link_ack(3) parse_swindow by simp
    moreover have "b < 2 ^ 32" using bal unacknowledged_le [OF wf] cap bs by (simp add: flow_consts)
    ultimately have "unat u = b" by (simp add: unat_of_nat)
    moreover have "ss_first_cap s = ss_first_cap (sl_send l)"
      using link_ack(4) by (auto simp: acknowledge_def Let_def split: if_splits)
    ultimately show ?thesis using assms(2) link_ack acknowledge_wf [OF wf link_ack(4)] bal bs fs
      by (auto simp: link_inv_def)
  qed
qed

lemma link_reach_inv: "link_step\<^sup>*\<^sup>* l l' \<Longrightarrow> link_inv w l \<Longrightarrow> link_inv w l'"
  by (induction rule: rtranclp_induct) (auto intro: link_step_inv)

section \<open>Properties\<close>

text \<open>
  The control messages are read back as they were sent, and every message of an agent that only
  knows version 1 or that is malformed is either a plain HELLO or ignored: in particular a
  HELLO grants a window only if it says version 2 or later and carries all four bytes.
\<close>

theorem control_roundtrip:
  "(\<exists>p. hello_frame w = Data 0 p \<and> parse_control p = Some (Hello (Some w))) \<and>
   (\<exists>p. swindow_frame b = Data 0 p \<and> parse_control p = Some (SWindow b)) \<and>
   (\<exists>p. window_frame i b = Data 0 p \<and> parse_control p = Some (Window i b)) \<and>
   (\<exists>p. fc_on_frame i = Data 0 p \<and> parse_control p = Some (FcOn i)) \<and>
   (parse_control q = Some (Hello (Some v)) \<longleftrightarrow>
      (\<exists>ver rest. q = [CTL_HELLO, 67, 70, 67, ver] @ u32_be v @ rest \<and> HELLO_V2 \<le> ver))"
proof -
  have "\<exists>ver rest. q = [CTL_HELLO, 67, 70, 67, ver] @ u32_be v @ rest \<and> HELLO_V2 \<le> ver"
    if h: "parse_control q = Some (Hello (Some v))"
  proof -
    from h obtain r where q: "q = CTL_HELLO # r" and r: "take 3 r = [67, 70, 67]" "8 \<le> length r" "HELLO_V2 \<le> r ! 3"
      and v: "v = u32_of_be (take 4 (drop 4 r))"
      by (auto simp: parse_control_def split: list.splits if_splits)
    have "r = take 3 r @ [r ! 3] @ take 4 (drop 4 r) @ drop 8 r"
    proof -
      have "drop 3 r = r ! 3 # drop 4 r" using r(2) Cons_nth_drop_Suc [of 3 r] by simp
      moreover have "drop 4 r = take 4 (drop 4 r) @ drop 8 r" by (metis append_take_drop_id drop_drop numeral_Bit0)
      ultimately show ?thesis by (metis append_Cons append_Nil append_take_drop_id)
    qed
    moreover have "u32_be v = take 4 (drop 4 r)" using v r(2) by (simp add: u32_be_of_be)
    ultimately have "r = [67, 70, 67] @ [r ! 3] @ u32_be v @ drop 8 r" using r(1) by metis
    then have "q = [CTL_HELLO, 67, 70, 67, r ! 3] @ u32_be v @ drop 8 r" unfolding q
      by (metis append_Cons append_Nil)
    then show ?thesis using r(3) by blast
  qed
  then show ?thesis
    by (auto simp: hello_frame_def swindow_frame_def window_frame_def fc_on_frame_def parse_control_def flow_consts)
qed

text \<open>
  C3: The session window between two members that keep the protocol. Whatever the order in which
  pumps take, queue and give up chunks, the receiver reads and acknowledges, and acknowledgements
  arrive: what is unacknowledged is exactly what is on the wire, counted by the receiver or on its
  way back; together with the chunks held by pumps and what is free this is the granted window, so
  never more than it is unacknowledged; and no acknowledgement is taken for a violation.
\<close>

theorem session_window_conserved:
  assumes "link_start w l" "link_step\<^sup>*\<^sup>* l l'"
  shows "session_wf (sl_send l') \<and> unacknowledged (sl_send l') \<le> unat w
    \<and> ss_first (sl_send l') + ss_budget (sl_send l') + sum_list (map sg_bytes (sl_held l'))
        + unacknowledged (sl_send l') = unat w
    \<and> (\<exists>bs. sl_acks l' = map (\<lambda>b. swindow_frame (word_of_nat b)) bs
          \<and> unacknowledged (sl_send l') = sum_list (sl_data l') + sr_unacked (sl_recv l') + sum_list bs)
    \<and> (sl_acks l' \<noteq> [] \<longrightarrow> (\<exists>p u s. hd (sl_acks l') = Data CONTROL_ID p \<and> parse_control p = Some (SWindow u)
          \<and> acknowledge (unat u) (sl_send l') = Some s))"
proof -
  have inv: "link_inv (unat w) l'" using link_reach_inv [OF assms(2) link_start_inv [OF assms(1)]] .
  then obtain bs where acks: "sl_acks l' = map (\<lambda>b. swindow_frame (word_of_nat b)) bs"
    and bal: "unacknowledged (sl_send l') = sum_list (sl_data l') + sr_unacked (sl_recv l') + sum_list bs"
    unfolding link_inv_def by blast
  have wf: "session_wf (sl_send l')" and cap: "session_cap (sl_send l') = unat w"
    and mx: "unat w \<le> SESSION_WINDOW_MAX"
    and held: "ss_sending (sl_send l') = sum_list (map sg_bytes (sl_held l'))"
    using inv by (simp_all add: link_inv_def)
  have "\<exists>p u s. hd (sl_acks l') = Data CONTROL_ID p \<and> parse_control p = Some (SWindow u)
      \<and> acknowledge (unat u) (sl_send l') = Some s" if "sl_acks l' \<noteq> []"
  proof -
    from that acks obtain b bs' where bs: "bs = b # bs'" by (cases bs) auto
    have "b \<le> unacknowledged (sl_send l')" using bal bs by simp
    moreover from this have "b < 2 ^ 32" using unacknowledged_le [OF wf] cap mx by (simp add: flow_consts)
    then have "unat (word_of_nat b :: u32) = b" by (simp add: unat_of_nat)
    ultimately obtain s where "acknowledge (unat (word_of_nat b :: u32)) (sl_send l') = Some s"
      using acknowledge_iff [of b] by auto
    moreover have "hd (sl_acks l') = Data CONTROL_ID ([CTL_SWINDOW] @ u32_be (word_of_nat b))"
      using acks bs by (simp add: swindow_frame_def)
    ultimately show ?thesis using parse_swindow by blast
  qed
  moreover have "ss_first (sl_send l') + ss_budget (sl_send l') + sum_list (map sg_bytes (sl_held l'))
        + unacknowledged (sl_send l') = unat w"
    using wf cap held by (auto simp: session_wf_def session_cap_def unacknowledged_def)
  ultimately show ?thesis using wf unacknowledged_le [OF wf] cap acks bal by auto
qed

lemma example_session_link:
  "\<exists>l. link_start 262144 l"
proof -
  have "unat (262144 :: u32) = 262144" by simp
  then obtain s where "from_hello 262144 = Ok (Some s)"
    by (auto simp: from_hello_def flow_consts Let_def)
  then have "link_start 262144 \<lparr>sl_send = s, sl_held = [], sl_data = [],
      sl_recv = (granting 262144)\<lparr>sr_on := True\<rparr>, sl_acks = []\<rparr>"
    by (simp add: link_start_def flow_consts)
  then show ?thesis ..
qed

theorem session_window_conserved_witness:
  "\<exists>l. link_start 262144 l \<and> ss_first (sl_send l) + ss_budget (sl_send l) = 262144
     - sum_list (map sg_bytes (sl_held l)) - unacknowledged (sl_send l)"
proof -
  obtain l where l: "link_start 262144 l" using example_session_link by blast
  with session_window_conserved [OF l rtranclp.rtrancl_refl] show ?thesis by auto
qed

text \<open>
  C4: The session window never wedges. In every reachable state in which a pump has to wait for a
  chunk, something else can go on: a held chunk, a frame on its way, an acknowledgement on its way,
  or the receiver's timer, which is armed whenever it has counted a byte it has not acknowledged.
\<close>

theorem session_window_no_stall:
  assumes "link_start w l" "link_step\<^sup>*\<^sup>* l l'" "n \<le> DATA_CHUNK_LEN" "take_window fc n (sl_send l') = None"
  shows "(\<exists>l''. link_step l' l'')
    \<and> (sl_held l' \<noteq> [] \<or> sl_data l' \<noteq> [] \<or> sl_acks l' \<noteq> [] \<or> sr_flush_at (sl_recv l') \<noteq> None)"
proof -
  have inv: "link_inv (unat w) l'" using link_reach_inv [OF assms(2) link_start_inv [OF assms(1)]] .
  then obtain bs where acks: "sl_acks l' = map (\<lambda>b. swindow_frame (word_of_nat b)) bs"
    and bal: "unacknowledged (sl_send l') = sum_list (sl_data l') + sr_unacked (sl_recv l') + sum_list bs"
    unfolding link_inv_def by blast
  have some: "sl_held l' \<noteq> [] \<or> sl_data l' \<noteq> [] \<or> sl_acks l' \<noteq> [] \<or> sr_flush_at (sl_recv l') \<noteq> None"
  proof (rule ccontr)
    assume "\<not> ?thesis"
    then have "unacknowledged (sl_send l') = 0" "ss_sending (sl_send l') = 0"
      using bal acks inv by (auto simp: link_inv_def)
    then have "ss_owed_budget (sl_send l') = 0" using inv by (auto simp: link_inv_def session_wf_def unacknowledged_def)
    then have "ss_budget (sl_send l') = ss_budget_cap (sl_send l')" using inv by (auto simp: link_inv_def session_wf_def)
    moreover have "DATA_CHUNK_LEN \<le> ss_budget_cap (sl_send l')"
      using inv by (auto simp: link_inv_def session_cap_def flow_consts)
    ultimately show False using assms(3,4) by (auto simp: take_window_def split: if_splits)
  qed
  have "\<exists>l''. link_step l' l''"
  proof -
    consider a h b where "sl_held l' = a @ h # b" | n ds where "sl_data l' = n # ds"
      | "sr_flush_at (sl_recv l') \<noteq> None" | b bs' where "bs = b # bs'"
      using some acks by (cases "sl_held l'"; cases "sl_data l'"; cases bs) (auto, metis append_Nil)
    then show ?thesis
    proof cases
      case 4
      then have "b \<le> unacknowledged (sl_send l')" using bal by simp
      moreover from this have "b < 2 ^ 32"
        using unacknowledged_le [of "sl_send l'"] inv by (auto simp: link_inv_def flow_consts)
      then have "unat (word_of_nat b :: u32) = b" by (simp add: unat_of_nat)
      ultimately have "acknowledge (unat (word_of_nat b :: u32)) (sl_send l') \<noteq> None"
        using acknowledge_iff [of b] by auto
      then show ?thesis using 4 acks parse_swindow link_ack [of l'] by (fastforce simp: swindow_frame_def)
    qed (use link_queue [of l'] link_read [of l'] link_flush [of l'] in \<open>metis surj_pair\<close>)+
  qed
  with some show ?thesis by blast
qed

definition example_send :: "nat \<Rightarrow> session_send" where
  "example_send b = \<lparr>ss_budget = b, ss_first = 16384, ss_budget_cap = 49152, ss_first_cap = 16384,
     ss_owed_first = 0, ss_owed_budget = 49152 - b, ss_sending = 49152 - b\<rparr>"

theorem session_window_no_stall_witness:
  "\<exists>l l'. link_step\<^sup>*\<^sup>* l l' \<and> take_window False 16384 (sl_send l') = None \<and> (\<exists>l''. link_step l' l'')"
proof -
  let ?h = "\<lparr>sg_from_first = False, sg_bytes = 16384\<rparr>"
  define st where "st b hs = \<lparr>sl_send = example_send b, sl_held = hs, sl_data = [],
      sl_recv = (granting 65536)\<lparr>sr_on := True\<rparr>, sl_acks = []\<rparr>" for b hs
  have start: "link_start 65536 (st 49152 [])"
    by (simp add: st_def link_start_def from_hello_def Let_def example_send_def flow_consts)
  have tk: "link_step (st b hs) (st (b - 16384) (hs @ [?h]))" if "16384 \<le> b" "b \<le> 49152" for b hs
  proof -
    have "take_window False 16384 (sl_send (st b hs)) = Some (?h, example_send (b - 16384))"
      using that by (simp add: st_def take_window_def example_send_def)
    from link_take [OF _ _ this] show ?thesis by (simp add: st_def flow_consts)
  qed
  have "link_step\<^sup>*\<^sup>* (st 49152 []) (st 0 [?h, ?h, ?h])"
    using tk [of 49152 "[]"] tk [of 32768 "[?h]"] tk [of 16384 "[?h, ?h]"]
    by (simp add: rtranclp.rtrancl_into_rtrancl [of link_step])
  moreover have none: "take_window False 16384 (sl_send (st 0 [?h, ?h, ?h])) = None"
    by (simp add: st_def take_window_def example_send_def)
  ultimately show ?thesis
    using session_window_no_stall [OF start, of "st 0 [?h, ?h, ?h]" 16384 False] by (auto simp: flow_consts)
qed

text \<open>
  A peer that acknowledges at will cannot enlarge its window: any sequence of
  acknowledgements that the sender takes sums up to at most what was unacknowledged, hence at most
  the window, keeps the accounts in order, and leaves the window's size as it was; one byte more
  than is unacknowledged is refused.
\<close>

theorem acknowledgements_bounded:
  assumes "session_wf s" "repay_all acknowledge ns s = Some s'"
  shows "unacknowledged s' + sum_list ns = unacknowledged s \<and> sum_list ns \<le> session_cap s
    \<and> session_wf s' \<and> session_cap s' = session_cap s \<and> acknowledge (unacknowledged s' + 1) s' = None"
  using sw.repay_all_sound [OF assms] sw.repay_all_bound [OF assms] acknowledge_iff [of "unacknowledged s' + 1" s']
  by auto

theorem acknowledgements_bounded_witness:
  "\<exists>s s'. repay_all acknowledge [100, 5] s = Some s' \<and> (100 + 5 :: nat) \<le> session_cap s"
proof -
  let ?s = "\<lparr>ss_budget = 0, ss_first = 0, ss_budget_cap = 100, ss_first_cap = 20, ss_owed_first = 20,
    ss_owed_budget = 100, ss_sending = 10\<rparr>"
  have wf: "session_wf ?s" by (simp add: session_wf_def)
  obtain s' where s': "repay_all acknowledge [100, 5] ?s = Some s'" by (simp add: acknowledge_def Let_def)
  from acknowledgements_bounded [OF wf s'] s' show ?thesis by (intro exI [of _ ?s] exI [of _ s']) simp
qed

end
