(* ===== verification/ForwardStream.thy ===== *)
theory ForwardStream
  imports ForwardFlow
begin

text \<open>
  One forwarded stream (\<^verbatim>\<open>channel_run/forward_stream.rs\<close>): its inbound queue and its credit, which the
  engine and the stream's pump share (\<^verbatim>\<open>InTx\<close>, \<^verbatim>\<open>InRx\<close>, \<^verbatim>\<open>StreamEntry\<close>), the grace of
  \<^verbatim>\<open>send_or_drop\<close>, the two halves of \<^verbatim>\<open>pump_forward_stream\<close> as step functions between their await
  points, and \<^verbatim>\<open>apply_control\<close>.

  A stream's shared state is a cell. Its credit semaphore has the permits that
  \<^verbatim>\<open>available_permits\<close> reports and the permits that a pump waiting in \<^verbatim>\<open>acquire_many\<close> already
  holds; how a waiting pump collects them is left open.
\<close>

section \<open>Messages\<close>

datatype stream_in = SData bytes | SClosed | SAborted

definition abort_frame :: "u32 \<Rightarrow> frame" where
  "abort_frame sid = Close sid (Some CLOSE_REASON_ABORT)"

definition stream_in_for_close :: "string option \<Rightarrow> stream_in" where
  "stream_in_for_close reason = (if reason \<noteq> None then SAborted else SClosed)"

text \<open>
  \<^verbatim>\<open>send_or_drop\<close>: the first attempt, then what each grace period brought. \<open>None\<close> as a result is a
  call that still waits; the counter of written frames is absent outside an engine's stream task.
\<close>

datatype try_send_result = TsOk | TsClosed | TsFull

datatype grace = GotRoom | QueueClosed | GraceOver "(nat \<times> nat) option"

fun send_grace :: "grace list \<Rightarrow> bool option" where
  "send_grace [] = None"
| "send_grace (GotRoom # gs) = Some True"
| "send_grace (QueueClosed # gs) = Some False"
| "send_grace (GraceOver w # gs) =
     (case w of Some (before, now) \<Rightarrow> if now \<noteq> before then send_grace gs else Some False
      | None \<Rightarrow> Some False)"

definition send_or_drop :: "try_send_result \<Rightarrow> grace list \<Rightarrow> bool option" where
  "send_or_drop first gs =
     (case first of TsOk \<Rightarrow> Some True | TsClosed \<Rightarrow> Some False | TsFull \<Rightarrow> send_grace gs)"

section \<open>The cell of a stream\<close>

record stream_cell =
  sc_credited :: bool
  sc_queue :: "stream_in list"
  sc_pending :: nat
  sc_tx :: bool
  sc_rx :: bool
  sc_avail :: "nat option"
  sc_held :: nat
  sc_credit_open :: bool

text \<open>\<^verbatim>\<open>inbound_queue(credited)\<close> and the stream's credit semaphore.\<close>

definition inbound_queue :: "bool \<Rightarrow> stream_cell" where
  "inbound_queue credited =
     \<lparr>sc_credited = credited, sc_queue = [], sc_pending = 0, sc_tx = True, sc_rx = True,
      sc_avail = (if credited then Some FC_WINDOW else None), sc_held = 0, sc_credit_open = credited\<rparr>"

text \<open>The outcome of a receive: the sender side is gone, or nothing is there yet, or a message.\<close>

datatype recv_outcome = RecvWait | RecvEnd | RecvMsg stream_in

fun data_len :: "stream_in \<Rightarrow> nat" where
  "data_len (SData p) = length p"
| "data_len _ = 0"

definition in_recv :: "stream_cell \<Rightarrow> recv_outcome \<times> stream_cell" where
  "in_recv c =
     (case sc_queue c of
        [] \<Rightarrow> (if sc_tx c then RecvWait else RecvEnd, c)
      | m # ms \<Rightarrow>
          (RecvMsg m,
           if sc_credited c then c\<lparr>sc_queue := ms, sc_pending := sc_pending c - data_len m\<rparr>
           else c\<lparr>sc_queue := ms\<rparr>))"

text \<open>A send into the queue: a receiver that is gone is an error the callers ignore.\<close>

definition in_send :: "stream_in \<Rightarrow> stream_cell \<Rightarrow> stream_cell" where
  "in_send m c = (if sc_rx c then c\<lparr>sc_queue := sc_queue c @ [m]\<rparr> else c)"

text \<open>
  \<^verbatim>\<open>StreamEntry::deliver\<close> and \<^verbatim>\<open>notify\<close>: \<open>None\<close> while the engine waits for room in the bounded queue
  of a stream without flow control.
\<close>

definition deliver :: "bytes \<Rightarrow> stream_cell \<Rightarrow> (bool \<times> stream_cell) option" where
  "deliver payload c =
     (if sc_credited c
      then (if FC_WINDOW < sc_pending c + length payload then Some (False, c)
            else Some (True, in_send (SData payload) (c\<lparr>sc_pending := sc_pending c + length payload\<rparr>)))
      else if sc_rx c \<and> CHANNEL_CAP \<le> length (sc_queue c) then None
      else Some (True, in_send (SData payload) c))"

definition notify :: "stream_in \<Rightarrow> stream_cell \<Rightarrow> stream_cell option" where
  "notify m c =
     (if \<not> sc_credited c \<and> sc_rx c \<and> CHANNEL_CAP \<le> length (sc_queue c) then None
      else Some (in_send m c))"

definition finish :: "stream_cell \<Rightarrow> stream_cell" where
  "finish c = c\<lparr>sc_credit_open := False\<rparr>"

section \<open>Control messages on the engine\<close>

datatype control_outcome =
    CoNone
  | CoHello "u32 option"
  | CoSWindow u32
  | CoResetStream u32
  | CoEndSession

definition MAX_PENDING_FC :: nat where "MAX_PENDING_FC = 1024"

definition grant_credit :: "nat \<Rightarrow> stream_cell \<Rightarrow> stream_cell option" where
  "grant_credit bs c =
     (case sc_avail c of None \<Rightarrow> Some c
      | Some a \<Rightarrow> if FC_WINDOW - a < bs then None else Some (c\<lparr>sc_avail := Some (a + bs)\<rparr>))"

definition apply_control ::
  "bytes \<Rightarrow> (u32 \<Rightarrow> stream_cell option) \<Rightarrow> u32 list \<Rightarrow> control_outcome \<times> (u32 \<Rightarrow> stream_cell option) \<times> u32 list" where
  "apply_control payload streams pending_fc =
     (case parse_control payload of
        Some (Hello window) \<Rightarrow> (CoHello window, streams, pending_fc)
      | Some (SWindow bs) \<Rightarrow> (CoSWindow bs, streams, pending_fc)
      | Some (Window sid bs) \<Rightarrow>
          (case streams sid of None \<Rightarrow> (CoNone, streams, pending_fc)
           | Some c \<Rightarrow>
               (case grant_credit (unat bs) c of
                  None \<Rightarrow> (CoResetStream sid, streams, pending_fc)
                | Some c' \<Rightarrow> (CoNone, streams(sid \<mapsto> c'), pending_fc)))
      | Some (FcOn sid) \<Rightarrow>
          if MAX_PENDING_FC \<le> length pending_fc then (CoEndSession, streams, pending_fc)
          else (CoNone, streams, List.insert sid pending_fc)
      | None \<Rightarrow> (CoNone, streams, pending_fc))"

section \<open>The pump\<close>

datatype half = HalfRunning | HalfDone | HalfStop

text \<open>Where the upload half waits: for the socket, for credit, for the session window, for queue room.\<close>

datatype up_state =
    UpRead
  | UpCredit bytes
  | UpWindow bytes
  | UpRoom bytes "session_sending option"
  | UpEnd half

record pump =
  pu_id :: u32
  pu_up :: up_state
  pu_first_chunk :: bool
  pu_down :: half
  pu_unreported :: nat
  pu_bytes_out :: nat
  pu_bytes_in :: nat
  pu_last :: nat
  pu_idle :: duration

definition pump_start :: "u32 \<Rightarrow> nat \<Rightarrow> duration \<Rightarrow> pump" where
  "pump_start sid now idle = \<lparr>pu_id = sid, pu_up = UpRead, pu_first_chunk = True, pu_down = HalfRunning,
     pu_unreported = 0, pu_bytes_out = 0, pu_bytes_in = 0, pu_last = now, pu_idle = idle\<rparr>"

text \<open>
  What a pump step works on: the pump, the cell of its stream, the session window (if the peer
  granted one), and the frames it has put into the shared outbound queue, oldest first.
\<close>

record pump_env =
  pe_pump :: pump
  pe_cell :: stream_cell
  pe_session :: "session_send option"
  pe_out :: "frame list"

definition out_frame :: "frame \<Rightarrow> pump_env \<Rightarrow> pump_env" where
  "out_frame f e = e\<lparr>pe_out := pe_out e @ [f]\<rparr>"

definition set_up :: "up_state \<Rightarrow> pump_env \<Rightarrow> pump_env" where
  "set_up u e = e\<lparr>pe_pump := (pe_pump e)\<lparr>pu_up := u\<rparr>\<rparr>"

definition set_down :: "half \<Rightarrow> pump_env \<Rightarrow> pump_env" where
  "set_down d e = e\<lparr>pe_pump := (pe_pump e)\<lparr>pu_down := d\<rparr>\<rparr>"

definition touch :: "nat \<Rightarrow> pump_env \<Rightarrow> pump_env" where
  "touch now e = e\<lparr>pe_pump := (pe_pump e)\<lparr>pu_last := now\<rparr>\<rparr>"

text \<open>The socket's answer to the upload half's read; \<open>sent\<close> is what \<^verbatim>\<open>send_or_drop\<close> returned.\<close>

datatype sock_read = SockEof | SockErr | SockData bytes

definition up_read :: "sock_read \<Rightarrow> bool \<Rightarrow> pump_env \<Rightarrow> pump_env" where
  "up_read r sent e =
     (let sid = pu_id (pe_pump e)
      in case r of
           SockEof \<Rightarrow> if sent then set_up (UpEnd HalfDone) (out_frame (Close sid None) e)
                      else set_up (UpEnd HalfStop) e
         | SockErr \<Rightarrow> set_up (UpEnd HalfStop) (if sent then out_frame (abort_frame sid) e else e)
         | SockData p \<Rightarrow> set_up (if sc_avail (pe_cell e) = None then UpWindow p else UpCredit p) e)"

text \<open>
  \<^verbatim>\<open>acquire_many\<close> on the credit, which completes when enough is there (with what the waiting pump
  already holds), and fails once the engine closed the semaphore.
\<close>

definition acquire_credit :: "nat \<Rightarrow> stream_cell \<Rightarrow> stream_cell option" where
  "acquire_credit n c =
     (case sc_avail c of None \<Rightarrow> None
      | Some a \<Rightarrow> if n \<le> a + sc_held c then Some (c\<lparr>sc_avail := Some (a + sc_held c - n), sc_held := 0\<rparr>)
                  else None)"

definition up_credit :: "bytes \<Rightarrow> pump_env \<Rightarrow> pump_env option" where
  "up_credit p e =
     (if \<not> sc_credit_open (pe_cell e) then Some (set_up (UpEnd HalfStop) e)
      else (case acquire_credit (length p) (pe_cell e) of None \<Rightarrow> None
        | Some c \<Rightarrow> Some (set_up (UpWindow p) (e\<lparr>pe_cell := c\<rparr>))))"

definition up_window :: "nat \<Rightarrow> bytes \<Rightarrow> pump_env \<Rightarrow> pump_env option" where
  "up_window now p e =
     (let go = (\<lambda>held e. let e1 = touch now e
                in e1\<lparr>pe_pump := (pe_pump e1)\<lparr>pu_up := UpRoom p held, pu_first_chunk := False,
                        pu_bytes_out := pu_bytes_out (pe_pump e1) + length p\<rparr>\<rparr>)
      in case pe_session e of None \<Rightarrow> Some (go None e)
         | Some s \<Rightarrow> (case take_window (pu_first_chunk (pe_pump e)) (length p) s of None \<Rightarrow> None
             | Some (h, s') \<Rightarrow> Some (go (Some h) (e\<lparr>pe_session := Some s'\<rparr>))))"

text \<open>\<^verbatim>\<open>out_up.reserve()\<close>: \<open>room\<close> says whether a place came or the engine is gone.\<close>

definition up_room :: "bool \<Rightarrow> bytes \<Rightarrow> session_sending option \<Rightarrow> pump_env \<Rightarrow> pump_env" where
  "up_room room p held e =
     (if room
      then set_up UpRead (out_frame (Data (pu_id (pe_pump e)) p)
             (case held of None \<Rightarrow> e | Some h \<Rightarrow> e\<lparr>pe_session := map_option (sending_queued h) (pe_session e)\<rparr>))
      else set_up (UpEnd HalfStop)
             (case held of None \<Rightarrow> e | Some h \<Rightarrow> e\<lparr>pe_session := map_option (sending_drop h) (pe_session e)\<rparr>))"

text \<open>
  The download half, once around its loop: \<open>wrote\<close> is whether the socket took the payload, \<open>sent\<close>
  what \<^verbatim>\<open>send_or_drop\<close> returned for the frame of this round, if there is one.
\<close>

definition down_step :: "nat \<Rightarrow> bool \<Rightarrow> bool \<Rightarrow> pump_env \<Rightarrow> pump_env option" where
  "down_step now wrote sent e =
     (let sid = pu_id (pe_pump e)
      in case in_recv (pe_cell e) of
           (RecvWait, _) \<Rightarrow> None
         | (RecvEnd, c) \<Rightarrow> Some (set_down HalfDone (e\<lparr>pe_cell := c\<rparr>))
         | (RecvMsg SClosed, c) \<Rightarrow> Some (set_down HalfDone (e\<lparr>pe_cell := c\<rparr>))
         | (RecvMsg SAborted, c) \<Rightarrow> Some (set_down HalfStop (e\<lparr>pe_cell := c\<rparr>))
         | (RecvMsg (SData p), c) \<Rightarrow>
             if \<not> wrote
             then Some (set_down HalfStop (let e1 = e\<lparr>pe_cell := c\<rparr> in if sent then out_frame (abort_frame sid) e1 else e1))
             else (let e1 = touch now (e\<lparr>pe_cell := c\<rparr>);
                       e2 = e1\<lparr>pe_pump := (pe_pump e1)\<lparr>pu_bytes_in := pu_bytes_in (pe_pump e1) + length p\<rparr>\<rparr>
                   in if sc_avail c = None then Some e2
                      else (let u = pu_unreported (pe_pump e2) + length p
                            in if u < FC_WINDOW div 2
                               then Some (e2\<lparr>pe_pump := (pe_pump e2)\<lparr>pu_unreported := u\<rparr>\<rparr>)
                               else if sent
                               then Some (out_frame (window_frame sid (word_of_nat u))
                                      (e2\<lparr>pe_pump := (pe_pump e2)\<lparr>pu_unreported := 0\<rparr>\<rparr>))
                               else Some (set_down HalfStop (e2\<lparr>pe_pump := (pe_pump e2)\<lparr>pu_unreported := u\<rparr>\<rparr>)))))"

definition pump_over :: "pump \<Rightarrow> bool" where
  "pump_over p = (pu_up p = UpEnd HalfStop \<or> pu_down p = HalfStop
     \<or> pu_up p = UpEnd HalfDone \<and> pu_down p = HalfDone)"

text \<open>The idle branch of the pump's loop: the frame it tries to send when the whole period was quiet.\<close>

definition idle_due :: "nat \<Rightarrow> pump \<Rightarrow> bool" where
  "idle_due now p = (pu_last p + pu_idle p \<le> now)"

definition pump_idle :: "nat \<Rightarrow> bool \<Rightarrow> pump_env \<Rightarrow> pump_env option" where
  "pump_idle now sent e =
     (if idle_due now (pe_pump e)
      then Some (set_down HalfStop
             (if sent then out_frame (Close (pu_id (pe_pump e)) (Some ''idle timeout'')) e else e))
      else None)"

text \<open>
  The end of the pump: the futures of the two halves are dropped, and with a chunk that waited for
  queue room its part of the session window is given back; the receiver of the inbound queue goes,
  and the permits a waiting upload held return to the semaphore.
\<close>

definition pump_dropped :: "pump_env \<Rightarrow> pump_env" where
  "pump_dropped e =
     (let e1 = e\<lparr>pe_cell := (pe_cell e)\<lparr>sc_rx := False, sc_avail := map_option (\<lambda>a. a + sc_held (pe_cell e)) (sc_avail (pe_cell e)),
                                         sc_held := 0\<rparr>\<rparr>
      in case pu_up (pe_pump e) of
           UpRoom p (Some h) \<Rightarrow> e1\<lparr>pe_session := map_option (sending_drop h) (pe_session e1)\<rparr>
         | _ \<Rightarrow> e1)"

text \<open>
  The steps of a pump, labelled with what it read from its socket and what it wrote there. They
  end when the stream is over.
\<close>

datatype pump_event = PRead bytes | PWrote bytes | PTau

definition read_event :: "sock_read \<Rightarrow> pump_event" where
  "read_event r = (case r of SockData p \<Rightarrow> PRead p | _ \<Rightarrow> PTau)"

definition write_event :: "bool \<Rightarrow> stream_cell \<Rightarrow> pump_event" where
  "write_event wrote c = (case sc_queue c of SData p # _ \<Rightarrow> if wrote then PWrote p else PTau | _ \<Rightarrow> PTau)"

inductive pump_step :: "pump_env \<Rightarrow> pump_event \<Rightarrow> pump_env \<Rightarrow> bool" where
  ps_read: "\<not> pump_over (pe_pump e) \<Longrightarrow> pu_up (pe_pump e) = UpRead \<Longrightarrow>
     (case r of SockData p \<Rightarrow> 0 < length p \<and> length p \<le> DATA_CHUNK_LEN | _ \<Rightarrow> True) \<Longrightarrow>
     pump_step e (read_event r) (up_read r sent e)"
| ps_credit: "\<not> pump_over (pe_pump e) \<Longrightarrow> pu_up (pe_pump e) = UpCredit p \<Longrightarrow> up_credit p e = Some e' \<Longrightarrow>
     pump_step e PTau e'"
| ps_window: "\<not> pump_over (pe_pump e) \<Longrightarrow> pu_up (pe_pump e) = UpWindow p \<Longrightarrow> up_window now p e = Some e' \<Longrightarrow>
     pump_step e PTau e'"
| ps_room: "\<not> pump_over (pe_pump e) \<Longrightarrow> pu_up (pe_pump e) = UpRoom p held \<Longrightarrow>
     pump_step e PTau (up_room room p held e)"
| ps_down: "\<not> pump_over (pe_pump e) \<Longrightarrow> pu_down (pe_pump e) = HalfRunning \<Longrightarrow>
     down_step now wrote sent e = Some e' \<Longrightarrow> pump_step e (write_event wrote (pe_cell e)) e'"
| ps_idle: "\<not> pump_over (pe_pump e) \<Longrightarrow> pump_idle now sent e = Some e' \<Longrightarrow> pump_step e PTau e'"

inductive pump_trace :: "pump_env \<Rightarrow> pump_event list \<Rightarrow> pump_env \<Rightarrow> bool" where
  pt_nil: "pump_trace e [] e"
| pt_snoc: "pump_trace e evs e' \<Longrightarrow> pump_step e' ev e'' \<Longrightarrow> pump_trace e (evs @ [ev]) e''"

section \<open>The pump is byte transparent\<close>

fun read_of :: "pump_event \<Rightarrow> bytes" where
  "read_of (PRead p) = p"
| "read_of _ = []"

fun written_of :: "pump_event \<Rightarrow> bytes" where
  "written_of (PWrote p) = p"
| "written_of _ = []"

definition all_read :: "pump_event list \<Rightarrow> bytes" where
  "all_read evs = concat (map read_of evs)"

definition all_written :: "pump_event list \<Rightarrow> bytes" where
  "all_written evs = concat (map written_of evs)"

definition data_of :: "u32 \<Rightarrow> frame list \<Rightarrow> bytes" where
  "data_of sid fs = concat (map (\<lambda>f. case f of Data i p \<Rightarrow> if i = sid then p else [] | _ \<Rightarrow> []) fs)"

fun in_hand :: "up_state \<Rightarrow> bytes" where
  "in_hand (UpCredit p) = p"
| "in_hand (UpWindow p) = p"
| "in_hand (UpRoom p h) = p"
| "in_hand _ = []"

fun window_held :: "up_state \<Rightarrow> nat" where
  "window_held (UpRoom p (Some h)) = sg_bytes h"
| "window_held _ = 0"

fun counted_out :: "up_state \<Rightarrow> nat" where
  "counted_out (UpRoom p h) = length p"
| "counted_out _ = 0"

lemma data_of_simps [simp]:
  "data_of sid [] = []" "data_of sid (fs @ [Data i p]) = data_of sid fs @ (if i = sid then p else [])"
  "data_of sid (fs @ [Close i r]) = data_of sid fs"
  by (simp_all add: data_of_def)

lemma data_of_control [simp]:
  "sid \<noteq> 0 \<Longrightarrow> data_of sid (fs @ [window_frame i b]) = data_of sid fs"
  "data_of sid (fs @ [abort_frame i]) = data_of sid fs"
  by (simp_all add: window_frame_def abort_frame_def CONTROL_ID_def)

lemma all_read_simps [simp]:
  "all_read [] = []" "all_read (evs @ [ev]) = all_read evs @ read_of ev"
  "all_written [] = []" "all_written (evs @ [ev]) = all_written evs @ written_of ev"
  by (simp_all add: all_read_def all_written_def)

text \<open>
  The invariant of a pump that was started with the session window \<open>s0\<close>: what it read is in its
  frames or in its hand, unless it stopped; its counters; and the session window is spent by exactly
  what it queued, but for the chunk in its hand.
\<close>

definition up_inv :: "u32 \<Rightarrow> pump_event list \<Rightarrow> pump_env \<Rightarrow> bool" where
  "up_inv sid evs e =
     (let p = pe_pump e
      in pu_id p = sid \<and> (\<exists>lost. all_read evs = data_of sid (pe_out e) @ in_hand (pu_up p) @ lost
           \<and> (lost \<noteq> [] \<longrightarrow> pu_up p = UpEnd HalfStop))
         \<and> (pu_up p = UpEnd HalfStop \<or> pu_bytes_out p = length (data_of sid (pe_out e)) + counted_out (pu_up p))
         \<and> (pu_up p = UpEnd HalfDone \<longrightarrow> Close sid None \<in> set (pe_out e))
         \<and> pu_bytes_in p = length (all_written evs))"

definition window_inv :: "session_send option \<Rightarrow> u32 \<Rightarrow> pump_env \<Rightarrow> bool" where
  "window_inv s0 sid e =
     (case (s0, pe_session e) of
        (None, None) \<Rightarrow> window_held (pu_up (pe_pump e)) = 0
      | (Some a, Some b) \<Rightarrow> session_wf b \<and> session_cap b = session_cap a
          \<and> ss_sending b = ss_sending a + window_held (pu_up (pe_pump e))
          \<and> unacknowledged b = unacknowledged a + length (data_of sid (pe_out e))
          \<and> (\<forall>p. pu_up (pe_pump e) \<noteq> UpRoom p None)
          \<and> (\<forall>p h. pu_up (pe_pump e) = UpRoom p (Some h) \<longrightarrow> sg_bytes h = length p)
      | _ \<Rightarrow> False)"

lemmas env_defs = out_frame_def set_up_def set_down_def touch_def

lemma down_step_effect:
  assumes "down_step now wrote sent e = Some e'" "pu_id (pe_pump e) \<noteq> 0"
  shows "pu_up (pe_pump e') = pu_up (pe_pump e) \<and> pu_id (pe_pump e') = pu_id (pe_pump e)
    \<and> pu_bytes_out (pe_pump e') = pu_bytes_out (pe_pump e) \<and> pe_session e' = pe_session e
    \<and> data_of (pu_id (pe_pump e)) (pe_out e') = data_of (pu_id (pe_pump e)) (pe_out e)
    \<and> set (pe_out e) \<subseteq> set (pe_out e')
    \<and> pu_bytes_in (pe_pump e') = pu_bytes_in (pe_pump e) + length (written_of (write_event wrote (pe_cell e)))"
proof (cases "sc_queue (pe_cell e)")
  case Nil
  then show ?thesis using assms by (auto simp: down_step_def in_recv_def write_event_def env_defs split: if_splits)
next
  case (Cons m ms)
  then show ?thesis using assms
    by (cases m) (auto simp: down_step_def in_recv_def write_event_def env_defs Let_def split: if_splits)
qed

lemma pump_step_up_inv:
  assumes "pump_step e ev e'" "up_inv sid evs e" "sid \<noteq> 0"
  shows "up_inv sid (evs @ [ev]) e'"
  using assms(1)
proof (cases rule: pump_step.cases)
  case (ps_read r sent)
  then show ?thesis using assms(2,3)
    by (cases r) (auto simp: up_inv_def Let_def up_read_def read_event_def env_defs)
next
  case (ps_credit p)
  then show ?thesis using assms(2)
    by (auto simp: up_inv_def Let_def up_credit_def env_defs split: if_splits option.splits)
next
  case (ps_window p now)
  then show ?thesis using assms(2)
    by (auto simp: up_inv_def Let_def up_window_def env_defs split: option.splits)
next
  case (ps_room p held room)
  then show ?thesis using assms(2)
    by (cases held) (auto simp: up_inv_def Let_def up_room_def env_defs)
next
  case (ps_down now wrote sent)
  have "read_of (write_event wrote (pe_cell e)) = []"
    by (auto simp: write_event_def split: list.split stream_in.split)
  moreover have "pu_id (pe_pump e) = sid" using assms(2) by (simp add: up_inv_def Let_def)
  ultimately show ?thesis using down_step_effect [OF ps_down(4)] assms(2,3) ps_down(1)
    by (auto simp: up_inv_def Let_def)
next
  case (ps_idle now sent)
  then show ?thesis using assms(2) by (auto simp: up_inv_def Let_def pump_idle_def env_defs split: if_splits)
qed

lemma pump_step_window_inv:
  assumes "pump_step e ev e'" "window_inv s0 sid e" "pu_id (pe_pump e) = sid" "sid \<noteq> 0"
  shows "window_inv s0 sid e'"
  using assms(1)
proof (cases rule: pump_step.cases)
  case (ps_read r sent)
  then show ?thesis using assms(2,4)
    by (cases r) (auto simp: window_inv_def up_read_def Let_def env_defs split: option.splits)
next
  case (ps_credit p)
  then show ?thesis using assms(2)
    by (auto simp: window_inv_def up_credit_def env_defs split: if_splits option.splits)
next
  case (ps_window p now)
  show ?thesis
  proof (cases "pe_session e")
    case None
    then show ?thesis using ps_window assms(2)
      by (auto simp: window_inv_def up_window_def Let_def env_defs split: option.splits)
  next
    case (Some b)
    then obtain a where a: "s0 = Some a" using assms(2) by (cases s0) (auto simp: window_inv_def)
    from ps_window Some obtain h b' where t: "take_window (pu_first_chunk (pe_pump e)) (length p) b = Some (h, b')"
      by (auto simp: up_window_def Let_def split: option.splits)
    have "session_wf b" using assms(2) Some a by (simp add: window_inv_def)
    from take_window_wf [OF this t] show ?thesis using ps_window assms(2) Some a t
      by (auto simp: window_inv_def up_window_def Let_def env_defs)
  qed
next
  case (ps_room p held room)
  show ?thesis
  proof (cases "pe_session e")
    case None
    then show ?thesis using ps_room assms(2)
      by (cases held) (auto simp: window_inv_def up_room_def env_defs split: option.splits)
  next
    case (Some b)
    then obtain a where a: "s0 = Some a" using assms(2) by (cases s0) (auto simp: window_inv_def)
    have "pu_up (pe_pump e) \<noteq> UpRoom p None" using assms(2) Some a by (simp add: window_inv_def)
    then obtain h where h: "held = Some h" using ps_room by (cases held) auto
    have up: "pu_up (pe_pump e) = UpRoom p (Some h)" using ps_room h by simp
    have wf: "session_wf b" and le: "sg_bytes h \<le> ss_sending b" "sg_bytes h = length p"
      using assms(2) Some a up by (auto simp: window_inv_def)
    from sending_queued_wf [OF wf le(1)] sending_drop_wf [OF wf le(1)] show ?thesis
      using ps_room assms(2,3) Some a h le(2) by (auto simp: window_inv_def up_room_def env_defs)
  qed
next
  case (ps_down now wrote sent)
  from down_step_effect [OF ps_down(4)] assms(2-4) show ?thesis by (auto simp: window_inv_def split: option.splits)
next
  case (ps_idle now sent)
  then show ?thesis using assms(2) by (auto simp: window_inv_def pump_idle_def env_defs split: if_splits option.splits)
qed

lemma pump_trace_inv:
  assumes "pump_trace e evs e'" "pe_pump e = pump_start sid now idle" "pe_out e = []" "sid \<noteq> 0"
    "\<forall>s. pe_session e = Some s \<longrightarrow> session_wf s"
  shows "up_inv sid evs e' \<and> window_inv (pe_session e) sid e'"
  using assms
proof (induction rule: pump_trace.induct)
  case (pt_nil e)
  then show ?case by (auto simp: up_inv_def window_inv_def pump_start_def split: option.splits)
next
  case (pt_snoc e evs e' ev e'')
  then have "up_inv sid evs e'" "window_inv (pe_session e) sid e'" by blast+
  moreover from this(1) have "pu_id (pe_pump e') = sid" by (simp add: up_inv_def Let_def)
  ultimately show ?case using pt_snoc.hyps(2) pt_snoc.prems(3) pump_step_up_inv pump_step_window_inv by blast
qed


text \<open>
  A pump neither leaks nor invents session window. However it ends (end of file, reset, idle,
  or the session going away while a chunk waits for room), after its futures are dropped the window
  holds nothing for it, and what the peer owes has grown by exactly the bytes of its queued frames.
\<close>

theorem pump_window_exact:
  assumes "pump_trace e evs e'" "pe_pump e = pump_start sid now idle" "pe_out e = []" "sid \<noteq> 0"
    "pe_session e = Some s" "session_wf s"
  shows "\<exists>s'. pe_session (pump_dropped e') = Some s' \<and> session_wf s' \<and> session_cap s' = session_cap s
     \<and> ss_sending s' = ss_sending s
     \<and> unacknowledged s' = unacknowledged s + length (data_of sid (pe_out e'))"
proof -
  have inv: "window_inv (Some s) sid e'" using pump_trace_inv [OF assms(1-4)] assms(5,6) by auto
  then obtain b where b: "pe_session e' = Some b" by (cases "pe_session e'") (auto simp: window_inv_def)
  show ?thesis
  proof (cases "\<exists>p h. pu_up (pe_pump e') = UpRoom p (Some h)")
    case True
    then obtain p h where h: "pu_up (pe_pump e') = UpRoom p (Some h)" by blast
    with inv b have wf: "session_wf b" and le: "sg_bytes h \<le> ss_sending b" by (auto simp: window_inv_def)
    from sending_drop_wf [OF wf le] inv b h show ?thesis by (auto simp: window_inv_def pump_dropped_def Let_def)
  next
    case False
    then have "pe_session (pump_dropped e') = Some b" "window_held (pu_up (pe_pump e')) = 0"
      using b inv by (cases "pu_up (pe_pump e')"; auto simp: pump_dropped_def Let_def window_inv_def split: option.split)+
    then show ?thesis using inv b by (auto simp: window_inv_def)
  qed
qed

definition example_env :: "session_send option \<Rightarrow> pump_env" where
  "example_env s = \<lparr>pe_pump = pump_start 1 0 (secs 300), pe_cell = inbound_queue True, pe_session = s, pe_out = []\<rparr>"

text \<open>One chunk of two bytes is read, pays credit and window, and is queued.\<close>

lemma example_trace:
  "\<exists>e'. pump_trace (example_env (Some (example_send 49152))) [PRead [1, 2], PTau, PTau, PTau] e'
     \<and> pe_out e' = [Data 1 [1, 2]] \<and> pu_up (pe_pump e') = UpRead"
proof -
  let ?e0 = "example_env (Some (example_send 49152))"
  define e1 where "e1 = up_read (SockData [1, 2]) True ?e0"
  obtain e2 where e2: "up_credit [1, 2] e1 = Some e2"
    by (simp add: e1_def up_credit_def up_read_def example_env_def env_defs inbound_queue_def acquire_credit_def flow_consts)
  then have e2': "e2 = set_up (UpWindow [1, 2]) (e1\<lparr>pe_cell := (inbound_queue True)\<lparr>sc_avail := Some (FC_WINDOW - 2), sc_held := 0\<rparr>\<rparr>)"
    by (auto simp: e1_def up_credit_def up_read_def example_env_def env_defs inbound_queue_def acquire_credit_def split: if_splits)
  obtain e3 h where e3: "up_window 7 [1, 2] e2 = Some e3" and h: "pu_up (pe_pump e3) = UpRoom [1, 2] (Some h)"
    "pe_out e3 = []" "pu_down (pe_pump e3) = HalfRunning" "pu_id (pe_pump e3) = 1"
    by (simp add: e2' e1_def up_window_def up_read_def example_env_def env_defs example_send_def take_window_def
        pump_start_def Let_def inbound_queue_def)
  have "pump_step ?e0 (PRead [1, 2]) e1"
    unfolding e1_def using ps_read [of ?e0 "SockData [1, 2]" True]
    by (simp add: example_env_def pump_start_def pump_over_def read_event_def flow_consts)
  moreover have "pump_step e1 PTau e2"
    using e2 by (intro ps_credit [where p = "[1, 2]"])
      (auto simp: e1_def up_read_def example_env_def env_defs pump_start_def pump_over_def inbound_queue_def)
  moreover have "pump_step e2 PTau e3"
    using e3 by (intro ps_window [where p = "[1, 2]"])
      (auto simp: e2' e1_def up_read_def example_env_def env_defs pump_start_def pump_over_def inbound_queue_def)
  moreover have "pump_step e3 PTau (up_room True [1, 2] (Some h) e3)"
    using h by (intro ps_room) (auto simp: pump_over_def)
  ultimately have "pump_trace ?e0 (((([] @ [PRead [1, 2]]) @ [PTau]) @ [PTau]) @ [PTau]) (up_room True [1, 2] (Some h) e3)"
    by (rule pt_snoc [OF pt_snoc [OF pt_snoc [OF pt_snoc [OF pt_nil]]]])
  moreover have "pe_out (up_room True [1, 2] (Some h) e3) = [Data 1 [1, 2]]"
    "pu_up (pe_pump (up_room True [1, 2] (Some h) e3)) = UpRead"
    using h by (simp_all add: up_room_def env_defs)
  ultimately show ?thesis by auto
qed

lemma example_send_wf: "b \<le> 49152 \<Longrightarrow> session_wf (example_send b)"
  by (simp add: session_wf_def example_send_def)


theorem pump_window_exact_witness:
  "\<exists>e' s'. pe_session (pump_dropped e') = Some s' \<and> unacknowledged s' = length (data_of 1 [Data 1 [1, 2]])"
proof -
  obtain e' where t: "pump_trace (example_env (Some (example_send 49152))) [PRead [1, 2], PTau, PTau, PTau] e'"
    "pe_out e' = [Data 1 [1, 2]]" using example_trace by blast
  have "unacknowledged (example_send 49152) = 0" by (simp add: example_send_def unacknowledged_def)
  with pump_window_exact [OF t(1), of 1 0 "secs 300" "example_send 49152"] t(2) example_send_wf [of 49152] show ?thesis
    by (auto simp: example_env_def)
qed

section \<open>Credit of one stream\<close>

definition credit_wf :: "stream_cell \<Rightarrow> bool" where
  "credit_wf c = (\<exists>a. sc_avail c = Some a \<and> a \<le> FC_WINDOW)"

definition credit_spent :: "stream_cell \<Rightarrow> nat" where
  "credit_spent c = (case sc_avail c of None \<Rightarrow> 0 | Some a \<Rightarrow> FC_WINDOW - a)"

interpretation sc: credit_account credit_wf credit_spent "\<lambda>_. FC_WINDOW" grant_credit
  by unfold_locales (auto simp: credit_wf_def credit_spent_def grant_credit_def)

text \<open>
  One direction of one stream under credit, between two members that keep the protocol: the
  sender's cell, the payloads on their way, the receiver's pump with its cell, and the \<open>WINDOW\<close>
  frames the receiver's pump has sent (in its outbound frames).
\<close>

record credit_link =
  cl_send :: stream_cell
  cl_data :: "bytes list"
  cl_recv :: pump_env

inductive credit_step :: "credit_link \<Rightarrow> credit_link \<Rightarrow> bool" where
  cs_wait: "sc_avail (cl_send l) = Some a \<Longrightarrow> k \<le> a \<Longrightarrow>
     credit_step l (l\<lparr>cl_send := (cl_send l)\<lparr>sc_avail := Some (a - k), sc_held := sc_held (cl_send l) + k\<rparr>\<rparr>)"
| cs_send: "0 < length p \<Longrightarrow> length p \<le> DATA_CHUNK_LEN \<Longrightarrow> acquire_credit (length p) (cl_send l) = Some c \<Longrightarrow>
     credit_step l (l\<lparr>cl_send := c, cl_data := cl_data l @ [p]\<rparr>)"
| cs_deliver: "cl_data l = p # ds \<Longrightarrow> deliver p (pe_cell (cl_recv l)) = Some (True, c) \<Longrightarrow>
     credit_step l (l\<lparr>cl_data := ds, cl_recv := (cl_recv l)\<lparr>pe_cell := c\<rparr>\<rparr>)"
| cs_write: "down_step now True True (cl_recv l) = Some e \<Longrightarrow> credit_step l (l\<lparr>cl_recv := e\<rparr>)"
| cs_grant: "pe_out (cl_recv l) = Data CONTROL_ID q # fs \<Longrightarrow> parse_control q = Some (Window sid b) \<Longrightarrow>
     grant_credit (unat b) (cl_send l) = Some c \<Longrightarrow>
     credit_step l (l\<lparr>cl_send := c, cl_recv := (cl_recv l)\<lparr>pe_out := fs\<rparr>\<rparr>)"

definition credit_start :: "u32 \<Rightarrow> credit_link \<Rightarrow> bool" where
  "credit_start sid l = (\<exists>now idle s. l = \<lparr>cl_send = inbound_queue True, cl_data = [],
     cl_recv = \<lparr>pe_pump = pump_start sid now idle, pe_cell = inbound_queue True, pe_session = s, pe_out = []\<rparr>\<rparr>)"

definition queued_bytes :: "stream_cell \<Rightarrow> nat" where
  "queued_bytes c = sum_list (map data_len (sc_queue c))"

text \<open>The credit in circulation, and the shape of the receiver's side.\<close>

definition credit_inv :: "u32 \<Rightarrow> credit_link \<Rightarrow> bool" where
  "credit_inv sid l =
     (let r = cl_recv l; c = pe_cell r
      in sc_credited c \<and> sc_rx c \<and> sc_tx c \<and> sc_avail c \<noteq> None \<and> sc_pending c = queued_bytes c
         \<and> list_all (\<lambda>m. \<exists>p. m = SData p) (sc_queue c)
         \<and> pu_id (pe_pump r) = sid \<and> pu_unreported (pe_pump r) < FC_WINDOW div 2
         \<and> (\<exists>a bs. sc_avail (cl_send l) = Some a \<and> pe_out r = map (\<lambda>b. window_frame sid (word_of_nat b)) bs
              \<and> a + sc_held (cl_send l) + sum_list (map length (cl_data l)) + sc_pending c
                  + pu_unreported (pe_pump r) + sum_list bs = FC_WINDOW))"

lemma parse_window: "parse_control ([CTL_WINDOW] @ u32_be sid @ u32_be b) = Some (Window sid b)"
  by (simp add: parse_control_def flow_consts)

lemma credit_start_inv: "credit_start sid l \<Longrightarrow> credit_inv sid l"
  by (auto simp: credit_start_def credit_inv_def Let_def inbound_queue_def queued_bytes_def pump_start_def
      flow_consts intro: exI [of _ "[]"])

lemma down_step_write:
  assumes "down_step now True True e = Some e'" "sc_credited (pe_cell e)" "sc_tx (pe_cell e)"
    "sc_avail (pe_cell e) \<noteq> None" "list_all (\<lambda>m. \<exists>p. m = SData p) (sc_queue (pe_cell e))"
  obtains p ms where "sc_queue (pe_cell e) = SData p # ms"
    "pe_cell e' = (pe_cell e)\<lparr>sc_queue := ms, sc_pending := sc_pending (pe_cell e) - length p\<rparr>"
    "pu_id (pe_pump e') = pu_id (pe_pump e)"
    "pu_unreported (pe_pump e) + length p < FC_WINDOW div 2 \<and> pe_out e' = pe_out e
       \<and> pu_unreported (pe_pump e') = pu_unreported (pe_pump e) + length p
     \<or> pe_out e' = pe_out e @ [window_frame (pu_id (pe_pump e)) (word_of_nat (pu_unreported (pe_pump e) + length p))]
       \<and> pu_unreported (pe_pump e') = 0"
proof (cases "sc_queue (pe_cell e)")
  case Nil
  then show ?thesis using assms by (simp add: down_step_def in_recv_def)
next
  case (Cons m ms)
  then obtain p where m: "m = SData p" using assms(5) by auto
  define c where "c = (pe_cell e)\<lparr>sc_queue := ms, sc_pending := sc_pending (pe_cell e) - length p\<rparr>"
  have rv: "in_recv (pe_cell e) = (RecvMsg (SData p), c)"
    using Cons m assms(2) by (simp add: in_recv_def c_def)
  have av: "sc_avail c \<noteq> None" using assms(4) by (simp add: c_def)
  from assms(1) have "pe_cell e' = c \<and> pu_id (pe_pump e') = pu_id (pe_pump e) \<and>
     (pu_unreported (pe_pump e) + length p < FC_WINDOW div 2 \<and> pe_out e' = pe_out e
       \<and> pu_unreported (pe_pump e') = pu_unreported (pe_pump e) + length p
     \<or> pe_out e' = pe_out e @ [window_frame (pu_id (pe_pump e)) (word_of_nat (pu_unreported (pe_pump e) + length p))]
       \<and> pu_unreported (pe_pump e') = 0)"
    unfolding down_step_def rv using av by (auto simp: Let_def env_defs split: if_splits)
  then show ?thesis using that Cons m c_def by blast
qed

lemma credit_step_inv:
  assumes "credit_step l l'" "credit_inv sid l"
  shows "credit_inv sid l'"
proof -
  let ?r = "cl_recv l" and ?c = "pe_cell (cl_recv l)"
  from assms(2) obtain a bs where a: "sc_avail (cl_send l) = Some a"
    and out: "pe_out ?r = map (\<lambda>b. window_frame sid (word_of_nat b)) bs"
    and bal: "a + sc_held (cl_send l) + sum_list (map length (cl_data l)) + sc_pending ?c
                + pu_unreported (pe_pump ?r) + sum_list bs = FC_WINDOW"
    unfolding credit_inv_def Let_def by blast
  have c: "sc_credited ?c" "sc_rx ?c" "sc_tx ?c" "sc_avail ?c \<noteq> None" "sc_pending ?c = queued_bytes ?c"
    "list_all (\<lambda>m. \<exists>p. m = SData p) (sc_queue ?c)" and r: "pu_id (pe_pump ?r) = sid"
    "pu_unreported (pe_pump ?r) < FC_WINDOW div 2" using assms(2) by (simp_all add: credit_inv_def Let_def)
  from assms(1) show ?thesis
  proof (cases rule: credit_step.cases)
    case (cs_wait a' k)
    then show ?thesis using a out bal c r by (auto simp: credit_inv_def Let_def intro!: exI [of _ bs])
  next
    case (cs_send p s)
    then show ?thesis using a out bal c r
      by (auto simp: credit_inv_def Let_def acquire_credit_def split: if_splits intro!: exI [of _ bs])
  next
    case (cs_deliver p ds s)
    then show ?thesis using a out bal c r
      by (auto simp: credit_inv_def Let_def deliver_def in_send_def queued_bytes_def split: if_splits intro!: exI [of _ bs])
  next
    case (cs_write now e)
    from down_step_write [OF cs_write(2) c(1,3,4,6)] obtain p ms where
      q: "sc_queue ?c = SData p # ms"
        "pe_cell e = ?c\<lparr>sc_queue := ms, sc_pending := sc_pending ?c - length p\<rparr>" "pu_id (pe_pump e) = sid"
      and u: "pu_unreported (pe_pump ?r) + length p < FC_WINDOW div 2 \<and> pe_out e = pe_out ?r
         \<and> pu_unreported (pe_pump e) = pu_unreported (pe_pump ?r) + length p
       \<or> pe_out e = pe_out ?r @ [window_frame sid (word_of_nat (pu_unreported (pe_pump ?r) + length p))]
         \<and> pu_unreported (pe_pump e) = 0"
      using r(1) by metis
    have pend: "sc_pending ?c = length p + sum_list (map data_len ms)" using c(5) q(1) by (simp add: queued_bytes_def)
    from u show ?thesis
    proof
      assume "pu_unreported (pe_pump ?r) + length p < FC_WINDOW div 2 \<and> pe_out e = pe_out ?r
         \<and> pu_unreported (pe_pump e) = pu_unreported (pe_pump ?r) + length p"
      then show ?thesis using a out bal c q pend cs_write(1)
        by (auto simp: credit_inv_def Let_def queued_bytes_def intro!: exI [of _ bs])
    next
      assume "pe_out e = pe_out ?r @ [window_frame sid (word_of_nat (pu_unreported (pe_pump ?r) + length p))]
         \<and> pu_unreported (pe_pump e) = 0"
      then show ?thesis using a out bal c q pend cs_write(1)
        by (auto simp: credit_inv_def Let_def queued_bytes_def flow_consts
            intro!: exI [of _ "bs @ [pu_unreported (pe_pump ?r) + length p]"])
    qed
  next
    case (cs_grant q fs sid' b s)
    then obtain b' bs' where bs: "bs = b' # bs'" and "q = [CTL_WINDOW] @ u32_be sid @ u32_be (word_of_nat b')"
      and fs: "fs = map (\<lambda>b. window_frame sid (word_of_nat b)) bs'"
      using out by (cases bs) (auto simp: window_frame_def)
    then have "b = word_of_nat b'" using cs_grant(3) parse_window by simp
    moreover have "b' < 2 ^ 32" using bal bs by (simp add: flow_consts)
    ultimately have "unat b = b'" by (simp add: unat_of_nat)
    then show ?thesis using cs_grant a out bal c r bs fs
      by (auto simp: credit_inv_def Let_def grant_credit_def queued_bytes_def split: if_splits intro!: exI [of _ bs'])
  qed
qed

lemma credit_reach_inv: "credit_step\<^sup>*\<^sup>* l l' \<Longrightarrow> credit_inv sid l \<Longrightarrow> credit_inv sid l'"
  by (induction rule: rtranclp_induct) (auto intro: credit_step_inv)

text \<open>
  C5: The credit of a stream between two members that keep the protocol is conserved: what the
  sender has (or its waiting pump holds), what is on the wire, what waits in the receiver's queue,
  what the receiver wrote and has not reported, and what is on its way back add up to the window.
  So the receiver never buffers more than the window, never resets the stream for exceeded credit,
  and the sender never resets it for credit beyond the window.
\<close>

theorem stream_credit_conserved:
  assumes "credit_start sid l" "credit_step\<^sup>*\<^sup>* l l'"
  shows "(\<exists>a bs. sc_avail (cl_send l') = Some a \<and> pe_out (cl_recv l') = map (\<lambda>b. window_frame sid (word_of_nat b)) bs
       \<and> a + sc_held (cl_send l') + sum_list (map length (cl_data l')) + queued_bytes (pe_cell (cl_recv l'))
         + pu_unreported (pe_pump (cl_recv l')) + sum_list bs = FC_WINDOW)
    \<and> (cl_data l' \<noteq> [] \<longrightarrow> (\<exists>c. deliver (hd (cl_data l')) (pe_cell (cl_recv l')) = Some (True, c)))
    \<and> (pe_out (cl_recv l') \<noteq> [] \<longrightarrow> (\<exists>q b c. hd (pe_out (cl_recv l')) = Data CONTROL_ID q
          \<and> parse_control q = Some (Window sid b) \<and> grant_credit (unat b) (cl_send l') = Some c))"
proof -
  have inv: "credit_inv sid l'" using credit_reach_inv [OF assms(2) credit_start_inv [OF assms(1)]] .
  then obtain a bs where a: "sc_avail (cl_send l') = Some a"
    and out: "pe_out (cl_recv l') = map (\<lambda>b. window_frame sid (word_of_nat b)) bs"
    and bal: "a + sc_held (cl_send l') + sum_list (map length (cl_data l')) + queued_bytes (pe_cell (cl_recv l'))
                + pu_unreported (pe_pump (cl_recv l')) + sum_list bs = FC_WINDOW"
    unfolding credit_inv_def Let_def by auto
  have "\<exists>c. deliver (hd (cl_data l')) (pe_cell (cl_recv l')) = Some (True, c)" if "cl_data l' \<noteq> []"
    using that inv bal by (cases "cl_data l'") (auto simp: credit_inv_def Let_def deliver_def)
  moreover have "\<exists>q b c. hd (pe_out (cl_recv l')) = Data CONTROL_ID q
      \<and> parse_control q = Some (Window sid b) \<and> grant_credit (unat b) (cl_send l') = Some c"
    if "pe_out (cl_recv l') \<noteq> []"
  proof -
    from that out obtain b bs' where bs: "bs = b # bs'" by (cases bs) auto
    have le: "b \<le> FC_WINDOW - a" "b < 2 ^ 32" using bal bs by (simp_all add: flow_consts)
    then have "grant_credit (unat (word_of_nat b :: u32)) (cl_send l') \<noteq> None"
      using a by (simp add: grant_credit_def unat_of_nat)
    moreover have "hd (pe_out (cl_recv l')) = Data CONTROL_ID ([CTL_WINDOW] @ u32_be sid @ u32_be (word_of_nat b))"
      using out bs by (simp add: window_frame_def)
    ultimately show ?thesis using parse_window by blast
  qed
  ultimately show ?thesis using a out bal by blast
qed

lemma credit_start_example: "credit_start 1 \<lparr>cl_send = inbound_queue True, cl_data = [],
     cl_recv = \<lparr>pe_pump = pump_start 1 0 (secs 300), pe_cell = inbound_queue True, pe_session = None, pe_out = []\<rparr>\<rparr>"
  by (auto simp: credit_start_def)

theorem stream_credit_conserved_witness:
  "\<exists>l c. credit_start 1 l \<and> deliver (hd [[1, 2, 3]]) (pe_cell (cl_recv l)) = Some (True, c)"
proof -
  let ?l = "\<lparr>cl_send = inbound_queue True, cl_data = [],
     cl_recv = \<lparr>pe_pump = pump_start 1 0 (secs 300), pe_cell = inbound_queue True, pe_session = None, pe_out = []\<rparr>\<rparr>"
  let ?l' = "?l\<lparr>cl_send := (inbound_queue True)\<lparr>sc_avail := Some (FC_WINDOW - 3), sc_held := 0\<rparr>, cl_data := [[1, 2, 3]]\<rparr>"
  have "acquire_credit (length [1, 2, 3 :: byte]) (cl_send ?l)
      = Some ((inbound_queue True)\<lparr>sc_avail := Some (FC_WINDOW - 3), sc_held := 0\<rparr>)"
    by (simp add: acquire_credit_def inbound_queue_def flow_consts)
  from cs_send [OF _ _ this] have "credit_step ?l ?l'" by (simp add: flow_consts)
  then have "credit_step\<^sup>*\<^sup>* ?l ?l'" by (rule r_into_rtranclp)
  from stream_credit_conserved [OF credit_start_example this] show ?thesis
    by (intro exI [of _ ?l]) (auto simp: credit_start_example)
qed

text \<open>
  C6: The credit of a stream never wedges: in every reachable state in which a pump waits for a
  chunk's credit, data is on its way, or waits in the receiver's queue, or credit is on its way
  back. (The receiver holds back less than half a window, and a chunk is a sixteenth of one.)
\<close>

theorem stream_credit_no_stall:
  assumes "credit_start sid l" "credit_step\<^sup>*\<^sup>* l l'" "n \<le> DATA_CHUNK_LEN" "acquire_credit n (cl_send l') = None"
  shows "cl_data l' \<noteq> [] \<or> sc_queue (pe_cell (cl_recv l')) \<noteq> [] \<or> pe_out (cl_recv l') \<noteq> []"
proof (rule ccontr)
  assume none: "\<not> ?thesis"
  have inv: "credit_inv sid l'" using credit_reach_inv [OF assms(2) credit_start_inv [OF assms(1)]] .
  then obtain a bs where a: "sc_avail (cl_send l') = Some a"
    and out: "pe_out (cl_recv l') = map (\<lambda>b. window_frame sid (word_of_nat b)) bs"
    and bal: "a + sc_held (cl_send l') + sum_list (map length (cl_data l')) + queued_bytes (pe_cell (cl_recv l'))
                + pu_unreported (pe_pump (cl_recv l')) + sum_list bs = FC_WINDOW"
    and "pu_unreported (pe_pump (cl_recv l')) < FC_WINDOW div 2"
    unfolding credit_inv_def Let_def by auto
  then have "n \<le> a + sc_held (cl_send l')" using none assms(3) by (simp add: queued_bytes_def flow_consts)
  then show False using a assms(4) by (simp add: acquire_credit_def)
qed

definition example_link :: "nat \<Rightarrow> credit_link" where
  "example_link k = \<lparr>cl_send = (inbound_queue True)\<lparr>sc_avail := Some (FC_WINDOW - k * DATA_CHUNK_LEN), sc_held := 0\<rparr>,
     cl_data = replicate k (replicate DATA_CHUNK_LEN 0),
     cl_recv = \<lparr>pe_pump = pump_start 1 0 (secs 300), pe_cell = inbound_queue True, pe_session = None, pe_out = []\<rparr>\<rparr>"

lemma example_link_reach: "k \<le> 16 \<Longrightarrow> credit_step\<^sup>*\<^sup>* (example_link 0) (example_link k)"
proof (induction k)
  case (Suc k)
  let ?p = "replicate DATA_CHUNK_LEN (0 :: byte)"
  have "acquire_credit (length ?p) (cl_send (example_link k)) = Some (cl_send (example_link (Suc k)))"
    using Suc.prems by (simp add: acquire_credit_def example_link_def inbound_queue_def flow_consts)
  from cs_send [OF _ _ this] have "credit_step (example_link k) (example_link (Suc k))"
    by (simp add: example_link_def DATA_CHUNK_LEN_def replicate_append_same)
  with Suc show ?case by (simp add: rtranclp.rtrancl_into_rtrancl)
qed simp

theorem stream_credit_no_stall_witness:
  "acquire_credit DATA_CHUNK_LEN (cl_send (example_link 16)) = None
   \<and> (\<exists>p x f. p \<in> set (cl_data (example_link 16)) \<or> x \<in> set (sc_queue (pe_cell (cl_recv (example_link 16))))
      \<or> f \<in> set (pe_out (cl_recv (example_link 16))))"
proof -
  have st: "credit_start 1 (example_link 0)"
    by (auto simp: credit_start_def example_link_def inbound_queue_def)
  have none: "acquire_credit DATA_CHUNK_LEN (cl_send (example_link 16)) = None"
    by (simp add: acquire_credit_def example_link_def flow_consts)
  from stream_credit_no_stall [OF st example_link_reach [OF order_refl] order_refl none] none show ?thesis
    by (meson hd_in_set)
qed

text \<open>
  A peer that grants credit at will cannot raise a stream's credit above the window: any
  sequence of \<open>WINDOW\<close> messages that the engine takes sums up to what had been spent, and one
  byte more than that resets the stream.
\<close>

theorem stream_credit_bounded:
  assumes "credit_wf c" "repay_all grant_credit ns c = Some c'"
  shows "credit_wf c' \<and> credit_spent c' + sum_list ns = credit_spent c \<and> sum_list ns \<le> FC_WINDOW
    \<and> grant_credit (credit_spent c' + 1) c' = None"
  using sc.repay_all_sound [OF assms] sc.repay_all_bound [OF assms] sc.repay_iff [of c' "credit_spent c' + 1"]
  by auto

theorem stream_credit_bounded_witness:
  "\<exists>c c'. repay_all grant_credit [10, 20] c = Some c' \<and> credit_wf c' \<and> sum_list [10, 20 :: nat] \<le> FC_WINDOW"
proof -
  let ?c = "(inbound_queue True)\<lparr>sc_avail := Some 100\<rparr>"
  have wf: "credit_wf ?c" by (simp add: credit_wf_def flow_consts)
  obtain c' where c': "repay_all grant_credit [10, 20] ?c = Some c'" by (simp add: grant_credit_def flow_consts)
  from stream_credit_bounded [OF wf c'] c' show ?thesis by blast
qed

definition writer_moved :: "grace \<Rightarrow> bool" where
  "writer_moved g = (case g of GraceOver (Some (before, now)) \<Rightarrow> now \<noteq> before | _ \<Rightarrow> False)"

lemma first_split:
  "(\<exists>pre y post. x # xs = pre @ y # post \<and> list_all Q pre \<and> P y) \<longleftrightarrow>
     P x \<or> Q x \<and> (\<exists>pre y post. xs = pre @ y # post \<and> list_all Q pre \<and> P y)"  (is "?l \<longleftrightarrow> ?r")
proof
  assume ?l
  then obtain pre y post where "x # xs = pre @ y # post" "list_all Q pre" "P y" by blast
  then show ?r by (cases pre) auto
next
  assume ?r
  then show ?l
  proof
    assume "P x"
    then show ?l by (intro exI [of _ "[]"]) simp
  next
    assume "Q x \<and> (\<exists>pre y post. xs = pre @ y # post \<and> list_all Q pre \<and> P y)"
    then obtain pre y post where "Q x" "xs = pre @ y # post" "list_all Q pre" "P y" by blast
    then show ?l by (intro exI [of _ "x # pre"]) simp
  qed
qed

text \<open>
  A frame that has to wait for room is given up only if the queue is closed or a whole grace
  passed in which the session's writer wrote nothing (or outside a session, after one grace); as
  long as the writer goes on, so does the wait.
\<close>

theorem send_or_drop_verdict:
  "send_or_drop TsFull gs = Some b \<longleftrightarrow>
     (\<exists>pre g post. gs = pre @ g # post \<and> list_all writer_moved pre \<and> \<not> writer_moved g \<and> b = (g = GotRoom))"
proof (induction gs)
  case (Cons g gs)
  let ?P = "\<lambda>g. \<not> writer_moved g \<and> b = (g = GotRoom)"
  have "(\<exists>pre g' post. g # gs = pre @ g' # post \<and> list_all writer_moved pre \<and> ?P g') \<longleftrightarrow>
      ?P g \<or> writer_moved g \<and> (\<exists>pre g' post. gs = pre @ g' # post \<and> list_all writer_moved pre \<and> ?P g')"
    by (rule first_split)
  moreover have "send_or_drop TsFull (g # gs) = Some b \<longleftrightarrow> ?P g \<or> writer_moved g \<and> send_or_drop TsFull gs = Some b"
    by (cases g) (auto simp: send_or_drop_def writer_moved_def split: option.split)
  ultimately show ?case using Cons.IH by simp
qed (simp add: send_or_drop_def)

end
