(* ===== verification/Net.thy ===== *)
theory Net
  imports Rust_Text
begin

text \<open>
  The address types of \<^verbatim>\<open>std::net\<close> that the agent parses, prints and compares: IPv4 as four octets,
  IPv6 as eight groups, the recursive-descent parser of \<^verbatim>\<open>IpAddr::from_str\<close> and
  \<^verbatim>\<open>SocketAddr::from_str\<close>, and \<^verbatim>\<open>Display\<close>. On top of them \<^verbatim>\<open>native/src/ladder.rs\<close>.
\<close>

section \<open>Addresses\<close>

datatype ip_addr =
    V4 nat nat nat nat
  | V6 "nat list"

record socket_addr =
  sa_ip :: ip_addr
  sa_port :: nat

fun ip_wf :: "ip_addr \<Rightarrow> bool" where
  "ip_wf (V4 a b c d) = (a < 256 \<and> b < 256 \<and> c < 256 \<and> d < 256)"
| "ip_wf (V6 gs) = (length gs = 8 \<and> list_all (\<lambda>g. g < 65536) gs)"

fun is_loopback :: "ip_addr \<Rightarrow> bool" where
  "is_loopback (V4 a b c d) = (a = 127)"
| "is_loopback (V6 gs) = (gs = [0, 0, 0, 0, 0, 0, 0, 1])"

section \<open>Parsing\<close>

definition hex_val :: "char \<Rightarrow> nat option" where
  "hex_val c =
     (if is_ascii_digit c then Some (byte_of c - 48)
      else if 97 \<le> byte_of c \<and> byte_of c \<le> 102 then Some (byte_of c - 87)
      else if 65 \<le> byte_of c \<and> byte_of c \<le> 70 then Some (byte_of c - 55)
      else None)"

definition digit_val :: "nat \<Rightarrow> char \<Rightarrow> nat option" where
  "digit_val radix c = (case hex_val c of None \<Rightarrow> None | Some d \<Rightarrow> if d < radix then Some d else None)"

text \<open>
  \<^verbatim>\<open>Parser::read_number\<close>: the longest run of digits, at most \<open>max_digits\<close> of them if bounded, a leading
  zero only alone unless \<open>zero_prefix\<close>, and the value below \<open>bound\<close>.
\<close>

definition read_number :: "nat \<Rightarrow> nat option \<Rightarrow> bool \<Rightarrow> nat \<Rightarrow> string \<Rightarrow> (nat \<times> string) option" where
  "read_number radix max_digits zero_prefix bound s =
     (let ds = takeWhile (\<lambda>c. digit_val radix c \<noteq> None) s;
          v = foldl (\<lambda>a c. a * radix + the (digit_val radix c)) 0 ds
      in if ds = [] \<or> (case max_digits of None \<Rightarrow> False | Some m \<Rightarrow> m < length ds)
            \<or> (\<not> zero_prefix \<and> hd ds = CHR ''0'' \<and> 1 < length ds) \<or> bound \<le> v
         then None else Some (v, drop (length ds) s))"

definition read_char_given :: "char \<Rightarrow> string \<Rightarrow> string option" where
  "read_char_given c s = (case s of [] \<Rightarrow> None | x # r \<Rightarrow> if x = c then Some r else None)"

text \<open>\<^verbatim>\<open>read_separator\<close>: the separator before every item but the first.\<close>

definition read_separator :: "char \<Rightarrow> nat \<Rightarrow> (string \<Rightarrow> ('a \<times> string) option) \<Rightarrow> string \<Rightarrow> ('a \<times> string) option" where
  "read_separator sep i inner s =
     (if i = 0 then inner s else (case read_char_given sep s of None \<Rightarrow> None | Some r \<Rightarrow> inner r))"

definition read_octet :: "string \<Rightarrow> (nat \<times> string) option" where
  "read_octet s = read_number 10 (Some 3) False 256 s"

definition read_ipv4 :: "string \<Rightarrow> ((nat \<times> nat \<times> nat \<times> nat) \<times> string) option" where
  "read_ipv4 s =
     (case read_separator CHR ''.'' 0 read_octet s of None \<Rightarrow> None
      | Some (a, s1) \<Rightarrow> (case read_separator CHR ''.'' 1 read_octet s1 of None \<Rightarrow> None
        | Some (b, s2) \<Rightarrow> (case read_separator CHR ''.'' 2 read_octet s2 of None \<Rightarrow> None
          | Some (c, s3) \<Rightarrow> (case read_separator CHR ''.'' 3 read_octet s3 of None \<Rightarrow> None
            | Some (d, s4) \<Rightarrow> Some ((a, b, c, d), s4)))))"

text \<open>
  \<^verbatim>\<open>read_groups\<close> with \<open>left\<close> groups still allowed, the \<open>i\<close>-th being read: the groups read, whether
  they end in an embedded IPv4 address, and the rest of the input.
\<close>

fun read_groups :: "nat \<Rightarrow> nat \<Rightarrow> string \<Rightarrow> nat list \<times> bool \<times> string" where
  "read_groups i 0 s = ([], False, s)"
| "read_groups i (Suc left) s =
     (case (if 0 < left then read_separator CHR '':'' i read_ipv4 s else None) of
        Some ((a, b, c, d), r) \<Rightarrow> ([a * 256 + b, c * 256 + d], True, r)
      | None \<Rightarrow>
          (case read_separator CHR '':'' i (read_number 16 (Some 4) True 65536) s of
             None \<Rightarrow> ([], False, s)
           | Some (g, r) \<Rightarrow>
               (case read_groups (Suc i) left r of (gs, v4, r2) \<Rightarrow> (g # gs, v4, r2))))"

definition read_ipv6 :: "string \<Rightarrow> (nat list \<times> string) option" where
  "read_ipv6 s =
     (case read_groups 0 8 s of (head, head_v4, r) \<Rightarrow>
        if length head = 8 then Some (head, r)
        else if head_v4 then None
        else (case read_char_given CHR '':'' r of None \<Rightarrow> None
          | Some r1 \<Rightarrow> (case read_char_given CHR '':'' r1 of None \<Rightarrow> None
            | Some r2 \<Rightarrow>
                (case read_groups 0 (8 - (length head + 1)) r2 of (tail, _, r3) \<Rightarrow>
                   Some (head @ replicate (8 - length head - length tail) 0 @ tail, r3)))))"

definition read_ip :: "string \<Rightarrow> (ip_addr \<times> string) option" where
  "read_ip s =
     (case read_ipv4 s of Some ((a, b, c, d), r) \<Rightarrow> Some (V4 a b c d, r)
      | None \<Rightarrow> (case read_ipv6 s of Some (gs, r) \<Rightarrow> Some (V6 gs, r) | None \<Rightarrow> None))"

text \<open>\<^verbatim>\<open>IpAddr::from_str\<close>: the whole input must be consumed.\<close>

definition parse_ip :: "string \<Rightarrow> ip_addr option" where
  "parse_ip s = (case read_ip s of Some (ip, []) \<Rightarrow> Some ip | _ \<Rightarrow> None)"

definition read_port :: "string \<Rightarrow> (nat \<times> string) option" where
  "read_port s = (case read_char_given CHR '':'' s of None \<Rightarrow> None
     | Some r \<Rightarrow> read_number 10 None True 65536 r)"

definition read_scope_id :: "string \<Rightarrow> string" where
  "read_scope_id s =
     (case read_char_given CHR ''%'' s of None \<Rightarrow> s
      | Some r \<Rightarrow> (case read_number 10 None True (2 ^ 32) r of None \<Rightarrow> s | Some (_, r2) \<Rightarrow> r2))"

text \<open>
  \<^verbatim>\<open>SocketAddr::from_str\<close>; the scope id of an IPv6 socket address is read and not kept, since no
  caller here looks at it.
\<close>

definition parse_socket_addr :: "string \<Rightarrow> socket_addr option" where
  "parse_socket_addr s =
     (case (case read_ipv4 s of None \<Rightarrow> None
            | Some ((a, b, c, d), r) \<Rightarrow> map_option (\<lambda>(p, r2). (V4 a b c d, p, r2)) (read_port r)) of
        Some (ip, p, r) \<Rightarrow> if r = [] then Some \<lparr>sa_ip = ip, sa_port = p\<rparr> else None
      | None \<Rightarrow>
          (case read_char_given CHR ''['' s of None \<Rightarrow> None
           | Some r1 \<Rightarrow> (case read_ipv6 r1 of None \<Rightarrow> None
             | Some (gs, r2) \<Rightarrow> (case read_char_given CHR '']'' (read_scope_id r2) of None \<Rightarrow> None
               | Some r3 \<Rightarrow> (case read_port r3 of Some (p, []) \<Rightarrow> Some \<lparr>sa_ip = V6 gs, sa_port = p\<rparr>
                   | _ \<Rightarrow> None)))))"

section \<open>Printing\<close>

definition hex_char :: "nat \<Rightarrow> char" where
  "hex_char n = (if n < 10 then char_of (48 + n) else char_of (87 + n))"

fun show_hex :: "nat \<Rightarrow> string" where
  "show_hex n = (if n < 16 then [hex_char n] else show_hex (n div 16) @ [hex_char (n mod 16)])"

declare show_hex.simps [simp del]

fun join :: "string \<Rightarrow> string list \<Rightarrow> string" where
  "join sep [] = []"
| "join sep [x] = x"
| "join sep (x # xs) = x @ sep @ join sep xs"

text \<open>The first longest run of zero groups, as (start, length).\<close>

fun zero_span :: "nat \<Rightarrow> nat list \<Rightarrow> nat \<times> nat \<Rightarrow> nat \<times> nat \<Rightarrow> nat \<times> nat" where
  "zero_span i [] longest current = longest"
| "zero_span i (g # gs) longest current =
     (if g = 0
      then (let c = (if snd current = 0 then (i, 1) else (fst current, snd current + 1))
            in zero_span (Suc i) gs (if snd longest < snd c then c else longest) c)
      else zero_span (Suc i) gs longest (0, 0))"

definition show_v4 :: "nat \<Rightarrow> nat \<Rightarrow> nat \<Rightarrow> nat \<Rightarrow> string" where
  "show_v4 a b c d = show_nat a @ ''.'' @ show_nat b @ ''.'' @ show_nat c @ ''.'' @ show_nat d"

definition show_v6 :: "nat list \<Rightarrow> string" where
  "show_v6 gs =
     (if length gs = 8 \<and> take 6 gs = [0, 0, 0, 0, 0, 65535]
      then ''::ffff:'' @ show_v4 (gs ! 6 div 256) (gs ! 6 mod 256) (gs ! 7 div 256) (gs ! 7 mod 256)
      else (case zero_span 0 gs (0, 0) (0, 0) of (start, len) \<Rightarrow>
        if 1 < len
        then join '':'' (map show_hex (take start gs)) @ ''::'' @ join '':'' (map show_hex (drop (start + len) gs))
        else join '':'' (map show_hex gs)))"

fun show_ip :: "ip_addr \<Rightarrow> string" where
  "show_ip (V4 a b c d) = show_v4 a b c d"
| "show_ip (V6 gs) = show_v6 gs"

section \<open>ladder.rs\<close>

datatype edge_rung = Quic socket_addr | TlsTcp socket_addr

definition edge_ladder :: "socket_addr \<Rightarrow> bool \<Rightarrow> edge_rung list" where
  "edge_ladder edge fallback_443 =
     [Quic edge, TlsTcp edge]
     @ (if fallback_443 \<and> sa_port edge \<noteq> 443 then [TlsTcp \<lparr>sa_ip = sa_ip edge, sa_port = 443\<rparr>] else [])"

definition tcp_rungs :: "socket_addr \<Rightarrow> bool \<Rightarrow> socket_addr list" where
  "tcp_rungs edge fallback_443 =
     List.map_filter (\<lambda>r. case r of TlsTcp a \<Rightarrow> Some a | Quic _ \<Rightarrow> None) (edge_ladder edge fallback_443)"

section \<open>Lemmas\<close>

lemma digit_val_10: "digit_val 10 c = (if is_ascii_digit c then Some (byte_of c - 48) else None)"
  by (auto simp: digit_val_def hex_val_def is_ascii_digit_def)

lemma foldl_dec: "list_all is_ascii_digit ds \<Longrightarrow>
   foldl (\<lambda>a c. a * 10 + the (digit_val 10 c)) acc ds = dec_value acc ds"
  by (induction ds arbitrary: acc) (auto simp: digit_val_10)

definition digit_free_head :: "string \<Rightarrow> bool" where
  "digit_free_head r = (case r of [] \<Rightarrow> True | c # _ \<Rightarrow> \<not> is_ascii_digit c)"

lemma takeWhile_digits:
  assumes "list_all is_ascii_digit ds" and "digit_free_head r"
  shows "takeWhile (\<lambda>c. digit_val 10 c \<noteq> None) (ds @ r) = ds"
  using assms
  by (induction ds) (auto simp: digit_val_10 digit_free_head_def split: list.splits)

lemma show_nat_hd: "1 < length (show_nat n) \<Longrightarrow> hd (show_nat n) \<noteq> CHR ''0''"
proof (induction n rule: show_nat.induct)
  case (1 n)
  show ?case
  proof (cases "n < 10")
    case True
    then show ?thesis using "1.prems" by (simp add: show_nat.simps [of n])
  next
    case False
    then have e: "show_nat n = show_nat (n div 10) @ [digit_char (n mod 10)]"
      by (simp add: show_nat.simps [of n])
    show ?thesis
    proof (cases "n div 10 < 10")
      case True
      then have "hd (show_nat n) = digit_char (n div 10)" using e by (simp add: show_nat.simps [of "n div 10"])
      then have "byte_of (hd (show_nat n)) = 48 + n div 10" using True by simp
      moreover have "n div 10 \<noteq> 0" using False by simp
      moreover have "byte_of (CHR ''0'') = 48" by simp
      ultimately show ?thesis by (metis add_cancel_right_right)
    next
      case big: False
      then have "show_nat (n div 10) = show_nat (n div 10 div 10) @ [digit_char (n div 10 mod 10)]"
        by (simp add: show_nat.simps [of "n div 10"])
      then have "1 < length (show_nat (n div 10))"
        using show_nat_nonempty [of "n div 10 div 10"] by (cases "show_nat (n div 10 div 10)") auto
      with 1 False e show ?thesis by simp
    qed
  qed
qed

lemma length_show_nat: "n < 10 ^ k \<Longrightarrow> 0 < k \<Longrightarrow> length (show_nat n) \<le> k"
proof (induction k arbitrary: n)
  case (Suc k)
  show ?case
  proof (cases "n < 10")
    case True
    then show ?thesis by (simp add: show_nat.simps [of n])
  next
    case False
    with Suc.prems have "n div 10 < 10 ^ k" "0 < k" by (auto simp: less_mult_imp_div_less) (cases k; simp)
    with Suc.IH have "length (show_nat (n div 10)) \<le> k" by blast
    with False show ?thesis by (simp add: show_nat.simps [of n])
  qed
qed simp

lemma read_octet_show:
  assumes "n < 256" and "digit_free_head r"
  shows "read_octet (show_nat n @ r) = Some (n, r)"
proof -
  have ds: "takeWhile (\<lambda>c. digit_val 10 c \<noteq> None) (show_nat n @ r) = show_nat n"
    by (rule takeWhile_digits [OF show_nat_digits assms(2)])
  have "length (show_nat n) \<le> 3" using length_show_nat [of n 3] assms(1) by simp
  moreover have "foldl (\<lambda>a c. a * 10 + the (digit_val 10 c)) 0 (show_nat n) = n"
    using foldl_dec [OF show_nat_digits] dec_value_show_nat by simp
  ultimately show ?thesis
    using assms(1) show_nat_hd [of n] unfolding read_octet_def read_number_def Let_def ds by auto
qed

lemma read_ipv4_show:
  assumes "a < 256" "b < 256" "c < 256" "d < 256" "digit_free_head r"
  shows "read_ipv4 (show_v4 a b c d @ r) = Some ((a, b, c, d), r)"
proof -
  have dot: "digit_free_head (CHR ''.'' # x)" for x by (simp add: digit_free_head_def is_ascii_digit_def)
  show ?thesis
    using assms by (simp add: read_ipv4_def show_v4_def read_separator_def read_char_given_def read_octet_show dot)
qed

lemma parse_ip_show_v4:
  "ip_wf (V4 a b c d) \<Longrightarrow> parse_ip (show_ip (V4 a b c d)) = Some (V4 a b c d)"
  using read_ipv4_show [of a b c d "[]"]
  by (simp add: parse_ip_def read_ip_def digit_free_head_def)

section \<open>An IPv6 address is read back from its text\<close>

definition hex_free_head :: "string \<Rightarrow> bool" where
  "hex_free_head r = (case r of [] \<Rightarrow> True | c # _ \<Rightarrow> hex_val c = None)"

lemma digit_val_16: "digit_val 16 c = hex_val c"
  by (auto simp: digit_val_def hex_val_def is_ascii_digit_def split: option.split if_splits)

lemma hex_val_hex_char [simp]: "n < 16 \<Longrightarrow> hex_val (hex_char n) = Some n"
  by (auto simp: hex_char_def hex_val_def is_ascii_digit_def)

lemma show_hex_Cons: "\<not> n < 16 \<Longrightarrow> show_hex n = show_hex (n div 16) @ [hex_char (n mod 16)]"
  by (simp add: show_hex.simps [of n])

lemma show_hex_nonempty [simp]: "show_hex n \<noteq> []"
  by (subst show_hex.simps) simp

lemma show_hex_digits: "list_all (\<lambda>c. hex_val c \<noteq> None) (show_hex n)"
proof (induction n rule: show_hex.induct)
  case (1 n)
  then show ?case by (subst show_hex.simps) auto
qed

lemma show_hex_value: "foldl (\<lambda>a c. a * 16 + the (hex_val c)) 0 (show_hex n) = n"
proof (induction n rule: show_hex.induct)
  case (1 n)
  then show ?case by (cases "n < 16") (simp_all add: show_hex.simps [of n])
qed

lemma length_show_hex: "n < 16 ^ k \<Longrightarrow> 0 < k \<Longrightarrow> length (show_hex n) \<le> k"
proof (induction k arbitrary: n)
  case (Suc k)
  show ?case
  proof (cases "n < 16")
    case True
    then show ?thesis by (simp add: show_hex.simps [of n])
  next
    case False
    with Suc.prems have "n div 16 < 16 ^ k" "0 < k" by (auto simp: less_mult_imp_div_less) (cases k; simp)
    with Suc.IH have "length (show_hex (n div 16)) \<le> k" by blast
    with False show ?thesis by (simp add: show_hex_Cons)
  qed
qed simp

lemma takeWhile_hex:
  assumes "list_all (\<lambda>c. hex_val c \<noteq> None) ds" and "hex_free_head r"
  shows "takeWhile (\<lambda>c. hex_val c \<noteq> None) (ds @ r) = ds"
  using assms by (induction ds) (auto simp: hex_free_head_def split: list.splits)

lemma read_group_show:
  assumes "g < 65536" and "hex_free_head r"
  shows "read_number 16 (Some 4) True 65536 (show_hex g @ r) = Some (g, r)"
proof -
  have ds: "takeWhile (\<lambda>c. hex_val c \<noteq> None) (show_hex g @ r) = show_hex g"
    by (rule takeWhile_hex [OF show_hex_digits assms(2)])
  have "length (show_hex g) \<le> 4" using length_show_hex [of g 4] assms(1) by simp
  then show ?thesis
    using assms(1) show_hex_value [of g] unfolding read_number_def Let_def digit_val_16 ds by auto
qed

lemma read_number_10_rest:
  assumes "read_number 10 m z b s = Some (v, r)"
  shows "r = dropWhile is_ascii_digit s"
proof -
  have "(\<lambda>c. digit_val 10 c \<noteq> None) = is_ascii_digit" by (auto simp: digit_val_10)
  with assms show ?thesis
    by (auto simp: read_number_def Let_def dropWhile_eq_drop split: if_splits)
qed

lemma read_ipv4_dot:
  assumes "read_ipv4 s = Some x"
  shows "\<exists>t. dropWhile is_ascii_digit s = CHR ''.'' # t"
proof -
  from assms obtain a s1 where a: "read_octet s = Some (a, s1)"
    and "read_separator CHR ''.'' 1 read_octet s1 \<noteq> None"
    by (auto simp: read_ipv4_def read_separator_def split: option.splits)
  then obtain t where "s1 = CHR ''.'' # t"
    by (auto simp: read_separator_def read_char_given_def split: list.splits if_splits)
  with read_number_10_rest [OF a [unfolded read_octet_def]] show ?thesis by metis
qed

lemma hex_val_char [simp]: "hex_val CHR '':'' = None" "hex_val CHR ''.'' = None"
  by (simp_all add: hex_val_def is_ascii_digit_def)

lemma read_ipv4_group:
  assumes "r = [] \<or> hd r = CHR '':''"
  shows "read_ipv4 (show_hex g @ r) = None"
proof (rule ccontr)
  assume "read_ipv4 (show_hex g @ r) \<noteq> None"
  then obtain t where t: "dropWhile is_ascii_digit (show_hex g @ r) = CHR ''.'' # t"
    using read_ipv4_dot by blast
  have "dropWhile is_ascii_digit (ds @ r) \<noteq> CHR ''.'' # u"
    if "list_all (\<lambda>c. hex_val c \<noteq> None) ds" for ds u
    using that
  proof (induction ds)
    case Nil
    show ?case
    proof (cases r)
      case (Cons x xs)
      with assms have "r = CHR '':'' # xs" by simp
      then show ?thesis by (simp add: is_ascii_digit_def)
    qed simp
  next
    case (Cons c ds)
    then have "hex_val c \<noteq> None" and ih: "dropWhile is_ascii_digit (ds @ r) \<noteq> CHR ''.'' # u" by simp_all
    then have "c \<noteq> CHR ''.''" by (metis hex_val_char(2))
    with ih show ?case by (simp only: append_Cons dropWhile.simps list.inject split: if_split) blast
  qed
  from this [OF show_hex_digits] t show False by blast
qed

fun groups_text :: "nat \<Rightarrow> nat list \<Rightarrow> string" where
  "groups_text i [] = []"
| "groups_text i (g # gs) = (if i = 0 then [] else '':'') @ show_hex g @ groups_text (Suc i) gs"

lemma groups_text_Suc:
  "groups_text (Suc i) gs = (if gs = [] then [] else '':'' @ join '':'' (map show_hex gs))"
proof (induction gs arbitrary: i)
  case (Cons g gs)
  then show ?case by (cases gs) simp_all
qed simp

lemma join_groups_text: "join '':'' (map show_hex gs) = groups_text 0 gs"
proof (cases gs)
  case (Cons g gs')
  then show ?thesis using groups_text_Suc [of 0 gs'] by (cases gs') simp_all
qed simp

definition stops :: "string \<Rightarrow> bool" where
  "stops r = (r = [] \<or> (\<exists>t. r = ''::'' @ t))"

lemma read_number_16_colon: "read_number 16 m z b (CHR '':'' # t) = None"
  by (simp add: read_number_def digit_val_16)

lemma read_ipv4_colon: "read_ipv4 (CHR '':'' # t) = None"
  using read_ipv4_dot [of "CHR '':'' # t"] by (auto simp: is_ascii_digit_def intro: ccontr)

lemma read_ipv4_Nil [simp]: "read_ipv4 [] = None"
  using read_ipv4_dot [of "[]"] by (auto intro: ccontr)

lemma read_number_Nil [simp]: "read_number n m z b [] = None"
  by (simp add: read_number_def)

lemma read_groups_stop: "stops r \<Longrightarrow> read_groups i left r = ([], False, r)"
  by (cases left)
     (auto simp: stops_def read_separator_def read_char_given_def read_number_16_colon read_ipv4_colon)

lemma read_groups_text:
  assumes "list_all (\<lambda>g. g < 65536) gs" and "length gs \<le> left" and "stops r"
  shows "read_groups i left (groups_text i gs @ r) = (gs, False, r)"
  using assms
proof (induction gs arbitrary: i left)
  case Nil
  then show ?case by (simp add: read_groups_stop)
next
  case (Cons g gs)
  then obtain l where l: "left = Suc l" "length gs \<le> l" by (cases left) auto
  let ?r = "groups_text (Suc i) gs @ r"
  have "?r = [] \<or> hd ?r = CHR '':''"
    using Cons.prems(3) by (cases gs) (auto simp: stops_def)
  moreover from this have "hex_free_head ?r" by (cases ?r) (auto simp: hex_free_head_def)
  ultimately have "read_ipv4 (show_hex g @ ?r) = None"
    and "read_number 16 (Some 4) True 65536 (show_hex g @ ?r) = Some (g, ?r)"
    using read_ipv4_group read_group_show Cons.prems(1) by auto
  moreover have "read_groups (Suc i) l ?r = (gs, False, r)"
    using Cons l by simp
  ultimately show ?case
    using l(2) by (cases "i = 0") (auto simp: l(1) read_separator_def read_char_given_def)
qed

text \<open>The span of zero groups that is printed as \<open>::\<close> consists of zeros.\<close>

lemma zero_span_zeros:
  assumes "fst longest + snd longest \<le> length pre" "fst current + snd current \<le> length pre"
    "\<forall>j. fst longest \<le> j \<and> j < fst longest + snd longest \<longrightarrow> (pre @ gs) ! j = 0"
    "\<forall>j. fst current \<le> j \<and> j < fst current + snd current \<longrightarrow> (pre @ gs) ! j = 0"
    "snd current \<noteq> 0 \<longrightarrow> fst current + snd current = length pre"
    "zero_span (length pre) gs longest current = (s, l)"
  shows "s + l \<le> length (pre @ gs) \<and> (\<forall>j. s \<le> j \<and> j < s + l \<longrightarrow> (pre @ gs) ! j = 0)"
  using assms
proof (induction gs arbitrary: pre longest current)
  case Nil
  then show ?case by auto
next
  case (Cons g gs)
  have app: "pre @ g # gs = (pre @ [g]) @ gs" by simp
  show ?case
  proof (cases "g = 0")
    case False
    then show ?thesis
      using Cons.IH [of longest "pre @ [g]" "(0, 0)"] Cons.prems by simp
  next
    case True
    define c where "c = (if snd current = 0 then (length pre, 1) else (fst current, snd current + 1))"
    have c: "fst c + snd c = length (pre @ [g])" "snd c \<noteq> 0"
      using Cons.prems(5) by (auto simp: c_def)
    have cz: "\<forall>j. fst c \<le> j \<and> j < fst c + snd c \<longrightarrow> ((pre @ [g]) @ gs) ! j = 0"
    proof (intro allI impI)
      fix j assume j: "fst c \<le> j \<and> j < fst c + snd c"
      show "((pre @ [g]) @ gs) ! j = 0"
      proof (cases "j = length pre")
        case True
        then show ?thesis using \<open>g = 0\<close> by (simp add: nth_append)
      next
        case False
        then show ?thesis using Cons.prems(4,5) j by (auto simp: c_def split: if_splits)
      qed
    qed
    let ?l = "if snd longest < snd c then c else longest"
    have "zero_span (length (pre @ [g])) gs ?l c = (s, l)"
      using Cons.prems(6) True unfolding c_def by (simp add: Let_def)
    moreover have "fst ?l + snd ?l \<le> length (pre @ [g])" using Cons.prems(1) c by auto
    moreover have "\<forall>j. fst ?l \<le> j \<and> j < fst ?l + snd ?l \<longrightarrow> ((pre @ [g]) @ gs) ! j = 0"
      using Cons.prems(3) cz by auto
    ultimately have "s + l \<le> length ((pre @ [g]) @ gs) \<and>
        (\<forall>j. s \<le> j \<and> j < s + l \<longrightarrow> ((pre @ [g]) @ gs) ! j = 0)"
      using c(1) cz by (intro Cons.IH [of ?l "pre @ [g]" c]) simp_all
    then show ?thesis by (simp only: app) simp
  qed
qed

lemma zero_span_split:
  assumes "zero_span 0 gs (0, 0) (0, 0) = (s, l)"
  shows "s + l \<le> length gs \<and> gs = take s gs @ replicate l 0 @ drop (s + l) gs"
proof -
  have z: "s + l \<le> length gs \<and> (\<forall>j. s \<le> j \<and> j < s + l \<longrightarrow> gs ! j = 0)"
    using zero_span_zeros [of "(0, 0)" "[]" "(0, 0)" gs s l] assms by simp
  then have "take l (drop s gs) = replicate l 0"
    by (intro nth_equalityI) auto
  then have "drop s gs = replicate l 0 @ drop (s + l) gs"
    by (metis add.commute append_take_drop_id drop_drop)
  then show ?thesis using z by (metis append_take_drop_id)
qed

lemma read_ipv6_join:
  assumes "list_all (\<lambda>g. g < 65536) gs" and "length gs = 8"
  shows "read_ipv6 (groups_text 0 gs) = Some (gs, [])"
  using read_groups_text [of gs 8 "[]" 0] assms by (simp add: read_ipv6_def stops_def)

lemma read_ipv6_elided:
  assumes "list_all (\<lambda>g. g < 65536) (a @ b)" and "length a + length b < 8"
  shows "read_ipv6 (groups_text 0 a @ ''::'' @ groups_text 0 b)
           = Some (a @ replicate (8 - length a - length b) 0 @ b, [])"
proof -
  have "read_groups 0 8 (groups_text 0 a @ ''::'' @ groups_text 0 b) = (a, False, ''::'' @ groups_text 0 b)"
    using assms by (intro read_groups_text) (auto simp: stops_def)
  moreover have "read_groups 0 (8 - (length a + 1)) (groups_text 0 b) = (b, False, [])"
    using assms read_groups_text [of b "8 - (length a + 1)" "[]" 0] by (simp add: stops_def)
  ultimately show ?thesis using assms(2) by (simp add: read_ipv6_def read_char_given_def)
qed

lemma read_ipv6_mapped:
  assumes "a < 256" "b < 256" "c < 256" "d < 256"
  shows "read_ipv6 (''::ffff:'' @ show_v4 a b c d)
           = Some ([0, 0, 0, 0, 0, 65535, a * 256 + b, c * 256 + d], [])"
proof -
  let ?v = "show_v4 a b c d"
  have head: "read_groups 0 8 (''::ffff:'' @ ?v) = ([], False, ''::ffff:'' @ ?v)"
    by (rule read_groups_stop) (simp add: stops_def)
  have ffff: "show_hex 65535 = ''ffff''" by (simp add: show_hex.simps hex_char_def char_of_def bit_0)
  have v4: "read_ipv4 (''ffff'' @ CHR '':'' # ?v) = None"
    using read_ipv4_group [of "CHR '':'' # ?v" 65535] by (simp add: ffff)
  have num: "read_number 16 (Some 4) True 65536 (''ffff'' @ CHR '':'' # ?v) = Some (65535, CHR '':'' # ?v)"
    using read_group_show [of 65535 "CHR '':'' # ?v"] by (simp add: ffff hex_free_head_def)
  have six: "(6::nat) = Suc 5" and seven: "(7::nat) = Suc 6" by simp_all
  have tail: "read_groups (Suc 0) 6 (CHR '':'' # ?v) = ([a * 256 + b, c * 256 + d], True, [])"
    using read_ipv4_show [OF assms, of "[]"]
    unfolding six read_groups.simps read_separator_def read_char_given_def
    by (simp add: digit_free_head_def)
  have "read_groups 0 7 (''ffff'' @ CHR '':'' # ?v) = ([65535, a * 256 + b, c * 256 + d], True, [])"
    unfolding seven read_groups.simps read_separator_def using v4 num tail by simp
  then have "read_groups 0 (8 - (length ([] :: nat list) + 1)) (''ffff:'' @ ?v)
      = ([65535, a * 256 + b, c * 256 + d], True, [])" by simp
  moreover have "replicate 5 (0 :: nat) = [0, 0, 0, 0, 0]" by (simp add: numeral_eq_Suc)
  ultimately show ?thesis
    unfolding read_ipv6_def head by (simp add: read_char_given_def)
qed

lemma read_ipv4_v6_text:
  assumes "gs \<noteq> []"
  shows "read_ipv4 (show_v6 gs) = None"
proof -
  have "read_ipv4 (groups_text 0 x @ r) = None" if "r = [] \<or> hd r = CHR '':''" for x r
  proof (cases x)
    case Nil
    then show ?thesis using that by (cases r) (auto simp: read_ipv4_colon)
  next
    case (Cons g x')
    have "groups_text 1 x' @ r = [] \<or> hd (groups_text 1 x' @ r) = CHR '':''"
      using that by (cases x') auto
    with Cons show ?thesis using read_ipv4_group by simp
  qed
  from this [of "[]" gs] this [of "''::'' @ t" for t] show ?thesis
    by (auto simp: show_v6_def join_groups_text read_ipv4_colon split: prod.splits)
qed

lemma read_ipv6_show:
  assumes "ip_wf (V6 gs)"
  shows "read_ipv6 (show_v6 gs) = Some (gs, [])"
proof -
  obtain s l where z: "zero_span 0 gs (0, 0) (0, 0) = (s, l)" by fastforce
  from zero_span_split [OF z] have sl: "s + l \<le> 8"
    and gs: "gs = take s gs @ replicate l 0 @ drop (s + l) gs" using assms by auto
  have wf: "list_all (\<lambda>g. g < 65536) gs" "length gs = 8" using assms by auto
  consider (mapped) "take 6 gs = [0, 0, 0, 0, 0, 65535]"
    | (elided) "take 6 gs \<noteq> [0, 0, 0, 0, 0, 65535]" "1 < l"
    | (plain) "take 6 gs \<noteq> [0, 0, 0, 0, 0, 65535]" "\<not> 1 < l" by blast
  then show ?thesis
  proof cases
    case mapped
    then have "gs = [0, 0, 0, 0, 0, 65535] @ drop 6 gs" by (metis append_take_drop_id)
    moreover have "drop 6 gs = [gs ! 6, gs ! 7]"
      using wf(2) by (simp add: Cons_nth_drop_Suc [symmetric] numeral_eq_Suc)
    ultimately have e: "gs = [0, 0, 0, 0, 0, 65535, gs ! 6, gs ! 7]" by simp
    have "gs ! 6 < 65536" "gs ! 7 < 65536" using wf by (simp_all add: list_all_length)
    then show ?thesis
      using read_ipv6_mapped [of "gs ! 6 div 256" "gs ! 6 mod 256" "gs ! 7 div 256" "gs ! 7 mod 256"]
        mapped wf(2) e by (simp add: show_v6_def less_mult_imp_div_less)
  next
    case elided
    have "list_all (\<lambda>g. g < 65536) (take s gs @ drop (s + l) gs)"
      using wf(1) by (auto simp: list_all_iff dest: in_set_takeD in_set_dropD)
    moreover have "length (take s gs) + length (drop (s + l) gs) < 8" using sl elided(2) wf(2) by simp
    ultimately show ?thesis
      using read_ipv6_elided [of "take s gs" "drop (s + l) gs"] elided wf(2) z gs sl
      by (simp add: show_v6_def join_groups_text)
  next
    case plain
    then show ?thesis using read_ipv6_join [OF wf] z by (simp add: show_v6_def join_groups_text)
  qed
qed

lemma parse_ip_show: "ip_wf ip \<Longrightarrow> parse_ip (show_ip ip) = Some ip"
proof (cases ip)
  case (V6 gs)
  assume "ip_wf ip"
  then have "gs \<noteq> []" "read_ipv6 (show_v6 gs) = Some (gs, [])" using V6 read_ipv6_show by auto
  then show ?thesis using V6 read_ipv4_v6_text [of gs] by (simp add: parse_ip_def read_ip_def)
qed (use parse_ip_show_v4 in blast)

lemma read_octet_bound: "read_octet s = Some (n, r) \<Longrightarrow> n < 256"
  by (auto simp: read_octet_def read_number_def Let_def split: if_splits)

lemma read_ipv4_wf: "read_ipv4 s = Some ((a, b, c, d), r) \<Longrightarrow> ip_wf (V4 a b c d)"
  by (auto simp: read_ipv4_def read_separator_def split: option.splits dest!: read_octet_bound)

lemma read_groups_wf:
  "read_groups i left s = (gs, v4, r) \<Longrightarrow> list_all (\<lambda>g. g < 65536) gs \<and> length gs \<le> left"
proof (induction i left s arbitrary: gs v4 r rule: read_groups.induct)
  case (2 i left s)
  show ?case
  proof (cases "if 0 < left then read_separator CHR '':'' i read_ipv4 s else None")
    case None
    show ?thesis
    proof (cases "read_separator CHR '':'' i (read_number 16 (Some 4) True 65536) s")
      case None': None
      with None 2(2) show ?thesis by auto
    next
      case (Some p)
      obtain g r1 where p: "p = (g, r1)" by fastforce
      obtain gs1 v1 r2 where rec: "read_groups (Suc i) left r1 = (gs1, v1, r2)" by (metis prod_cases3)
      have "g < 65536" using Some p
        by (auto simp: read_separator_def read_number_def Let_def split: if_splits option.splits)
      then show ?thesis using 2 None Some p rec by auto
    qed
  next
    case (Some p)
    then have l: "0 < left" and sp: "read_separator CHR '':'' i read_ipv4 s = Some p"
      by (simp_all split: if_splits)
    obtain a b c d r1 where p: "p = ((a, b, c, d), r1)" by (metis prod.exhaust)
    have "ip_wf (V4 a b c d)"
      using sp unfolding p read_separator_def
      by (cases "i = 0") (auto split: option.splits dest: read_ipv4_wf)
    moreover have "gs = [a * 256 + b, c * 256 + d]" using 2(2) Some p by simp
    ultimately show ?thesis using l by simp
  qed
qed simp

lemma parse_ip_wf: "parse_ip s = Some ip \<Longrightarrow> ip_wf ip"
proof -
  assume "parse_ip s = Some ip"
  then have r: "read_ip s = Some (ip, [])"
    by (auto simp: parse_ip_def split: option.splits list.splits)
  have v6: "ip_wf (V6 gs)" if "read_ipv6 s = Some (gs, r)" for gs r
    using that unfolding read_ipv6_def
    by (auto simp: list_all_iff split: prod.splits if_splits option.splits dest!: read_groups_wf)
  from r show ?thesis
    by (auto simp: read_ip_def split: option.splits dest: read_ipv4_wf v6)
qed

section \<open>The case of the letters does not matter to the parser\<close>

lemma ascii_lower_eq_iff: "\<not> is_ascii_upper c \<Longrightarrow> \<not> is_ascii_lower c \<Longrightarrow> ascii_lower x = c \<longleftrightarrow> x = c"
proof (cases "is_ascii_upper x")
  case True
  assume "\<not> is_ascii_upper c" "\<not> is_ascii_lower c"
  moreover have "byte_of (ascii_lower x) = byte_of x + 32"
    using True by (simp add: ascii_lower_def is_ascii_upper_def)
  then have "is_ascii_lower (ascii_lower x)" using True by (auto simp: is_ascii_lower_def is_ascii_upper_def)
  ultimately show ?thesis using True by auto
qed (simp add: ascii_lower_def)

lemma hex_val_lower [simp]: "hex_val (ascii_lower c) = hex_val c"
proof (cases "is_ascii_upper c")
  case True
  then have "byte_of (ascii_lower c) = byte_of c + 32"
    by (simp add: ascii_lower_def is_ascii_upper_def)
  with True show ?thesis by (auto simp: hex_val_def is_ascii_digit_def is_ascii_upper_def)
qed (simp add: ascii_lower_def)

definition lower_rest :: "('a \<times> string) option \<Rightarrow> ('a \<times> string) option" where
  "lower_rest = map_option (apsnd to_ascii_lowercase)"

lemma lower_rest_simps [simp]:
  "lower_rest None = None" "lower_rest (Some (a, r)) = Some (a, to_ascii_lowercase r)"
  by (simp_all add: lower_rest_def)

lemma foldl_lower:
  "foldl (\<lambda>a c. a * b + the (digit_val b c)) z (map ascii_lower ds)
     = foldl (\<lambda>a c. a * b + the (digit_val b c)) z ds"
  by (induction ds arbitrary: z) (simp_all add: digit_val_def)

lemma read_number_lower:
  "read_number b m z n (to_ascii_lowercase s) = lower_rest (read_number b m z n s)"
proof -
  have dv: "(\<lambda>c. digit_val b c \<noteq> None) \<circ> ascii_lower = (\<lambda>c. digit_val b c \<noteq> None)"
    by (simp add: digit_val_def comp_def)
  have tw: "takeWhile (\<lambda>c. digit_val b c \<noteq> None) (to_ascii_lowercase s)
      = map ascii_lower (takeWhile (\<lambda>c. digit_val b c \<noteq> None) s)"
    unfolding to_ascii_lowercase_def takeWhile_map dv ..
  have zero: "ascii_lower x = CHR ''0'' \<longleftrightarrow> x = CHR ''0''" for x
    by (rule ascii_lower_eq_iff) (simp_all add: is_ascii_upper_def is_ascii_lower_def)
  define ds where "ds = takeWhile (\<lambda>c. digit_val b c \<noteq> None) s"
  have "hd (map ascii_lower ds) = CHR ''0'' \<longleftrightarrow> hd ds = CHR ''0''" if "ds \<noteq> []"
    using that by (simp add: hd_map zero)
  then show ?thesis unfolding read_number_def Let_def tw ds_def [symmetric] length_map
    by (cases "ds = []") (simp_all add: foldl_lower to_ascii_lowercase_def drop_map lower_rest_def)
qed

lemma read_char_given_lower:
  "\<not> is_ascii_upper c \<Longrightarrow> \<not> is_ascii_lower c \<Longrightarrow>
   read_char_given c (to_ascii_lowercase s) = map_option to_ascii_lowercase (read_char_given c s)"
  by (auto simp: read_char_given_def to_ascii_lowercase_def ascii_lower_eq_iff split: list.split)

lemma separators [simp]:
  "\<not> is_ascii_upper CHR '':''" "\<not> is_ascii_lower CHR '':''"
  "\<not> is_ascii_upper CHR ''.''" "\<not> is_ascii_lower CHR ''.''"
  by (simp_all add: is_ascii_upper_def is_ascii_lower_def)

lemma read_separator_lower:
  assumes "\<And>s. inner (to_ascii_lowercase s) = lower_rest (inner s)"
    and "\<not> is_ascii_upper c" "\<not> is_ascii_lower c"
  shows "read_separator c i inner (to_ascii_lowercase s) = lower_rest (read_separator c i inner s)"
  using assms by (auto simp: read_separator_def read_char_given_lower split: option.split)

lemma read_ipv4_lower: "read_ipv4 (to_ascii_lowercase s) = lower_rest (read_ipv4 s)"
proof -
  have "read_octet (to_ascii_lowercase s) = lower_rest (read_octet s)" for s
    by (simp add: read_octet_def read_number_lower)
  then have sep: "read_separator CHR ''.'' i read_octet (to_ascii_lowercase s)
      = lower_rest (read_separator CHR ''.'' i read_octet s)" for i s
    by (intro read_separator_lower) simp_all
  show ?thesis unfolding read_ipv4_def sep
    by (auto simp: sep split: option.split prod.split)
qed

lemma read_groups_lower:
  "read_groups i left (to_ascii_lowercase s)
     = (case read_groups i left s of (gs, v4, r) \<Rightarrow> (gs, v4, to_ascii_lowercase r))"
proof (induction i left s rule: read_groups.induct)
  case (2 i left s)
  have v4: "read_separator CHR '':'' i read_ipv4 (to_ascii_lowercase s)
      = lower_rest (read_separator CHR '':'' i read_ipv4 s)"
    by (intro read_separator_lower read_ipv4_lower) simp_all
  have num: "read_separator CHR '':'' i (read_number 16 (Some 4) True 65536) (to_ascii_lowercase s)
      = lower_rest (read_separator CHR '':'' i (read_number 16 (Some 4) True 65536) s)"
    by (intro read_separator_lower read_number_lower) simp_all
  show ?case
  proof (cases "if 0 < left then read_separator CHR '':'' i read_ipv4 s else None")
    case None
    then have n: "(if 0 < left then read_separator CHR '':'' i read_ipv4 (to_ascii_lowercase s) else None) = None"
      by (cases "0 < left") (simp_all add: v4)
    show ?thesis
    proof (cases "read_separator CHR '':'' i (read_number 16 (Some 4) True 65536) s")
      case None': None
      then show ?thesis unfolding read_groups.simps n None num by simp
    next
      case (Some p)
      obtain g r where p: "p = (g, r)" by fastforce
      from 2 None Some p have "read_groups (Suc i) left (to_ascii_lowercase r)
          = (case read_groups (Suc i) left r of (gs, v4, r) \<Rightarrow> (gs, v4, to_ascii_lowercase r))" by simp
      then show ?thesis unfolding read_groups.simps n None num Some p by (simp split: prod.split)
    qed
  next
    case (Some p)
    obtain a b c d r where p: "p = ((a, b, c, d), r)" by (metis prod.exhaust)
    have n: "(if 0 < left then read_separator CHR '':'' i read_ipv4 (to_ascii_lowercase s) else None)
        = Some ((a, b, c, d), to_ascii_lowercase r)" using Some p by (auto simp: v4 split: if_splits)
    show ?thesis unfolding read_groups.simps n Some p by simp
  qed
qed simp

lemma read_ipv6_lower: "read_ipv6 (to_ascii_lowercase s) = lower_rest (read_ipv6 s)"
  unfolding read_ipv6_def read_groups_lower
  by (auto simp: read_char_given_lower read_groups_lower split: prod.split option.split)

lemma parse_ip_lower: "parse_ip (to_ascii_lowercase s) = parse_ip s"
proof -
  have "read_ip (to_ascii_lowercase s) = lower_rest (read_ip s)"
    unfolding read_ip_def read_ipv4_lower read_ipv6_lower by (auto split: option.split prod.split)
  then show ?thesis
    by (auto simp: parse_ip_def to_ascii_lowercase_def split: option.split list.split)
qed

lemma show_v6_no_bracket: "CHR '']'' \<notin> set (show_v6 gs)"
proof -
  have "hex_val c \<noteq> None" if "c \<in> set (show_hex n)" for c n
    using show_hex_digits [of n] that by (simp add: list_all_iff)
  moreover have "hex_val CHR '']'' = None" by (simp add: hex_val_def is_ascii_digit_def)
  ultimately have hx: "CHR '']'' \<notin> set (show_hex n)" for n by metis
  have "\<not> is_ascii_digit CHR '']''" by (simp add: is_ascii_digit_def)
  then have d: "CHR '']'' \<notin> set (show_nat n)" for n
    using show_nat_digits [of n] by (auto simp: list_all_iff)
  have g: "CHR '']'' \<notin> set (groups_text i gs)" for i gs
    using hx by (induction gs arbitrary: i) auto
  show ?thesis
    using d g unfolding show_v6_def show_v4_def join_groups_text by (auto split: prod.splits)
qed

section \<open>The ladder\<close>

text \<open>
  The TCP rungs of the edge ladder are tried in order: the edge's own address first, then port
  443 of the same host exactly when the fallback is on and the edge is not already on 443. The QUIC
  rung comes before all of them and no address is dialled twice.
\<close>

theorem edge_ladder_order:
  "\<exists>rest. edge_ladder e fb = Quic e # map TlsTcp (tcp_rungs e fb) \<and> tcp_rungs e fb = e # rest
     \<and> distinct (tcp_rungs e fb) \<and> (\<forall>a. a \<in> set rest \<longleftrightarrow> fb \<and> sa_port e \<noteq> 443 \<and> sa_ip a = sa_ip e \<and> sa_port a = 443)"
  by (cases e) (auto simp: edge_ladder_def tcp_rungs_def List.map_filter_def intro: socket_addr.equality)

end
