(* ===== verification/ForwardPolicy.thy ===== *)
theory ForwardPolicy
  imports Net
begin

text \<open>
  The gate in front of the channel TCP forward (\<^verbatim>\<open>channel_run/forward.rs\<close>): the allowlist, the second
  grant for targets that are not loopback, the canonical spelling of a target, the decision, and the
  event a refusal emits. The two environment values are arguments, as in
  \<^verbatim>\<open>accept_forward_request_with\<close>.
\<close>

definition MAX_TARGET_LEN :: nat where "MAX_TARGET_LEN = 255"

definition FORWARD_ALLOW_ENV :: string where "FORWARD_ALLOW_ENV = ''CT_CHANNEL_FORWARD_ALLOW''"

definition FORWARD_ALLOW_NON_LOOPBACK_ENV :: string where
  "FORWARD_ALLOW_NON_LOOPBACK_ENV = ''CT_CHANNEL_FORWARD_ALLOW_NON_LOOPBACK''"

datatype forward_decision = Allow | Refuse string

text \<open>The host and the port text of a trimmed target: the first half of \<^verbatim>\<open>canonical_target\<close>.\<close>

definition target_parts :: "string \<Rightarrow> (string \<times> string) option" where
  "target_parts target =
     (case strip_prefix ''['' target of
        Some rest \<Rightarrow>
          (case split_once CHR '']'' rest of None \<Rightarrow> None
           | Some (host, tail) \<Rightarrow> map_option (Pair host) (strip_prefix '':'' tail))
      | None \<Rightarrow>
          (case rsplit_once CHR '':'' target of None \<Rightarrow> None
           | Some (host, port) \<Rightarrow> if CHR '':'' \<in> set host then None else Some (host, port)))"

definition canonical_target :: "string \<Rightarrow> string option" where
  "canonical_target t =
     (let target = trim t
      in if target = [] \<or> MAX_TARGET_LEN < length target then None
         else (case target_parts target of None \<Rightarrow> None
           | Some (host, port_text) \<Rightarrow>
               (case parse_uint 65536 port_text of None \<Rightarrow> None
                | Some port \<Rightarrow>
                    if port = 0 \<or> host = [] then None
                    else (case parse_ip host of
                        Some (V4 a b c d) \<Rightarrow> Some (show_ip (V4 a b c d) @ '':'' @ show_nat port)
                      | Some (V6 gs) \<Rightarrow> Some (''['' @ show_ip (V6 gs) @ '']:'' @ show_nat port)
                      | None \<Rightarrow> Some (to_ascii_lowercase host @ '':'' @ show_nat port)))))"

definition is_loopback_target :: "string \<Rightarrow> bool" where
  "is_loopback_target canonical =
     (let host = (case strip_prefix ''['' canonical of
                    Some rest \<Rightarrow> hd (split_on CHR '']'' rest)
                  | None \<Rightarrow> (case rsplit_once CHR '':'' canonical of Some (h, _) \<Rightarrow> h | None \<Rightarrow> []))
      in (case parse_ip host of Some ip \<Rightarrow> is_loopback ip | None \<Rightarrow> host = ''localhost''))"

definition parse_forward_allowlist :: "string option \<Rightarrow> string list" where
  "parse_forward_allowlist raw =
     List.map_filter canonical_target (split_on CHR '','' (case raw of None \<Rightarrow> [] | Some s \<Rightarrow> s))"

definition non_loopback_granted :: "string option \<Rightarrow> bool" where
  "non_loopback_granted raw =
     (to_ascii_lowercase (trim (case raw of None \<Rightarrow> [] | Some s \<Rightarrow> s)) \<in> {''1'', ''true'', ''yes'', ''on''})"

definition decide_forward :: "string \<Rightarrow> string list \<Rightarrow> bool \<Rightarrow> forward_decision" where
  "decide_forward target allowlist non_loopback =
     (if allowlist = []
      then Refuse (''channel forwarding is off: '' @ FORWARD_ALLOW_ENV @ '' is unset or empty'')
      else (case canonical_target target of
          None \<Rightarrow> Refuse (''forward target is not a host:port address (at most ''
                           @ show_nat MAX_TARGET_LEN @ '' characters)'')
        | Some canonical \<Rightarrow>
            if canonical \<notin> set allowlist
            then Refuse (''forward target is not listed in '' @ FORWARD_ALLOW_ENV)
            else if \<not> is_loopback_target canonical \<and> \<not> non_loopback
            then Refuse (''forward target is not a loopback address and ''
                          @ FORWARD_ALLOW_NON_LOOPBACK_ENV @ '' is not set'')
            else Allow))"

definition redacted_target :: "string \<Rightarrow> string" where
  "redacted_target target = chars_take MAX_TARGET_LEN target"

text \<open>The result and the \<^verbatim>\<open>FORWARD_REFUSED\<close> events, each with its target and its reason.\<close>

definition accept_forward_request_with ::
  "string \<Rightarrow> string option \<Rightarrow> string option \<Rightarrow> (string + unit) \<times> (string \<times> string) list" where
  "accept_forward_request_with target raw_allowlist raw_non_loopback =
     (let allowlist = parse_forward_allowlist raw_allowlist
      in (case decide_forward target allowlist (non_loopback_granted raw_non_loopback) of
            Allow \<Rightarrow> (Ok (), [])
          | Refuse reason \<Rightarrow> (Err reason, [(redacted_target target, reason)])))"

text \<open>\<open>env\<close> is \<^verbatim>\<open>std::env::var(..).ok()\<close>.\<close>

definition accept_forward_request ::
  "(string \<Rightarrow> string option) \<Rightarrow> string \<Rightarrow> (string + unit) \<times> (string \<times> string) list" where
  "accept_forward_request env target =
     accept_forward_request_with target (env FORWARD_ALLOW_ENV) (env FORWARD_ALLOW_NON_LOOPBACK_ENV)"

definition forward_allow_configured :: "(string \<Rightarrow> string option) \<Rightarrow> bool" where
  "forward_allow_configured env = (parse_forward_allowlist (env FORWARD_ALLOW_ENV) \<noteq> [])"

section \<open>Loopback soundness\<close>

lemma no_colon_show_nat: "CHR '':'' \<notin> set (show_nat n)"
proof -
  have "\<not> is_ascii_digit CHR '':''" by (simp add: is_ascii_digit_def)
  then show ?thesis using show_nat_digits [of n] by (auto simp: list_all_iff)
qed

lemma hd_digits_not_bracket: "strip_prefix ''['' (show_nat n @ r) = None"
proof -
  obtain c s where s: "show_nat n = c # s" by (meson list.exhaust show_nat_nonempty)
  then have "is_ascii_digit c" using show_nat_digits [of n] by simp
  then have "c \<noteq> CHR ''[''" by (auto simp: is_ascii_digit_def)
  then show ?thesis by (auto simp: s)
qed

lemma loopback_name_port:
  assumes "strip_prefix ''['' (h @ '':'' @ show_nat p) = None"
  shows "is_loopback_target (h @ '':'' @ show_nat p)
           = (case parse_ip h of Some ip \<Rightarrow> is_loopback ip | None \<Rightarrow> h = ''localhost'')"
proof -
  have "rsplit_once CHR '':'' (h @ '':'' @ show_nat p) = Some (h, show_nat p)"
    by (simp add: rsplit_once_Some no_colon_show_nat)
  then show ?thesis using assms by (simp add: is_loopback_target_def Let_def)
qed

lemma split_on_hd: "c \<notin> set a \<Longrightarrow> hd (split_on c (a @ c # b)) = a"
  by (induction a) (auto split: list.split)

lemma loopback_v6_port:
  assumes "ip_wf (V6 gs)"
  shows "is_loopback_target (''['' @ show_ip (V6 gs) @ '']:'' @ show_nat p) = is_loopback (V6 gs)"
  using parse_ip_show [OF assms] split_on_hd [OF show_v6_no_bracket [of gs], of "CHR '':'' # show_nat p"]
  by (simp add: is_loopback_target_def Let_def)

text \<open>
  The judgement on a canonical target is the judgement on the host that was written, unless the
  host itself starts with a bracket.
\<close>

lemma canonical_target_loopback:
  assumes "canonical_target t = Some c" "is_loopback_target c"
  shows "\<exists>host port. target_parts (trim t) = Some (host, port) \<and>
     (case parse_ip host of Some ip \<Rightarrow> is_loopback ip
      | None \<Rightarrow> to_ascii_lowercase host = ''localhost'' \<or> starts_with ''['' host)"
proof -
  from assms(1) obtain host ptext port where tp: "target_parts (trim t) = Some (host, ptext)"
    and "parse_uint 65536 ptext = Some port" "host \<noteq> []"
    and c: "c = (case parse_ip host of
        Some (V4 a b x d) \<Rightarrow> show_ip (V4 a b x d) @ '':'' @ show_nat port
      | Some (V6 gs) \<Rightarrow> ''['' @ show_ip (V6 gs) @ '']:'' @ show_nat port
      | None \<Rightarrow> to_ascii_lowercase host @ '':'' @ show_nat port)"
    by (auto simp: canonical_target_def Let_def split: if_splits option.splits ip_addr.splits)
  have "(case parse_ip host of Some ip \<Rightarrow> is_loopback ip
      | None \<Rightarrow> to_ascii_lowercase host = ''localhost'' \<or> starts_with ''['' host)"
  proof (cases "parse_ip host")
    case None
    have "starts_with ''['' host" if "strip_prefix ''['' c \<noteq> None"
    proof -
      obtain x xs where "host = x # xs" using \<open>host \<noteq> []\<close> by (cases host) auto
      moreover from this have "ascii_lower x = CHR ''[''"
        using that c None by (auto simp: to_ascii_lowercase_def split: if_splits)
      then have "x = CHR ''[''"
        by (subst (asm) ascii_lower_eq_iff) (simp_all add: is_ascii_upper_def is_ascii_lower_def)
      ultimately show ?thesis by (simp add: starts_with_iff)
    qed
    then show ?thesis
      using None c assms(2) loopback_name_port [of "to_ascii_lowercase host" port] parse_ip_lower [of host]
      by (cases "strip_prefix ''['' c") auto
  next
    case (Some ip)
    then have wf: "ip_wf ip" by (rule parse_ip_wf)
    show ?thesis
    proof (cases ip)
      case (V4 a b x d)
      then have "c = show_ip ip @ '':'' @ show_nat port" using Some c by simp
      moreover have "strip_prefix ''['' (show_ip ip @ '':'' @ show_nat port) = None"
        by (simp add: V4 show_v4_def hd_digits_not_bracket)
      ultimately show ?thesis
        using Some assms(2) loopback_name_port [of "show_ip ip" port] parse_ip_show [OF wf] by simp
    next
      case (V6 gs)
      then show ?thesis using Some c assms(2) wf loopback_v6_port [of gs port] by simp
    qed
  qed
  with tp show ?thesis by blast
qed

lemma decide_forward_Allow:
  "decide_forward t al nl = Allow \<longleftrightarrow>
     (\<exists>c. canonical_target t = Some c \<and> c \<in> set al \<and> (is_loopback_target c \<or> nl))"
  by (auto simp: decide_forward_def split: option.splits)

lemma set_map_filter: "set (List.map_filter f xs) = {y. \<exists>x \<in> set xs. f x = Some y}"
  by (force simp: List.map_filter_def)

text \<open>
  C7: What the gate lets through. A request is accepted exactly when some comma-separated entry of
  the allowlist has the same canonical spelling as the target and that target is loopback or the
  second grant is given; an accepted request emits nothing, and every refusal emits exactly one
  event, whose reason is the error returned. Without the second grant, the host of an accepted
  target is an IP literal in the loopback range, or \<open>localhost\<close> in some letter case, or a host that
  itself starts with a bracket (which no resolver accepts).
\<close>

theorem forward_gate:
  "(case accept_forward_request_with t raw nl of
      (Ok _, ev) \<Rightarrow> ev = [] \<and>
        (\<exists>c entry. canonical_target t = Some c
           \<and> entry \<in> set (split_on CHR '','' (case raw of None \<Rightarrow> [] | Some s \<Rightarrow> s))
           \<and> canonical_target entry = Some c \<and> (is_loopback_target c \<or> non_loopback_granted nl))
        \<and> (non_loopback_granted nl \<or>
           (\<exists>host port. target_parts (trim t) = Some (host, port) \<and>
              (case parse_ip host of Some ip \<Rightarrow> is_loopback ip
               | None \<Rightarrow> to_ascii_lowercase host = ''localhost'' \<or> starts_with ''['' host)))
    | (Err reason, ev) \<Rightarrow> ev = [(redacted_target t, reason)]
        \<and> (\<forall>c. canonical_target t = Some c \<and> c \<in> set (parse_forward_allowlist raw)
              \<longrightarrow> \<not> is_loopback_target c \<and> \<not> non_loopback_granted nl))"
proof (cases "decide_forward t (parse_forward_allowlist raw) (non_loopback_granted nl)")
  case Allow
  then obtain c where c: "canonical_target t = Some c" "c \<in> set (parse_forward_allowlist raw)"
    "is_loopback_target c \<or> non_loopback_granted nl" by (auto simp: decide_forward_Allow)
  then obtain entry where
    "entry \<in> set (split_on CHR '','' (case raw of None \<Rightarrow> [] | Some s \<Rightarrow> s))"
    "canonical_target entry = Some c"
    by (auto simp: parse_forward_allowlist_def set_map_filter)
  with c canonical_target_loopback [OF c(1)] Allow show ?thesis
    by (auto simp: accept_forward_request_with_def Let_def)
next
  case (Refuse reason)
  then have "decide_forward t (parse_forward_allowlist raw) (non_loopback_granted nl) \<noteq> Allow" by simp
  then have "\<forall>c. canonical_target t = Some c \<and> c \<in> set (parse_forward_allowlist raw)
      \<longrightarrow> \<not> is_loopback_target c \<and> \<not> non_loopback_granted nl" unfolding decide_forward_Allow by blast
  then show ?thesis using Refuse by (auto simp: accept_forward_request_with_def Let_def)
qed

lemma read_groups_numeral:
  "read_groups i (numeral k) s =
     (case (if 0 < (pred_numeral k) then read_separator CHR '':'' i read_ipv4 s else None) of
        Some ((a, b, c, d), r) \<Rightarrow> ([a * 256 + b, c * 256 + d], True, r)
      | None \<Rightarrow>
          (case read_separator CHR '':'' i (read_number 16 (Some 4) True 65536) s of
             None \<Rightarrow> ([], False, s)
           | Some (g, r) \<Rightarrow>
               (case read_groups (Suc i) (pred_numeral k) r of (gs, v4, r2) \<Rightarrow> (g # gs, v4, r2))))"
  by (simp only: numeral_eq_Suc read_groups.simps)

lemmas eval_target = read_groups_numeral target_parts_def rsplit_once_def parse_uint_def parse_ip_def read_ip_def read_ipv4_def
  read_ipv6_def read_octet_def read_number_def read_separator_def read_char_given_def digit_val_def
  hex_val_def show_v4_def show_nat.simps digit_char_eval ascii_defs Let_def

lemma canonical_target_examples:
  "canonical_target ''127.0.0.1:22'' = Some ''127.0.0.1:22''"
  "canonical_target ''10.0.0.1:22'' = Some ''10.0.0.1:22''"
  by (simp_all add: canonical_target_def trim_graphic graphic_def MAX_TARGET_LEN_def eval_target)

lemma example_loopback:
  "\<not> is_loopback_target ''10.0.0.1:22''" "is_loopback_target ''127.0.0.1:22''" "\<not> non_loopback_granted None"
  by (simp_all add: is_loopback_target_def non_loopback_granted_def trim_graphic eval_target)

lemma example_allowed:
  "accept_forward_request_with ''127.0.0.1:22'' (Some ''10.0.0.1:22,127.0.0.1:22'') None = (Ok (), [])"
proof -
  have "split_on CHR '','' ''10.0.0.1:22,127.0.0.1:22'' = [''10.0.0.1:22'', ''127.0.0.1:22'']" by simp
  then show ?thesis
    by (simp add: accept_forward_request_with_def decide_forward_def parse_forward_allowlist_def
        canonical_target_examples example_loopback List.map_filter_def del: split_on.simps)
qed

theorem forward_gate_witness:
  "fst (accept_forward_request_with ''10.0.0.1:22'' (Some ''10.0.0.1:22'') None) \<noteq> Ok ()
   \<and> snd (accept_forward_request_with ''127.0.0.1:22'' (Some ''10.0.0.1:22,127.0.0.1:22'') None) = []"
  using forward_gate [of "''10.0.0.1:22''" "Some ''10.0.0.1:22''" None] example_loopback example_allowed
  by (auto simp: canonical_target_examples split: prod.splits sum.splits)

text \<open>
  The feature is off by default: without the variable, or with a value in which no entry is an
  address, every request is refused as off, and \<^verbatim>\<open>forward_allow_configured\<close> says so; with one
  valid entry neither is the case.
\<close>

theorem forward_default_off:
  "(forward_allow_configured env \<longleftrightarrow>
      (\<exists>entry c. entry \<in> set (split_on CHR '','' (case env FORWARD_ALLOW_ENV of None \<Rightarrow> [] | Some s \<Rightarrow> s))
                 \<and> canonical_target entry = Some c))
   \<and> (forward_allow_configured env \<longleftrightarrow>
      fst (accept_forward_request env t)
        \<noteq> Err (''channel forwarding is off: '' @ FORWARD_ALLOW_ENV @ '' is unset or empty''))"
proof -
  define off where "off = ''channel forwarding is off: '' @ FORWARD_ALLOW_ENV @ '' is unset or empty''"
  have "decide_forward t al nl = Refuse off \<longleftrightarrow> al = []" for al nl
    unfolding off_def by (auto simp: decide_forward_def split: option.splits)
  moreover have "fst (accept_forward_request env t) = Err off \<longleftrightarrow>
      decide_forward t (parse_forward_allowlist (env FORWARD_ALLOW_ENV))
        (non_loopback_granted (env FORWARD_ALLOW_NON_LOOPBACK_ENV)) = Refuse off"
    by (auto simp: accept_forward_request_def accept_forward_request_with_def Let_def
        split: forward_decision.split)
  moreover have "forward_allow_configured env \<longleftrightarrow> set (parse_forward_allowlist (env FORWARD_ALLOW_ENV)) \<noteq> {}"
    by (simp add: forward_allow_configured_def)
  moreover have "forward_allow_configured env \<longleftrightarrow> parse_forward_allowlist (env FORWARD_ALLOW_ENV) \<noteq> []"
    by (simp add: forward_allow_configured_def)
  ultimately show ?thesis
    unfolding off_def [symmetric] parse_forward_allowlist_def set_map_filter by blast
qed

text \<open>
  The one spelling in which the loopback judgement and the host disagree: the host \<open>[:\<close> is neither
  an address nor a name of this machine, and the canonical form of \<open>[[:]:1\<close> is judged loopback.
\<close>

theorem bracket_host_judged_loopback:
  "canonical_target ''[[:]:1'' = Some ''[::1'' \<and> is_loopback_target ''[::1''
   \<and> target_parts ''[[:]:1'' = Some (''[:'', ''1'') \<and> parse_ip ''[:'' = None"
  by (simp add: canonical_target_def is_loopback_target_def trim_graphic graphic_def MAX_TARGET_LEN_def eval_target)
    (simp add: eval_nat_numeral)

end
