(* ===== verification/ForwardEngine.thy ===== *)
theory ForwardEngine
  imports ForwardStream ForwardPolicy
begin

text \<open>
  The two engines of a forward session (\<^verbatim>\<open>run_forward_initiate_engine_with\<close> and
  \<^verbatim>\<open>run_forward_accept_engine_with\<close>): each \<^verbatim>\<open>select!\<close> branch is a step on the engine's state, and the
  loop is the relation that takes the branches in any order. What both engines have is the record
  \<open>mux\<close>; each side extends it.

  An entry of \<^verbatim>\<open>entries\<close> is the sender end of a stream's queue, so it is the field \<open>sc_tx\<close> of the
  stream's cell; \<^verbatim>\<open>running\<close> has an association for every pump task, and a cell lives as long as
  its task. Of the lines the engines print, the ones that tell the session's mode are kept; the
  others are told by the reason the session ended for.
\<close>

section \<open>The control queue and the writer\<close>

definition CTRL_BACKLOG_CAP :: nat where "CTRL_BACKLOG_CAP = 4096"

record ctrl =
  ct_queue :: "frame list"
  ct_backlog :: nat
  ct_open :: bool

definition ctrl_channel :: ctrl where
  "ctrl_channel = \<lparr>ct_queue = [], ct_backlog = 0, ct_open = True\<rparr>"

definition ctrl_send :: "frame \<Rightarrow> ctrl \<Rightarrow> bool \<times> ctrl" where
  "ctrl_send f c =
     (let old = ct_backlog c; c1 = c\<lparr>ct_backlog := old + 1\<rparr>
      in if CTRL_BACKLOG_CAP \<le> old then (False, c1)
         else if ct_open c then (True, c1\<lparr>ct_queue := ct_queue c @ [f]\<rparr>)
         else (False, c1))"

text \<open>
  One round of the writer task: the control queue goes first, then the pumps' queue; the frame is
  written to the session unless the write fails, which ends the writer.
\<close>

record frame_writer =
  fw_ctrl :: ctrl
  fw_out :: "frame list"
  fw_wire :: bytes
  fw_written :: nat
  fw_ended :: bool

definition writer_round :: "bool \<Rightarrow> frame_writer \<Rightarrow> frame_writer option" where
  "writer_round write_ok w =
     (if fw_ended w then None
      else (case (case ct_queue (fw_ctrl w) of
                    f # fs \<Rightarrow> Some (f, w\<lparr>fw_ctrl := (fw_ctrl w)\<lparr>ct_queue := fs, ct_backlog := ct_backlog (fw_ctrl w) - 1\<rparr>\<rparr>)
                  | [] \<Rightarrow> (case fw_out w of f # fs \<Rightarrow> Some (f, w\<lparr>fw_out := fs\<rparr>) | [] \<Rightarrow> None)) of
              None \<Rightarrow> None
            | Some (f, w1) \<Rightarrow>
                if write_ok then Some (w1\<lparr>fw_wire := fw_wire w1 @ encode f, fw_written := fw_written w1 + 1\<rparr>)
                else Some (w1\<lparr>fw_ended := True, fw_ctrl := (fw_ctrl w1)\<lparr>ct_open := False\<rparr>\<rparr>)))"

section \<open>What the engines share\<close>

datatype end_reason =
    EndBacklog
  | EndWindowBelowMin
  | EndAckedTooMuch
  | EndControlFlood
  | EndOpenInUse
  | EndReadFailed io_error
  | EndDeadPeer
  | EndWriter

record mux =
  mx_max_streams :: nat
  mx_fc_enabled :: bool
  mx_ctrl :: ctrl
  mx_recv :: session_recv
  mx_session :: "session_send option"
  mx_unacked_since :: "nat option"
  mx_pending_fc :: "u32 list"
  mx_cells :: "u32 \<Rightarrow> stream_cell option"
  mx_running :: "(u32 \<times> nat) list"
  mx_tasks :: "nat list"
  mx_next_task :: nat
  mx_log :: "string list"
  mx_ended :: "end_reason option"

text \<open>\<^verbatim>\<open>streams.abort_all()\<close> and the \<^verbatim>\<open>break\<close> that follows it.\<close>

definition end_session :: "end_reason \<Rightarrow> 'a mux_scheme \<Rightarrow> 'a mux_scheme" where
  "end_session r m = m\<lparr>mx_tasks := [], mx_ended := Some r\<rparr>"

definition mux_send :: "frame \<Rightarrow> 'a mux_scheme \<Rightarrow> 'a mux_scheme" where
  "mux_send f m =
     (let (ok, c) = ctrl_send f (mx_ctrl m); m1 = m\<lparr>mx_ctrl := c\<rparr>
      in if ok then m1 else end_session EndBacklog m1)"

definition entry_of :: "(u32 \<Rightarrow> stream_cell option) \<Rightarrow> u32 \<Rightarrow> stream_cell option" where
  "entry_of cells sid = (case cells sid of None \<Rightarrow> None | Some c \<Rightarrow> if sc_tx c then Some c else None)"

text \<open>An entry is removed, its credit closed, its pump told, and the peer is sent the reset.\<close>

definition abort_entry :: "stream_in \<Rightarrow> u32 \<Rightarrow> 'a mux_scheme \<Rightarrow> 'a mux_scheme option" where
  "abort_entry msg sid m =
     (case entry_of (mx_cells m) sid of None \<Rightarrow> Some m
      | Some c \<Rightarrow>
          (case notify msg (finish c) of None \<Rightarrow> None
           | Some c' \<Rightarrow> Some (m\<lparr>mx_cells := (mx_cells m)(sid \<mapsto> c'\<lparr>sc_tx := False\<rparr>)\<rparr>)))"

definition reset_stream :: "u32 \<Rightarrow> 'a mux_scheme \<Rightarrow> 'a mux_scheme option" where
  "reset_stream sid m = map_option (mux_send (abort_frame sid)) (abort_entry SAborted sid m)"

definition on_swindow :: "u32 \<Rightarrow> 'a mux_scheme \<Rightarrow> 'a mux_scheme" where
  "on_swindow bs m =
     (case mx_session m of None \<Rightarrow> m
      | Some s \<Rightarrow> (case acknowledge (unat bs) s of
            None \<Rightarrow> end_session EndAckedTooMuch m
          | Some s' \<Rightarrow> m\<lparr>mx_session := Some s'\<rparr>))"

definition on_data :: "nat \<Rightarrow> u32 \<Rightarrow> bytes \<Rightarrow> 'a mux_scheme \<Rightarrow> 'a mux_scheme option" where
  "on_data now sid payload m =
     (let (ack, r) = received now (length payload) (mx_recv m);
          m1 = m\<lparr>mx_recv := r\<rparr>;
          m2 = (case ack of None \<Rightarrow> m1 | Some f \<Rightarrow> mux_send f m1)
      in if mx_ended m2 \<noteq> None then Some m2
         else (case entry_of (mx_cells m2) sid of None \<Rightarrow> Some m2
           | Some c \<Rightarrow>
               (case deliver payload c of None \<Rightarrow> None
                | Some (True, c') \<Rightarrow> Some (m2\<lparr>mx_cells := (mx_cells m2)(sid \<mapsto> c')\<rparr>)
                | Some (False, _) \<Rightarrow> reset_stream sid m2)))"

definition on_close :: "u32 \<Rightarrow> string option \<Rightarrow> 'a mux_scheme \<Rightarrow> 'a mux_scheme option" where
  "on_close sid reason m =
     (let m1 = m\<lparr>mx_pending_fc := removeAll sid (mx_pending_fc m)\<rparr>;
          msg = stream_in_for_close reason
      in if msg = SAborted then abort_entry msg sid m1
         else (case entry_of (mx_cells m1) sid of None \<Rightarrow> Some m1
           | Some c \<Rightarrow> (case notify msg c of None \<Rightarrow> None
               | Some c' \<Rightarrow> Some (m1\<lparr>mx_cells := (mx_cells m1)(sid \<mapsto> c')\<rparr>))))"

text \<open>\<^verbatim>\<open>finished_stream_id\<close> on the task that ended, and the branch that uses it.\<close>

definition finished_stream_id :: "(u32 \<times> nat) list \<Rightarrow> nat \<Rightarrow> (u32 \<times> (u32 \<times> nat) list) option" where
  "finished_stream_id running task =
     (case find (\<lambda>(sid, t). t = task) running of None \<Rightarrow> None
      | Some (sid, _) \<Rightarrow> Some (sid, filter (\<lambda>(i, _). i \<noteq> sid) running))"

definition on_joined :: "nat \<Rightarrow> 'a mux_scheme \<Rightarrow> 'a mux_scheme" where
  "on_joined task m =
     (let m1 = m\<lparr>mx_tasks := removeAll task (mx_tasks m)\<rparr>
      in case finished_stream_id (mx_running m1) task of None \<Rightarrow> m1
         | Some (sid, running) \<Rightarrow> m1\<lparr>mx_running := running, mx_cells := (mx_cells m1)(sid := None)\<rparr>)"

definition on_flush :: "'a mux_scheme \<Rightarrow> 'a mux_scheme" where
  "on_flush m =
     (let (ack, r) = flush (mx_recv m); m1 = m\<lparr>mx_recv := r\<rparr>
      in case ack of None \<Rightarrow> m1 | Some f \<Rightarrow> mux_send f m1)"

definition on_dead_check :: "nat \<Rightarrow> 'a mux_scheme \<Rightarrow> 'a mux_scheme" where
  "on_dead_check now m =
     (let (dead, since) = session_is_dead now (mx_session m) (mx_unacked_since m);
          m1 = m\<lparr>mx_unacked_since := since\<rparr>
      in if dead then end_session EndDeadPeer m1 else m1)"

text \<open>A pump task is spawned for a new stream.\<close>

definition spawn_stream :: "u32 \<Rightarrow> 'a mux_scheme \<Rightarrow> 'a mux_scheme" where
  "spawn_stream sid m =
     m\<lparr>mx_running := (sid, mx_next_task m) # mx_running m, mx_tasks := mx_next_task m # mx_tasks m,
       mx_next_task := mx_next_task m + 1\<rparr>"

definition new_cell :: "u32 \<Rightarrow> bool \<Rightarrow> 'a mux_scheme \<Rightarrow> 'a mux_scheme" where
  "new_cell sid credited m = m\<lparr>mx_cells := (mx_cells m)(sid \<mapsto> inbound_queue credited)\<rparr>"

definition log_line :: "string \<Rightarrow> 'a mux_scheme \<Rightarrow> 'a mux_scheme" where
  "log_line l m = m\<lparr>mx_log := mx_log m @ [l]\<rparr>"

definition window_off_reason :: "u32 option \<Rightarrow> bool \<Rightarrow> string" where
  "window_off_reason window late =
     (case window of None \<Rightarrow> ''the peer speaks protocol v1''
      | Some w \<Rightarrow> if late \<and> 0 < w then ''the peer's HELLO arrived after the wait for it had ended''
                  else ''the peer granted none'')"

definition accept_mode_line :: "bool \<Rightarrow> string" where
  "accept_mode_line peer_speaks_fc =
     (if peer_speaks_fc
      then ''ct-agent channel: forward flow control on for this session (credit window ''
           @ show_nat (FC_WINDOW div 1024) @ '' KiB per stream, accept side)''
      else ''ct-agent channel: forward flow control off for this session -- the first stream opened without HELLO (older agent, accept side)'')"

section \<open>The initiate engine\<close>

definition HELLO_WAIT :: duration where "HELLO_WAIT = millis 500"

record initiate = mux +
  in_target :: string
  in_stop :: bool
  in_stopping :: bool
  in_peer_fc :: bool
  in_accepting :: bool
  in_hello_deadline :: "nat option"
  in_next_id :: u32

definition initiate_start :: "string \<Rightarrow> nat \<Rightarrow> bool \<Rightarrow> nat \<Rightarrow> initiate" where
  "initiate_start target max_streams fc_enabled window =
     \<lparr>mx_max_streams = max_streams, mx_fc_enabled = fc_enabled,
      mx_ctrl = (if fc_enabled then snd (ctrl_send (hello_frame (word_of_nat window)) ctrl_channel) else ctrl_channel),
      mx_recv = granting window, mx_session = None, mx_unacked_since = None, mx_pending_fc = [],
      mx_cells = Map.empty, mx_running = [], mx_tasks = [], mx_next_task = 0,
      mx_log = (if fc_enabled then [] else [''ct-agent channel: forward flow control off on this member (CT_CHANNEL_FORWARD_FLOW)'']),
      mx_ended = None, in_target = target, in_stop = False, in_stopping = False, in_peer_fc = False,
      in_accepting = (\<not> fc_enabled), in_hello_deadline = None, in_next_id = 1\<rparr>"

definition initiate_session_up :: "nat \<Rightarrow> initiate \<Rightarrow> initiate" where
  "initiate_session_up now m = m\<lparr>in_hello_deadline := Some (now + HELLO_WAIT)\<rparr>"

definition initiate_hello_deadline :: "initiate \<Rightarrow> initiate" where
  "initiate_hello_deadline m =
     log_line (''ct-agent channel: forward flow control off for this session -- the peer sent no HELLO within ''
               @ show_nat (HELLO_WAIT div 1000000) @ '' ms (older agent)'') (m\<lparr>in_accepting := True\<rparr>)"

definition initiate_stop :: "initiate \<Rightarrow> initiate" where
  "initiate_stop m = m\<lparr>in_stopping := True\<rparr>"

text \<open>
  The next stream id: \<^verbatim>\<open>wrapping_add(1).max(1)\<close> until one is free. The search has as much fuel as
  there are ids in use, plus one.
\<close>

definition bump_id :: "u32 \<Rightarrow> u32" where
  "bump_id sid = (if sid + 1 < 1 then 1 else sid + 1)"

fun free_id :: "nat \<Rightarrow> u32 list \<Rightarrow> u32 \<Rightarrow> u32 option" where
  "free_id 0 used sid = None"
| "free_id (Suc fuel) used sid = (if sid \<in> set used then free_id fuel used (bump_id sid) else Some sid)"

definition initiate_open :: "u32 \<Rightarrow> initiate \<Rightarrow> initiate" where
  "initiate_open sid m =
     (let m1 = new_cell sid (in_peer_fc m) (m\<lparr>in_next_id := bump_id sid\<rparr>)
      in if \<not> in_peer_fc m then spawn_stream sid m1
         else (let m2 = mux_send (fc_on_frame sid) m1
               in if mx_ended m2 \<noteq> None then m2
                  else (let m3 = mux_send (Open sid (in_target m)) m2
                        in if mx_ended m3 \<noteq> None then m3 else spawn_stream sid m3)))"

definition initiate_accept :: "initiate \<Rightarrow> initiate option" where
  "initiate_accept m =
     (if in_stop m then Some m
      else if mx_max_streams m \<le> length (mx_running m) then Some m
      else map_option (\<lambda>sid. initiate_open sid m)
             (free_id (Suc (length (mx_running m))) (map fst (mx_running m)) (in_next_id m)))"

definition initiate_hello :: "u32 option \<Rightarrow> initiate \<Rightarrow> initiate" where
  "initiate_hello window m =
     (let late = in_accepting m;
          m1 = (if late then m
                else (case from_hello (case window of None \<Rightarrow> 0 | Some w \<Rightarrow> w) of
                        Ok s \<Rightarrow> m\<lparr>mx_session := s\<rparr>
                      | Err _ \<Rightarrow> end_session EndWindowBelowMin m))
      in if mx_ended m1 \<noteq> None then m1
         else (let m2 = (if in_peer_fc m1 then m1
                  else log_line (case mx_session m1 of
                           Some s \<Rightarrow> ''ct-agent channel: forward session window ''
                             @ show_nat ((ss_budget_cap s + ss_first_cap s) div 1024) @ '' KiB for this session''
                         | None \<Rightarrow> ''ct-agent channel: forward session window off for this session -- ''
                             @ window_off_reason window late)
                       (log_line (''ct-agent channel: forward flow control on for this session (credit window ''
                          @ show_nat (FC_WINDOW div 1024) @ '' KiB per stream)'') m1))
               in m2\<lparr>mx_recv := (mx_recv m2)\<lparr>sr_on := window \<noteq> None\<rparr>, in_peer_fc := True, in_accepting := True\<rparr>))"

definition initiate_control :: "bytes \<Rightarrow> initiate \<Rightarrow> initiate option" where
  "initiate_control payload m =
     (if \<not> mx_fc_enabled m then Some m
      else (case apply_control payload (entry_of (mx_cells m)) (mx_pending_fc m) of
        (outcome, entries, pending) \<Rightarrow>
          (let m1 = m\<lparr>mx_cells := mx_cells m ++ entries, mx_pending_fc := pending\<rparr>
           in case outcome of
                CoHello window \<Rightarrow> Some (initiate_hello window m1)
              | CoSWindow bs \<Rightarrow> Some (on_swindow bs m1)
              | CoResetStream sid \<Rightarrow> reset_stream sid m1
              | CoEndSession \<Rightarrow> Some (end_session EndControlFlood m1)
              | CoNone \<Rightarrow> Some m1)))"

definition initiate_frame :: "nat \<Rightarrow> io_error + frame \<Rightarrow> initiate \<Rightarrow> initiate option" where
  "initiate_frame now fr m =
     (case fr of
        Err e \<Rightarrow> Some (end_session (EndReadFailed e) m)
      | Ok f \<Rightarrow>
          (let m0 = m\<lparr>mx_unacked_since := None\<rparr>
           in case f of
                Data sid payload \<Rightarrow> if sid = CONTROL_ID then initiate_control payload m0 else on_data now sid payload m0
              | Close sid reason \<Rightarrow> on_close sid reason m0
              | Open _ _ \<Rightarrow> Some m0))"

section \<open>The accept engine\<close>

definition FORWARD_MAX_STREAMS_ENV :: string where
  "FORWARD_MAX_STREAMS_ENV = ''CT_CHANNEL_FORWARD_MAX_STREAMS''"

text \<open>
  The accept side keeps the two policy strings of its start. \<open>ac_dialed\<close> records the streams whose
  target it handed to a dialling task, \<open>ac_refused\<close> the events of the policy gate.
\<close>

record accept = mux +
  ac_allow :: "string option"
  ac_non_loopback :: "string option"
  ac_opened :: bool
  ac_mode_logged :: bool
  ac_dialed :: "(u32 \<times> string) list"
  ac_refused :: "(string \<times> string) list"

definition accept_start :: "string option \<Rightarrow> string option \<Rightarrow> nat \<Rightarrow> bool \<Rightarrow> nat \<Rightarrow> accept" where
  "accept_start allow_raw non_loopback_raw max_streams fc_enabled window =
     \<lparr>mx_max_streams = max_streams, mx_fc_enabled = fc_enabled,
      mx_ctrl = (if fc_enabled then snd (ctrl_send (hello_frame (word_of_nat window)) ctrl_channel) else ctrl_channel),
      mx_recv = granting window, mx_session = None, mx_unacked_since = None, mx_pending_fc = [],
      mx_cells = Map.empty, mx_running = [], mx_tasks = [], mx_next_task = 0,
      mx_log = (if fc_enabled then [] else [''ct-agent channel: forward flow control off on this member (CT_CHANNEL_FORWARD_FLOW)'']),
      mx_ended = None, ac_allow = allow_raw, ac_non_loopback = non_loopback_raw, ac_opened = False,
      ac_mode_logged = (\<not> fc_enabled), ac_dialed = [], ac_refused = []\<rparr>"

definition accept_open :: "u32 \<Rightarrow> string \<Rightarrow> accept \<Rightarrow> accept" where
  "accept_open sid target m =
     (if sid = CONTROL_ID \<or> entry_of (mx_cells m) sid \<noteq> None \<or> sid \<in> fst ` set (mx_running m)
      then end_session EndOpenInUse m
      else (let credited = (sid \<in> set (mx_pending_fc m));
                m1 = m\<lparr>mx_pending_fc := removeAll sid (mx_pending_fc m), ac_opened := True\<rparr>;
                m2 = (if ac_mode_logged m1 then m1
                      else log_line (accept_mode_line credited) (m1\<lparr>ac_mode_logged := True\<rparr>))
            in if mx_max_streams m2 \<le> length (mx_running m2)
               then mux_send (Close sid (Some (FORWARD_MAX_STREAMS_ENV @ '' reached''))) m2
               else (case accept_forward_request_with target (ac_allow m2) (ac_non_loopback m2) of
                   (Err reason, ev) \<Rightarrow>
                     mux_send (Close sid (Some reason)) (m2\<lparr>ac_refused := ac_refused m2 @ ev\<rparr>)
                 | (Ok _, _) \<Rightarrow>
                     spawn_stream sid (new_cell sid credited (m2\<lparr>ac_dialed := ac_dialed m2 @ [(sid, target)]\<rparr>)))))"

definition accept_hello :: "u32 option \<Rightarrow> accept \<Rightarrow> accept" where
  "accept_hello window m =
     (let m0 = m\<lparr>mx_recv := (mx_recv m)\<lparr>sr_on := window \<noteq> None\<rparr>\<rparr>;
          m1 = (if ac_opened m0 then m0
                else (case from_hello (case window of None \<Rightarrow> 0 | Some w \<Rightarrow> w) of
                        Ok s \<Rightarrow> m0\<lparr>mx_session := s\<rparr>
                      | Err _ \<Rightarrow> end_session EndWindowBelowMin m0))
      in if mx_ended m1 \<noteq> None \<or> ac_mode_logged m1 then m1
         else log_line (case mx_session m1 of
                  Some s \<Rightarrow> ''ct-agent channel: forward session window ''
                    @ show_nat ((ss_budget_cap s + ss_first_cap s) div 1024) @ '' KiB for this session (accept side)''
                | None \<Rightarrow> ''ct-agent channel: forward session window off for this session -- ''
                    @ window_off_reason window False @ '' (accept side)'')
              (log_line (accept_mode_line True) (m1\<lparr>ac_mode_logged := True\<rparr>)))"

definition accept_control :: "bytes \<Rightarrow> accept \<Rightarrow> accept option" where
  "accept_control payload m =
     (if \<not> mx_fc_enabled m then Some m
      else (case apply_control payload (entry_of (mx_cells m)) (mx_pending_fc m) of
        (outcome, entries, pending) \<Rightarrow>
          (let m1 = m\<lparr>mx_cells := mx_cells m ++ entries, mx_pending_fc := pending\<rparr>
           in case outcome of
                CoResetStream sid \<Rightarrow> reset_stream sid m1
              | CoEndSession \<Rightarrow> Some (end_session EndControlFlood m1)
              | CoHello window \<Rightarrow> Some (accept_hello window m1)
              | CoSWindow bs \<Rightarrow> Some (on_swindow bs m1)
              | CoNone \<Rightarrow> Some m1)))"

definition accept_frame :: "nat \<Rightarrow> io_error + frame \<Rightarrow> accept \<Rightarrow> accept option" where
  "accept_frame now fr m =
     (case fr of
        Err e \<Rightarrow> Some (end_session (EndReadFailed e) m)
      | Ok f \<Rightarrow>
          (let m0 = m\<lparr>mx_unacked_since := None\<rparr>
           in case f of
                Open sid target \<Rightarrow> Some (accept_open sid target m0)
              | Data sid payload \<Rightarrow> if sid = CONTROL_ID then accept_control payload m0 else on_data now sid payload m0
              | Close sid reason \<Rightarrow> on_close sid reason m0))"

section \<open>The loops\<close>

text \<open>
  What happens to the shared state outside the engine: a pump moves in its cell and in the session
  window (while it waits for credit it holds no more than the chunk it wants), its receiver goes
  away, the writer takes a control frame or ends.
\<close>

inductive pump_moves :: "stream_cell \<Rightarrow> session_send option \<Rightarrow> stream_cell \<Rightarrow> session_send option \<Rightarrow> bool" where
  pm_recv: "in_recv c = (RecvMsg x, c') \<Longrightarrow> pump_moves c s c' s"
| pm_wait: "sc_avail c = Some a \<Longrightarrow> k \<le> a \<Longrightarrow> sc_held c + k \<le> DATA_CHUNK_LEN \<Longrightarrow>
     pump_moves c s (c\<lparr>sc_avail := Some (a - k), sc_held := sc_held c + k\<rparr>) s"
| pm_acquire: "acquire_credit n c = Some c' \<Longrightarrow> pump_moves c s c' s"
| pm_take: "take_window fc n s = Some (h, s') \<Longrightarrow> pump_moves c (Some s) c (Some s')"
| pm_queued: "sg_bytes h \<le> ss_sending s \<Longrightarrow> pump_moves c (Some s) c (Some (sending_queued h s))"
| pm_drop: "sg_bytes h \<le> ss_sending s \<Longrightarrow> pump_moves c (Some s) c (Some (sending_drop h s))"
| pm_gone: "pump_moves c s (c\<lparr>sc_rx := False, sc_avail := map_option (\<lambda>a. a + sc_held c) (sc_avail c), sc_held := 0\<rparr>) s"

inductive mux_env :: "'a mux_scheme \<Rightarrow> 'a mux_scheme \<Rightarrow> bool" where
  me_pump: "mx_cells m sid = Some c \<Longrightarrow> pump_moves c (mx_session m) c' s' \<Longrightarrow>
     mux_env m (m\<lparr>mx_cells := (mx_cells m)(sid \<mapsto> c'), mx_session := s'\<rparr>)"
| me_write: "ct_queue (mx_ctrl m) = f # fs \<Longrightarrow>
     mux_env m (m\<lparr>mx_ctrl := (mx_ctrl m)\<lparr>ct_queue := fs, ct_backlog := ct_backlog (mx_ctrl m) - 1\<rparr>\<rparr>)"
| me_writer_gone: "mux_env m (m\<lparr>mx_ctrl := (mx_ctrl m)\<lparr>ct_open := False\<rparr>\<rparr>)"

text \<open>The branches both loops have.\<close>

inductive mux_branch :: "'a mux_scheme \<Rightarrow> 'a mux_scheme \<Rightarrow> bool" where
  mb_joined: "task \<in> set (mx_tasks m) \<Longrightarrow> mux_branch m (on_joined task m)"
| mb_flush: "sr_flush_at (mx_recv m) \<noteq> None \<Longrightarrow> mux_branch m (on_flush m)"
| mb_dead: "mx_session m \<noteq> None \<Longrightarrow> mux_branch m (on_dead_check now m)"
| mb_writer: "\<not> ct_open (mx_ctrl m) \<Longrightarrow> mux_branch m (end_session EndWriter m)"

inductive initiate_step :: "initiate \<Rightarrow> initiate \<Rightarrow> bool" where
  is_session_up: "mx_ended m = None \<Longrightarrow> \<not> in_accepting m \<Longrightarrow> in_hello_deadline m = None \<Longrightarrow>
     initiate_step m (initiate_session_up now m)"
| is_deadline: "mx_ended m = None \<Longrightarrow> \<not> in_accepting m \<Longrightarrow> in_hello_deadline m \<noteq> None \<Longrightarrow>
     initiate_step m (initiate_hello_deadline m)"
| is_stop: "mx_ended m = None \<Longrightarrow> in_stop m \<Longrightarrow> \<not> in_stopping m \<Longrightarrow> initiate_step m (initiate_stop m)"
| is_accept: "mx_ended m = None \<Longrightarrow> in_accepting m \<or> in_stopping m \<Longrightarrow> initiate_accept m = Some m' \<Longrightarrow>
     initiate_step m m'"
| is_frame: "mx_ended m = None \<Longrightarrow> initiate_frame now fr m = Some m' \<Longrightarrow> initiate_step m m'"
| is_branch: "mx_ended m = None \<Longrightarrow> mux_branch m m' \<Longrightarrow> initiate_step m m'"
| is_env: "mux_env m m' \<Longrightarrow> initiate_step m m'"
| is_cancel: "initiate_step m (m\<lparr>in_stop := True\<rparr>)"

inductive accept_step :: "accept \<Rightarrow> accept \<Rightarrow> bool" where
  as_frame: "mx_ended m = None \<Longrightarrow> accept_frame now fr m = Some m' \<Longrightarrow> accept_step m m'"
| as_branch: "mx_ended m = None \<Longrightarrow> mux_branch m m' \<Longrightarrow> accept_step m m'"
| as_env: "mux_env m m' \<Longrightarrow> accept_step m m'"

section \<open>The invariant\<close>

definition cell_ok :: "stream_cell \<Rightarrow> bool" where
  "cell_ok c =
     ((sc_credited c \<longleftrightarrow> sc_avail c \<noteq> None) \<and> sc_held c \<le> DATA_CHUNK_LEN
      \<and> (\<forall>a. sc_avail c = Some a \<longrightarrow> a + sc_held c \<le> FC_WINDOW + DATA_CHUNK_LEN)
      \<and> sc_pending c \<le> FC_WINDOW
      \<and> (if sc_credited c then queued_bytes c \<le> sc_pending c else length (sc_queue c) \<le> CHANNEL_CAP))"

lemma cell_ok_new: "cell_ok (inbound_queue b)"
  by (simp add: cell_ok_def inbound_queue_def queued_bytes_def flow_consts)

lemma cell_ok_deliver: "cell_ok c \<Longrightarrow> deliver p c = Some (b, c') \<Longrightarrow> cell_ok c' \<and> sc_tx c' = sc_tx c"
  by (auto simp: cell_ok_def deliver_def in_send_def queued_bytes_def split: if_splits)

lemma cell_ok_finish: "cell_ok c \<Longrightarrow> cell_ok (finish c)" "sc_tx (finish c) = sc_tx c"
  by (auto simp: cell_ok_def finish_def queued_bytes_def)

lemma cell_ok_notify:
  "cell_ok c \<Longrightarrow> notify msg c = Some c' \<Longrightarrow> data_len msg = 0 \<Longrightarrow> cell_ok c' \<and> sc_tx c' = sc_tx c"
  by (auto simp: cell_ok_def notify_def in_send_def queued_bytes_def split: if_splits)

lemma cell_ok_drop_tx: "cell_ok c \<Longrightarrow> cell_ok (c\<lparr>sc_tx := False\<rparr>)"
  by (auto simp: cell_ok_def queued_bytes_def)

lemma cell_ok_grant: "cell_ok c \<Longrightarrow> grant_credit n c = Some c' \<Longrightarrow> cell_ok c' \<and> sc_tx c' = sc_tx c"
  by (auto simp: cell_ok_def grant_credit_def queued_bytes_def split: option.splits if_splits)

lemma cell_ok_pump: "pump_moves c s c' s' \<Longrightarrow> cell_ok c \<Longrightarrow> cell_ok c' \<and> sc_tx c' = sc_tx c"
proof (induction rule: pump_moves.induct)
  case (pm_recv c x c' s)
  then show ?case by (auto simp: cell_ok_def in_recv_def queued_bytes_def split: list.splits if_splits)
next
  case (pm_acquire n c c' s)
  then show ?case by (auto simp: cell_ok_def acquire_credit_def queued_bytes_def split: option.splits if_splits)
qed (auto simp: cell_ok_def queued_bytes_def)

lemma session_wf_pump: "pump_moves c s c' s' \<Longrightarrow> (\<forall>x. s = Some x \<longrightarrow> session_wf x) \<Longrightarrow> s' = Some y \<Longrightarrow> session_wf y"
  by (induction rule: pump_moves.induct)
     (auto dest: take_window_wf sending_queued_wf sending_drop_wf)

definition streams_inv :: "'a mux_scheme \<Rightarrow> bool" where
  "streams_inv m =
     (length (mx_running m) \<le> mx_max_streams m \<and> distinct (map fst (mx_running m))
      \<and> distinct (map snd (mx_running m)) \<and> 0 \<notin> fst ` set (mx_running m)
      \<and> (\<forall>t \<in> snd ` set (mx_running m). t < mx_next_task m)
      \<and> set (mx_tasks m) \<subseteq> snd ` set (mx_running m))"

definition cells_inv :: "'a mux_scheme \<Rightarrow> bool" where
  "cells_inv m =
     ((\<forall>sid c. mx_cells m sid = Some c \<longrightarrow> cell_ok c)
      \<and> (mx_ended m = None \<longrightarrow> dom (mx_cells m) = fst ` set (mx_running m)))"

definition ctrl_inv :: "'a mux_scheme \<Rightarrow> bool" where
  "ctrl_inv m =
     (length (ct_queue (mx_ctrl m)) \<le> ct_backlog (mx_ctrl m) \<and> length (ct_queue (mx_ctrl m)) \<le> CTRL_BACKLOG_CAP
      \<and> (mx_ended m = None \<longrightarrow> ct_backlog (mx_ctrl m) \<le> CTRL_BACKLOG_CAP))"

definition flow_inv :: "'a mux_scheme \<Rightarrow> bool" where
  "flow_inv m =
     (distinct (mx_pending_fc m) \<and> length (mx_pending_fc m) \<le> MAX_PENDING_FC
      \<and> (\<forall>s. mx_session m = Some s \<longrightarrow> session_wf s)
      \<and> (mx_ended m \<noteq> None \<longrightarrow> mx_tasks m = []))"

definition mux_inv :: "'a mux_scheme \<Rightarrow> bool" where
  "mux_inv m = (streams_inv m \<and> cells_inv m \<and> ctrl_inv m \<and> flow_inv m)"

lemmas mux_inv_defs = mux_inv_def streams_inv_def cells_inv_def ctrl_inv_def flow_inv_def

lemma mux_inv_end: "mux_inv m \<Longrightarrow> mux_inv (end_session r m)"
  by (simp add: mux_inv_defs end_session_def)

lemma mux_send_fields [simp]:
  "mx_running (mux_send f m) = mx_running m" "mx_cells (mux_send f m) = mx_cells m"
  "mx_max_streams (mux_send f m) = mx_max_streams m" "mx_next_task (mux_send f m) = mx_next_task m"
  "mx_session (mux_send f m) = mx_session m" "mx_pending_fc (mux_send f m) = mx_pending_fc m"
  by (simp_all add: mux_send_def end_session_def Let_def split: prod.split)

lemma mux_inv_send: "mux_inv m \<Longrightarrow> mux_inv (mux_send f m)"
  by (auto simp: mux_inv_defs mux_send_def end_session_def ctrl_send_def Let_def split: prod.splits if_splits)

lemma mux_inv_cell:
  assumes "mux_inv m" "mx_cells m sid = Some c" "cell_ok c'"
  shows "mux_inv (m\<lparr>mx_cells := (mx_cells m)(sid \<mapsto> c')\<rparr>)"
  using assms by (auto simp: mux_inv_defs)

lemma entry_of_Some: "entry_of cells sid = Some c \<longleftrightarrow> cells sid = Some c \<and> sc_tx c"
  by (auto simp: entry_of_def split: option.splits)

lemma mux_inv_cells_ok: "mux_inv m \<Longrightarrow> mx_cells m sid = Some c \<Longrightarrow> cell_ok c"
  by (auto simp: mux_inv_defs)

lemma mux_inv_abort_entry:
  assumes "mux_inv m" "abort_entry SAborted sid m = Some m'"
  shows "mux_inv m'"
proof (cases "entry_of (mx_cells m) sid")
  case None
  then show ?thesis using assms by (simp add: abort_entry_def)
next
  case (Some c)
  then obtain c' where c': "notify SAborted (finish c) = Some c'"
    "m' = m\<lparr>mx_cells := (mx_cells m)(sid \<mapsto> c'\<lparr>sc_tx := False\<rparr>)\<rparr>"
    using assms(2) by (auto simp: abort_entry_def split: option.splits)
  have "cell_ok c" using Some mux_inv_cells_ok [OF assms(1), of sid c] by (simp add: entry_of_Some)
  then have "cell_ok (finish c)" by (rule cell_ok_finish)
  from cell_ok_notify [OF this c'(1)] have "cell_ok c'" by simp
  then have "cell_ok (c'\<lparr>sc_tx := False\<rparr>)" by (rule cell_ok_drop_tx)
  from mux_inv_cell [OF assms(1) _ this] show ?thesis using Some c'(2) by (simp add: entry_of_Some)
qed

lemma mux_inv_reset: "mux_inv m \<Longrightarrow> reset_stream sid m = Some m' \<Longrightarrow> mux_inv m'"
  unfolding reset_stream_def using mux_inv_abort_entry mux_inv_send by (metis map_option_eq_Some)

lemma mux_inv_swindow:
  assumes "mux_inv m"
  shows "mux_inv (on_swindow bs m)"
proof (cases "mx_session m")
  case (Some s)
  then have "session_wf s" using assms by (simp add: mux_inv_defs)
  then show ?thesis using assms Some acknowledge_wf [of s "unat bs"]
    by (cases "acknowledge (unat bs) s") (auto simp: on_swindow_def mux_inv_defs end_session_def)
qed (use assms in \<open>simp add: on_swindow_def\<close>)

lemma mux_inv_recv: "mux_inv m \<Longrightarrow> mux_inv (m\<lparr>mx_recv := r\<rparr>)"
  by (simp add: mux_inv_defs)

lemma mux_inv_since: "mux_inv m \<Longrightarrow> mux_inv (m\<lparr>mx_unacked_since := r\<rparr>)"
  by (simp add: mux_inv_defs)

lemma mux_inv_log: "mux_inv m \<Longrightarrow> mux_inv (log_line l m)"
  by (simp add: mux_inv_defs log_line_def)

lemmas mux_inv_intros = mux_inv_end mux_inv_send mux_inv_recv mux_inv_since mux_inv_log mux_inv_swindow

lemma mux_inv_data:
  assumes "mux_inv m" "on_data now sid p m = Some m'"
  shows "mux_inv m'"
proof -
  obtain ack r where rv: "received now (length p) (mx_recv m) = (ack, r)" by fastforce
  define m2 where "m2 = (case ack of None \<Rightarrow> m\<lparr>mx_recv := r\<rparr> | Some f \<Rightarrow> mux_send f (m\<lparr>mx_recv := r\<rparr>))"
  have inv: "mux_inv m2" using assms(1) by (auto simp: m2_def intro: mux_inv_intros split: option.split)
  have d: "(if mx_ended m2 \<noteq> None then Some m2
         else (case entry_of (mx_cells m2) sid of None \<Rightarrow> Some m2
           | Some c \<Rightarrow>
               (case deliver p c of None \<Rightarrow> None
                | Some (True, c') \<Rightarrow> Some (m2\<lparr>mx_cells := (mx_cells m2)(sid \<mapsto> c')\<rparr>)
                | Some (False, _) \<Rightarrow> reset_stream sid m2))) = Some m'"
    using assms(2) unfolding on_data_def rv Let_def prod.case m2_def [symmetric] .
  show ?thesis
  proof (cases "mx_ended m2 \<noteq> None \<or> entry_of (mx_cells m2) sid = None")
    case True
    then show ?thesis using d inv by (auto split: if_splits)
  next
    case False
    then obtain c where c: "entry_of (mx_cells m2) sid = Some c" "mx_ended m2 = None" by auto
    then have ok: "cell_ok c" "mx_cells m2 sid = Some c" using inv mux_inv_cells_ok by (auto simp: entry_of_Some)
    from d c obtain b c' where dl: "deliver p c = Some (b, c')" by (auto split: option.splits)
    show ?thesis
    proof (cases b)
      case True
      then show ?thesis using d c dl ok mux_inv_cell [OF inv ok(2), of c'] cell_ok_deliver [OF ok(1) dl] by auto
    next
      case False
      then show ?thesis using d c dl inv mux_inv_reset by simp
    qed
  qed
qed

lemma mux_inv_pending: "mux_inv m \<Longrightarrow> mux_inv (m\<lparr>mx_pending_fc := removeAll sid (mx_pending_fc m)\<rparr>)"
proof -
  assume inv: "mux_inv m"
  then have "length (removeAll sid (mx_pending_fc m)) \<le> MAX_PENDING_FC"
    using order_trans [OF length_removeAll_less_eq] by (auto simp: mux_inv_def flow_inv_def)
  with inv show ?thesis by (simp add: mux_inv_defs distinct_removeAll)
qed

lemma mux_inv_close:
  assumes "mux_inv m" "on_close sid reason m = Some m'"
  shows "mux_inv m'"
proof -
  define m1 where "m1 = m\<lparr>mx_pending_fc := removeAll sid (mx_pending_fc m)\<rparr>"
  have inv: "mux_inv m1" using mux_inv_pending [OF assms(1)] by (simp add: m1_def)
  show ?thesis
  proof (cases "reason = None")
    case False
    then have "abort_entry SAborted sid m1 = Some m'"
      using assms(2) by (simp add: on_close_def stream_in_for_close_def m1_def Let_def)
    then show ?thesis using mux_inv_abort_entry inv by blast
  next
    case True
    then have d: "(case entry_of (mx_cells m1) sid of None \<Rightarrow> Some m1
        | Some c \<Rightarrow> (case notify SClosed c of None \<Rightarrow> None
            | Some c' \<Rightarrow> Some (m1\<lparr>mx_cells := (mx_cells m1)(sid \<mapsto> c')\<rparr>))) = Some m'"
      using assms(2) unfolding on_close_def Let_def m1_def [symmetric]
      unfolding True stream_in_for_close_def by (simp cong: option.case_cong)
    show ?thesis
    proof (cases "entry_of (mx_cells m1) sid")
      case None
      then show ?thesis using d inv by simp
    next
      case (Some c)
      then have ok: "mx_cells m1 sid = Some c" "cell_ok c"
        using inv mux_inv_cells_ok [of m1 sid c] by (auto simp: entry_of_Some)
      from d Some obtain c' where c': "notify SClosed c = Some c'" "m' = m1\<lparr>mx_cells := (mx_cells m1)(sid \<mapsto> c')\<rparr>"
        by (auto split: option.splits)
      with cell_ok_notify [OF ok(2) c'(1)] mux_inv_cell [OF inv ok(1), of c'] show ?thesis by simp
    qed
  qed
qed

lemma finished_stream_id_Some:
  assumes "finished_stream_id running task = Some (sid, rest)"
  shows "(sid, task) \<in> set running \<and> rest = filter (\<lambda>p. fst p \<noteq> sid) running"
proof -
  from assms obtain t where "find (\<lambda>(s, t). t = task) running = Some (sid, t)"
    and rest: "rest = filter (\<lambda>(i, _). i \<noteq> sid) running"
    by (auto simp: finished_stream_id_def split: option.splits)
  then have "(sid, t) \<in> set running \<and> t = task" by (auto simp: find_Some_iff in_set_conv_nth)
  moreover have "(\<lambda>(i, _ :: nat). i \<noteq> sid) = (\<lambda>p. fst p \<noteq> sid)" by auto
  ultimately show ?thesis using rest by auto
qed

lemma finished_stream_id_iff: "finished_stream_id running task \<noteq> None \<longleftrightarrow> task \<in> snd ` set running"
proof -
  have "finished_stream_id running task = None \<longleftrightarrow> find (\<lambda>(s, t). t = task) running = None"
    by (auto simp: finished_stream_id_def split: option.splits)
  then show ?thesis by (force simp: find_None_iff)
qed

lemma map_filter_fst: "map fst (filter (\<lambda>p. fst p \<noteq> s) xs) = filter (\<lambda>i. i \<noteq> s) (map fst xs)"
  by (induction xs) auto

lemma distinct_snd_filter: "distinct (map snd xs) \<Longrightarrow> distinct (map snd (filter P xs))"
  by (induction xs) auto

lemma mux_inv_joined:
  assumes "mux_inv m" "task \<in> set (mx_tasks m)"
  shows "mux_inv (on_joined task m)"
proof -
  have "task \<in> snd ` set (mx_running m)" using assms by (auto simp: mux_inv_defs)
  then obtain sid rest where f: "finished_stream_id (mx_running m) task = Some (sid, rest)"
    using finished_stream_id_iff by fastforce
  from finished_stream_id_Some [OF f] have mem: "(sid, task) \<in> set (mx_running m)"
    and rest: "rest = filter (\<lambda>p. fst p \<noteq> sid) (mx_running m)" by auto
  have d: "distinct (map fst (mx_running m))" "distinct (map snd (mx_running m))"
    using assms(1) by (auto simp: mux_inv_defs)
  have only: "p \<in> set (mx_running m) \<Longrightarrow> fst p = sid \<longleftrightarrow> snd p = task" for p
    using mem d by (metis (no_types, lifting) distinct_map inj_onD fst_conv snd_conv)
  have j: "on_joined task m = m\<lparr>mx_tasks := removeAll task (mx_tasks m), mx_running := rest,
      mx_cells := (mx_cells m)(sid := None)\<rparr>"
    by (simp add: on_joined_def f Let_def)
  have "set (removeAll task (mx_tasks m)) \<subseteq> snd ` set rest"
  proof
    fix x assume "x \<in> set (removeAll task (mx_tasks m))"
    then obtain p where "p \<in> set (mx_running m)" "snd p = x" "x \<noteq> task"
      using assms(1) by (auto simp: mux_inv_def streams_inv_def)
    with only [of p] have "p \<in> set rest" by (simp add: rest)
    with \<open>snd p = x\<close> show "x \<in> snd ` set rest" by blast
  qed
  then have "streams_inv (on_joined task m)"
    using assms(1) d unfolding j
    by (auto simp: mux_inv_def streams_inv_def rest map_filter_fst distinct_snd_filter
        intro: le_trans [OF length_filter_le])
  moreover have "cells_inv (on_joined task m)"
    using assms(1) unfolding j by (auto simp: mux_inv_def cells_inv_def rest)
  moreover have "ctrl_inv (on_joined task m)" "flow_inv (on_joined task m)"
    using assms(1) unfolding j by (auto simp: mux_inv_def ctrl_inv_def flow_inv_def)
  ultimately show ?thesis by (simp add: mux_inv_def)
qed

lemma mux_inv_flush: "mux_inv m \<Longrightarrow> mux_inv (on_flush m)"
  by (auto simp: on_flush_def Let_def intro: mux_inv_intros split: prod.split option.split)

lemma mux_inv_dead: "mux_inv m \<Longrightarrow> mux_inv (on_dead_check now m)"
  by (auto simp: on_dead_check_def Let_def intro: mux_inv_intros split: prod.split)

lemma mux_inv_branch: "mux_branch m m' \<Longrightarrow> mux_inv m \<Longrightarrow> mux_inv m'"
  by (induction rule: mux_branch.induct) (auto intro: mux_inv_joined mux_inv_flush mux_inv_dead mux_inv_end)

lemma mux_inv_env: "mux_env m m' \<Longrightarrow> mux_inv m \<Longrightarrow> mux_inv m'"
proof (induction rule: mux_env.induct)
  case (me_pump m sid c c' s')
  have "cell_ok c'" using cell_ok_pump [OF me_pump(2)] mux_inv_cells_ok [OF me_pump(3,1)] by blast
  moreover have "\<forall>x. mx_session m = Some x \<longrightarrow> session_wf x"
    using me_pump(3) by (simp add: mux_inv_def flow_inv_def)
  then have "\<forall>y. s' = Some y \<longrightarrow> session_wf y" using session_wf_pump [OF me_pump(2)] by blast
  moreover from calculation(1) have "mux_inv (m\<lparr>mx_cells := (mx_cells m)(sid \<mapsto> c')\<rparr>)"
    by (rule mux_inv_cell [OF me_pump(3,1)])
  ultimately show ?case by (simp add: mux_inv_defs)
next
  case (me_write m f fs)
  then show ?case by (auto simp: mux_inv_defs)
qed (simp add: mux_inv_defs)

lemma mux_inv_spawn:
  assumes "mux_inv m" "mx_ended m = None" "sid \<noteq> 0" "sid \<notin> fst ` set (mx_running m)"
    "length (mx_running m) < mx_max_streams m"
  shows "mux_inv (spawn_stream sid (new_cell sid b m))"
proof -
  have "t < mx_next_task m" if "t \<in> snd ` set (mx_running m)" for t
    using assms(1) that by (auto simp: mux_inv_defs)
  then have "mx_next_task m \<notin> snd ` set (mx_running m)" by blast
  then show ?thesis using assms cell_ok_new [of b]
    by (auto simp: mux_inv_defs spawn_stream_def new_cell_def less_Suc_eq)
qed

text \<open>What \<^verbatim>\<open>apply_control\<close> does to the cells and to the announced streams.\<close>

lemma mux_inv_control:
  assumes "mux_inv m" "apply_control p (entry_of (mx_cells m)) (mx_pending_fc m) = (out, entries, pending)"
  shows "mux_inv (m\<lparr>mx_cells := mx_cells m ++ entries, mx_pending_fc := pending\<rparr>)"
proof -
  have same: "mx_cells m ++ entry_of (mx_cells m) = mx_cells m"
    by (rule ext) (auto simp: map_add_def entry_of_def split: option.split)
  have c1: "entries = entry_of (mx_cells m) \<or> (\<exists>sid c c' n. entry_of (mx_cells m) sid = Some c
      \<and> grant_credit n c = Some c' \<and> entries = (entry_of (mx_cells m))(sid \<mapsto> c'))"
    using assms(2) unfolding apply_control_def
    by (auto split: option.splits control.splits if_splits)
  have c2: "pending = mx_pending_fc m \<or> length (mx_pending_fc m) < MAX_PENDING_FC \<and> (\<exists>sid. pending = List.insert sid (mx_pending_fc m))"
    using assms(2) unfolding apply_control_def
    by (auto split: option.splits control.splits if_splits)
  have pend: "distinct pending \<and> length pending \<le> MAX_PENDING_FC"
    using c2 assms(1) by (auto simp: mux_inv_def flow_inv_def List.insert_def)
  have "mux_inv (m\<lparr>mx_cells := mx_cells m ++ entries\<rparr>)"
    using c1
  proof
    assume "entries = entry_of (mx_cells m)"
    then show ?thesis using assms(1) same by simp
  next
    assume "\<exists>sid c c' n. entry_of (mx_cells m) sid = Some c
      \<and> grant_credit n c = Some c' \<and> entries = (entry_of (mx_cells m))(sid \<mapsto> c')"
    then obtain sid c c' n where c: "entry_of (mx_cells m) sid = Some c" "grant_credit n c = Some c'"
      "entries = (entry_of (mx_cells m))(sid \<mapsto> c')" by blast
    then have "mx_cells m sid = Some c" by (simp add: entry_of_Some)
    moreover have "cell_ok c'" using cell_ok_grant [OF _ c(2)] mux_inv_cells_ok [OF assms(1) calculation] by blast
    moreover have "mx_cells m ++ entries = (mx_cells m)(sid \<mapsto> c')" using c(3) same by simp
    ultimately show ?thesis using mux_inv_cell [OF assms(1)] by metis
  qed
  with pend show ?thesis by (simp add: mux_inv_defs)
qed

section \<open>The stream ids\<close>

lemma bump_id_nonzero: "bump_id x \<noteq> 0"
  by (auto simp: bump_id_def)

lemma free_id_Some: "free_id n used x = Some y \<Longrightarrow> x \<noteq> 0 \<Longrightarrow> y \<notin> set used \<and> y \<noteq> 0"
  by (induction n arbitrary: x) (auto simp: bump_id_nonzero split: if_splits)

lemma free_id_None: "free_id n used x = None \<Longrightarrow> k < n \<Longrightarrow> (bump_id ^^ k) x \<in> set used"
proof (induction n arbitrary: x k)
  case (Suc n)
  then have x: "x \<in> set used" "free_id n used (bump_id x) = None" by (auto split: if_splits)
  show ?case
  proof (cases k)
    case 0
    then show ?thesis using x by simp
  next
    case (Suc j)
    then show ?thesis using Suc.IH [OF x(2), of j] Suc.prems(2) by (simp add: funpow_swap1)
  qed
qed simp

lemma unat_bump:
  assumes "x \<noteq> 0"
  shows "unat (bump_id x) - 1 = (unat x - 1 + 1) mod (2 ^ 32 - 1)"
proof -
  have pos: "0 < unat x" using assms by (simp add: unat_gt_0)
  show ?thesis
  proof (cases "unat x = 2 ^ 32 - 1")
    case True
    then have "unat (x + 1) = 0" by (simp add: unat_word_ariths)
    then have "x + 1 = 0" by (simp only: unsigned_eq_0_iff)
    then show ?thesis using True by (simp add: bump_id_def)
  next
    case False
    moreover have "unat x < 2 ^ LENGTH(32)" by (rule unsigned_less)
    ultimately have lt: "unat x + 1 < 2 ^ 32" by simp
    then have "unat (x + 1) = unat x + 1" by (simp add: unat_word_ariths)
    moreover from this have "\<not> x + 1 < 1" by (simp add: word_less_nat_alt)
    ultimately show ?thesis using pos lt False by (simp add: bump_id_def)
  qed
qed

lemma unat_bump_funpow:
  assumes "x \<noteq> 0"
  shows "(bump_id ^^ k) x \<noteq> 0 \<and> unat ((bump_id ^^ k) x) - 1 = (unat x - 1 + k) mod (2 ^ 32 - 1)"
proof (induction k)
  case 0
  have "unat x - 1 < 2 ^ 32 - 1" using unsigned_less [of x] assms by (simp add: unat_gt_0 less_diff_conv2 Suc_leI)
  then show ?case using assms by simp
next
  case (Suc k)
  then have "unat (bump_id ((bump_id ^^ k) x)) - 1 = ((unat x - 1 + k) mod (2 ^ 32 - 1) + 1) mod (2 ^ 32 - 1)"
    using unat_bump [of "(bump_id ^^ k) x"] by simp
  also have "\<dots> = (unat x - 1 + Suc k) mod (2 ^ 32 - 1)" by (simp add: mod_Suc_eq)
  finally show ?case using bump_id_nonzero by simp
qed

lemma mod_add_inj:
  assumes "(a + i) mod n = (a + j) mod n" "i < n" "j < n"
  shows "i = (j :: nat)"
proof -
  have "x = y" if "(a + x) mod n = (a + y) mod n" "x < n" "y < n" "x \<le> y" for x y
  proof -
    have "n dvd (a + y) - (a + x)" using that by (metis add_left_mono mod_eq_dvd_iff_nat)
    then show ?thesis using that by (auto dest: dvd_imp_le)
  qed
  with assms show ?thesis by (metis nat_le_linear)
qed

text \<open>The search for a free id ends with one as long as not all ids are in use.\<close>

lemma free_id_total:
  assumes "x \<noteq> 0" "length used < 2 ^ 32 - 1"
  shows "\<exists>y. free_id (Suc (length used)) used x = Some y"
proof (rule ccontr)
  assume "\<not> ?thesis"
  then have none: "free_id (Suc (length used)) used x = None" by (cases "free_id (Suc (length used)) used x") auto
  let ?f = "\<lambda>k. (bump_id ^^ k) x" and ?I = "{..length used}"
  have "inj_on ?f ?I"
  proof (rule inj_onI)
    fix i j assume ij: "i \<in> ?I" "j \<in> ?I" "?f i = ?f j"
    then have "(unat x - 1 + i) mod (2 ^ 32 - 1) = (unat x - 1 + j) mod (2 ^ 32 - 1)"
      using unat_bump_funpow [OF assms(1), of i] unat_bump_funpow [OF assms(1), of j] by simp
    moreover have "i < 2 ^ 32 - 1" "j < 2 ^ 32 - 1" using ij assms(2) by simp_all
    ultimately show "i = j" by (rule mod_add_inj)
  qed
  then have "card (?f ` ?I) = Suc (length used)" by (simp add: card_image)
  moreover have "?f ` ?I \<subseteq> set used" using free_id_None [OF none] by auto
  then have "card (?f ` ?I) \<le> card (set used)" by (simp add: card_mono)
  ultimately show False using card_length [of used] by simp
qed

section \<open>The engines keep the invariant\<close>

lemma mux_inv_truncate_initiate [simp]:
  "mux_inv (m\<lparr>in_stop := a\<rparr>) = mux_inv m" "mux_inv (m\<lparr>in_stopping := a\<rparr>) = mux_inv m"
  "mux_inv (m\<lparr>in_peer_fc := a\<rparr>) = mux_inv m" "mux_inv (m\<lparr>in_accepting := a\<rparr>) = mux_inv m"
  "mux_inv (m\<lparr>in_hello_deadline := b\<rparr>) = mux_inv m" "mux_inv (m\<lparr>in_next_id := sid\<rparr>) = mux_inv m"
  by (simp_all add: mux_inv_defs)

lemma mux_inv_session: "mux_inv m \<Longrightarrow> (\<And>x. s = Some x \<Longrightarrow> session_wf x) \<Longrightarrow> mux_inv (m\<lparr>mx_session := s\<rparr>)"
  by (simp add: mux_inv_defs)

lemma from_hello_session: "from_hello w = Ok s \<Longrightarrow> s = Some x \<Longrightarrow> session_wf x"
  using from_hello_wf by blast

lemma mux_inv_initiate_hello: "mux_inv m \<Longrightarrow> mux_inv (initiate_hello w m)"
proof -
  assume inv: "mux_inv m"
  define m1 where "m1 = (if in_accepting m then m
                else (case from_hello (case w of None \<Rightarrow> 0 | Some w \<Rightarrow> w) of
                        Ok s \<Rightarrow> m\<lparr>mx_session := s\<rparr>
                      | Err _ \<Rightarrow> end_session EndWindowBelowMin m))"
  have "mux_inv m1"
    using inv by (auto simp: m1_def intro: mux_inv_session mux_inv_end from_hello_session split: sum.split)
  then show ?thesis
    unfolding initiate_hello_def Let_def m1_def [symmetric] by (auto intro!: mux_inv_intros)
qed

lemma mux_inv_truncate_accept [simp]:
  "mux_inv (m\<lparr>ac_opened := a\<rparr>) = mux_inv m" "mux_inv (m\<lparr>ac_mode_logged := a\<rparr>) = mux_inv m"
  "mux_inv (m\<lparr>ac_dialed := d\<rparr>) = mux_inv m" "mux_inv (m\<lparr>ac_refused := e\<rparr>) = mux_inv m"
  by (simp_all add: mux_inv_defs)

lemma mux_inv_accept_hello: "mux_inv m \<Longrightarrow> mux_inv (accept_hello w m)"
proof -
  assume inv: "mux_inv m"
  define m0 where "m0 = m\<lparr>mx_recv := (mx_recv m)\<lparr>sr_on := w \<noteq> None\<rparr>\<rparr>"
  define m1 where "m1 = (if ac_opened m0 then m0
                else (case from_hello (case w of None \<Rightarrow> 0 | Some w \<Rightarrow> w) of
                        Ok s \<Rightarrow> m0\<lparr>mx_session := s\<rparr>
                      | Err _ \<Rightarrow> end_session EndWindowBelowMin m0))"
  have "mux_inv m0" using inv by (simp add: m0_def mux_inv_recv)
  then have "mux_inv m1"
    by (auto simp: m1_def intro: mux_inv_session mux_inv_end from_hello_session split: sum.split)
  then show ?thesis
    unfolding accept_hello_def Let_def m0_def [symmetric] m1_def [symmetric] by (auto intro!: mux_inv_intros)
qed

lemma mux_inv_initiate_frame:
  assumes "mux_inv m" "initiate_frame now fr m = Some m'"
  shows "mux_inv m'"
proof -
  have ctl: "mux_inv m2" if "initiate_control p m1 = Some m2" "mux_inv m1" for p m1 m2
  proof (cases "mx_fc_enabled m1")
    case True
    obtain out entries pending where ap:
      "apply_control p (entry_of (mx_cells m1)) (mx_pending_fc m1) = (out, entries, pending)" by (metis prod_cases3)
    from mux_inv_control [OF that(2) ap] that(1) True ap show ?thesis
      by (cases out) (auto simp: initiate_control_def Let_def
          intro: mux_inv_initiate_hello mux_inv_swindow mux_inv_reset mux_inv_end)
  qed (use that in \<open>simp add: initiate_control_def\<close>)
  have "mux_inv (m\<lparr>mx_unacked_since := None\<rparr>)" using assms(1) by (rule mux_inv_since)
  then show ?thesis using assms ctl
    by (auto simp: initiate_frame_def Let_def intro: mux_inv_end mux_inv_data mux_inv_close
        split: sum.splits frame.splits if_splits)
qed

lemma mux_inv_accept_open:
  assumes "mux_inv m" "mx_ended m = None"
  shows "mux_inv (accept_open sid target m)"
proof (cases "sid = CONTROL_ID \<or> entry_of (mx_cells m) sid \<noteq> None \<or> sid \<in> fst ` set (mx_running m)")
  case True
  then show ?thesis using assms(1) by (auto simp: accept_open_def intro: mux_inv_end)
next
  case False
  define m1 where "m1 = m\<lparr>mx_pending_fc := removeAll sid (mx_pending_fc m), ac_opened := True\<rparr>"
  define m2 where "m2 = (if ac_mode_logged m1 then m1
      else log_line (accept_mode_line (sid \<in> set (mx_pending_fc m))) (m1\<lparr>ac_mode_logged := True\<rparr>))"
  have m2: "mux_inv m2" "mx_ended m2 = None" "mx_running m2 = mx_running m"
    using mux_inv_pending [OF assms(1), of sid] assms(2) by (auto simp: m1_def m2_def log_line_def mux_inv_defs)
  have eq: "accept_open sid target m =
     (if mx_max_streams m2 \<le> length (mx_running m2)
      then mux_send (Close sid (Some (FORWARD_MAX_STREAMS_ENV @ '' reached''))) m2
      else (case accept_forward_request_with target (ac_allow m2) (ac_non_loopback m2) of
          (Err reason, ev) \<Rightarrow> mux_send (Close sid (Some reason)) (m2\<lparr>ac_refused := ac_refused m2 @ ev\<rparr>)
        | (Ok _, _) \<Rightarrow> spawn_stream sid (new_cell sid (sid \<in> set (mx_pending_fc m))
            (m2\<lparr>ac_dialed := ac_dialed m2 @ [(sid, target)]\<rparr>))))"
    unfolding accept_open_def if_not_P [OF False] Let_def m1_def m2_def by (rule refl)
  let ?m3 = "m2\<lparr>ac_dialed := ac_dialed m2 @ [(sid, target)]\<rparr>"
  have spawn: "mux_inv (spawn_stream sid (new_cell sid b ?m3))" if "\<not> mx_max_streams m2 \<le> length (mx_running m2)" for b
    using m2 False that by (intro mux_inv_spawn) (auto simp: CONTROL_ID_def)
  show ?thesis unfolding eq using m2(1) spawn
    by (auto intro: mux_inv_send split: prod.split sum.split)
qed

lemma mux_inv_accept_frame:
  assumes "mux_inv m" "mx_ended m = None" "accept_frame now fr m = Some m'"
  shows "mux_inv m'"
proof -
  have ctl: "mux_inv m2" if "accept_control p m1 = Some m2" "mux_inv m1" for p m1 m2
  proof (cases "mx_fc_enabled m1")
    case True
    obtain out entries pending where ap:
      "apply_control p (entry_of (mx_cells m1)) (mx_pending_fc m1) = (out, entries, pending)" by (metis prod_cases3)
    from mux_inv_control [OF that(2) ap] that(1) True ap show ?thesis
      by (cases out) (auto simp: accept_control_def Let_def
          intro: mux_inv_accept_hello mux_inv_swindow mux_inv_reset mux_inv_end)
  qed (use that in \<open>simp add: accept_control_def\<close>)
  have "mux_inv (m\<lparr>mx_unacked_since := None\<rparr>)" using assms(1) by (rule mux_inv_since)
  moreover from this have "mux_inv (accept_open sid t (m\<lparr>mx_unacked_since := None\<rparr>))" for sid t
    using assms(2) by (intro mux_inv_accept_open) auto
  ultimately show ?thesis using assms ctl
    by (auto simp: accept_frame_def Let_def intro: mux_inv_end mux_inv_data mux_inv_close
        split: sum.splits frame.splits if_splits)
qed

section \<open>What the shared branches leave alone\<close>

lemma initiate_frame_simps [simp]:
  fixes m :: initiate
  shows "in_next_id (mux_send f m) = in_next_id m"
    "mx_max_streams (mux_send f m) = mx_max_streams m"
  "in_next_id (end_session r m) = in_next_id m"
    "mx_max_streams (end_session r m) = mx_max_streams m"
  "in_next_id (log_line l m) = in_next_id m"
    "mx_max_streams (log_line l m) = mx_max_streams m"
  "in_next_id (on_swindow w m) = in_next_id m"
    "mx_max_streams (on_swindow w m) = mx_max_streams m"
  "in_next_id (on_joined t m) = in_next_id m"
    "mx_max_streams (on_joined t m) = mx_max_streams m"
  "in_next_id (on_flush m) = in_next_id m"
    "mx_max_streams (on_flush m) = mx_max_streams m"
  "in_next_id (on_dead_check now m) = in_next_id m"
    "mx_max_streams (on_dead_check now m) = mx_max_streams m"
  by (simp_all add: mux_send_def end_session_def log_line_def on_swindow_def on_joined_def on_flush_def
      on_dead_check_def Let_def split: prod.split option.split)

lemma initiate_abort_entry: "abort_entry x sid m = Some m' \<Longrightarrow> in_next_id m' = in_next_id m \<and> mx_max_streams m' = mx_max_streams m"
  for m m' :: initiate
  by (auto simp: abort_entry_def split: option.splits)

lemma initiate_reset: "reset_stream sid m = Some m' \<Longrightarrow> in_next_id m' = in_next_id m \<and> mx_max_streams m' = mx_max_streams m"
  for m m' :: initiate
  by (auto simp: reset_stream_def dest!: initiate_abort_entry)

lemma initiate_close: "on_close sid reason m = Some m' \<Longrightarrow> in_next_id m' = in_next_id m \<and> mx_max_streams m' = mx_max_streams m"
  for m m' :: initiate
  by (auto simp: on_close_def Let_def split: if_splits option.splits dest!: initiate_abort_entry)

lemma initiate_data: "on_data now sid p m = Some m' \<Longrightarrow> in_next_id m' = in_next_id m \<and> mx_max_streams m' = mx_max_streams m"
  for m m' :: initiate
  by (auto simp: on_data_def Let_def split: prod.splits if_splits option.splits bool.splits dest!: initiate_reset)

lemma initiate_branch: "mux_branch m m' \<Longrightarrow> in_next_id m' = in_next_id m \<and> mx_max_streams m' = mx_max_streams m"
  for m m' :: initiate
  by (induction rule: mux_branch.induct) simp_all

lemma initiate_env: "mux_env m m' \<Longrightarrow> in_next_id m' = in_next_id m \<and> mx_max_streams m' = mx_max_streams m"
  for m m' :: initiate
  by (induction rule: mux_env.induct) simp_all

lemma accept_frame_simps [simp]:
  fixes m :: accept
  shows "ac_allow (mux_send f m) = ac_allow m"
    "ac_non_loopback (mux_send f m) = ac_non_loopback m"
    "ac_dialed (mux_send f m) = ac_dialed m"
    "ac_refused (mux_send f m) = ac_refused m"
    "mx_max_streams (mux_send f m) = mx_max_streams m"
  "ac_allow (end_session r m) = ac_allow m"
    "ac_non_loopback (end_session r m) = ac_non_loopback m"
    "ac_dialed (end_session r m) = ac_dialed m"
    "ac_refused (end_session r m) = ac_refused m"
    "mx_max_streams (end_session r m) = mx_max_streams m"
  "ac_allow (log_line l m) = ac_allow m"
    "ac_non_loopback (log_line l m) = ac_non_loopback m"
    "ac_dialed (log_line l m) = ac_dialed m"
    "ac_refused (log_line l m) = ac_refused m"
    "mx_max_streams (log_line l m) = mx_max_streams m"
  "ac_allow (on_swindow w m) = ac_allow m"
    "ac_non_loopback (on_swindow w m) = ac_non_loopback m"
    "ac_dialed (on_swindow w m) = ac_dialed m"
    "ac_refused (on_swindow w m) = ac_refused m"
    "mx_max_streams (on_swindow w m) = mx_max_streams m"
  "ac_allow (on_joined t m) = ac_allow m"
    "ac_non_loopback (on_joined t m) = ac_non_loopback m"
    "ac_dialed (on_joined t m) = ac_dialed m"
    "ac_refused (on_joined t m) = ac_refused m"
    "mx_max_streams (on_joined t m) = mx_max_streams m"
  "ac_allow (on_flush m) = ac_allow m"
    "ac_non_loopback (on_flush m) = ac_non_loopback m"
    "ac_dialed (on_flush m) = ac_dialed m"
    "ac_refused (on_flush m) = ac_refused m"
    "mx_max_streams (on_flush m) = mx_max_streams m"
  "ac_allow (on_dead_check now m) = ac_allow m"
    "ac_non_loopback (on_dead_check now m) = ac_non_loopback m"
    "ac_dialed (on_dead_check now m) = ac_dialed m"
    "ac_refused (on_dead_check now m) = ac_refused m"
    "mx_max_streams (on_dead_check now m) = mx_max_streams m"
  by (simp_all add: mux_send_def end_session_def log_line_def on_swindow_def on_joined_def on_flush_def
      on_dead_check_def Let_def split: prod.split option.split)

lemma accept_abort_entry: "abort_entry x sid m = Some m' \<Longrightarrow> ac_allow m' = ac_allow m \<and> ac_non_loopback m' = ac_non_loopback m \<and> ac_dialed m' = ac_dialed m \<and> ac_refused m' = ac_refused m \<and> mx_max_streams m' = mx_max_streams m"
  for m m' :: accept
  by (auto simp: abort_entry_def split: option.splits)

lemma accept_reset: "reset_stream sid m = Some m' \<Longrightarrow> ac_allow m' = ac_allow m \<and> ac_non_loopback m' = ac_non_loopback m \<and> ac_dialed m' = ac_dialed m \<and> ac_refused m' = ac_refused m \<and> mx_max_streams m' = mx_max_streams m"
  for m m' :: accept
  by (auto simp: reset_stream_def dest!: accept_abort_entry)

lemma accept_close: "on_close sid reason m = Some m' \<Longrightarrow> ac_allow m' = ac_allow m \<and> ac_non_loopback m' = ac_non_loopback m \<and> ac_dialed m' = ac_dialed m \<and> ac_refused m' = ac_refused m \<and> mx_max_streams m' = mx_max_streams m"
  for m m' :: accept
  by (auto simp: on_close_def Let_def split: if_splits option.splits dest!: accept_abort_entry)

lemma accept_data: "on_data now sid p m = Some m' \<Longrightarrow> ac_allow m' = ac_allow m \<and> ac_non_loopback m' = ac_non_loopback m \<and> ac_dialed m' = ac_dialed m \<and> ac_refused m' = ac_refused m \<and> mx_max_streams m' = mx_max_streams m"
  for m m' :: accept
  by (auto simp: on_data_def Let_def split: prod.splits if_splits option.splits bool.splits dest!: accept_reset)

lemma accept_branch: "mux_branch m m' \<Longrightarrow> ac_allow m' = ac_allow m \<and> ac_non_loopback m' = ac_non_loopback m \<and> ac_dialed m' = ac_dialed m \<and> ac_refused m' = ac_refused m \<and> mx_max_streams m' = mx_max_streams m"
  for m m' :: accept
  by (induction rule: mux_branch.induct) simp_all

lemma accept_env: "mux_env m m' \<Longrightarrow> ac_allow m' = ac_allow m \<and> ac_non_loopback m' = ac_non_loopback m \<and> ac_dialed m' = ac_dialed m \<and> ac_refused m' = ac_refused m \<and> mx_max_streams m' = mx_max_streams m"
  for m m' :: accept
  by (induction rule: mux_env.induct) simp_all

section \<open>Reachable engines\<close>

lemma mux_send_new_cell: "mux_send f (new_cell sid b m) = new_cell sid b (mux_send f m)"
  by (simp add: mux_send_def new_cell_def end_session_def Let_def split: prod.split)

lemma new_cell_ended [simp]: "mx_ended (new_cell sid b m) = mx_ended m"
  by (simp add: new_cell_def)

lemma mux_inv_new_cell_ended: "mux_inv m \<Longrightarrow> mx_ended m \<noteq> None \<Longrightarrow> mux_inv (new_cell sid b m)"
  using cell_ok_new [of b] by (auto simp: mux_inv_defs new_cell_def)

lemma mux_inv_initiate_open:
  assumes "mux_inv m" "mx_ended m = None" "sid \<noteq> 0" "sid \<notin> fst ` set (mx_running m)"
    "length (mx_running m) < mx_max_streams m"
  shows "mux_inv (initiate_open sid m)"
proof -
  define m0 where "m0 = m\<lparr>in_next_id := bump_id sid\<rparr>"
  have m0: "mux_inv m0" "mx_ended m0 = None" "sid \<notin> fst ` set (mx_running m0)"
    "length (mx_running m0) < mx_max_streams m0" using assms by (auto simp: m0_def)
  define m2 where "m2 = mux_send (fc_on_frame sid) m0"
  define m3 where "m3 = mux_send (Open sid (in_target m)) m2"
  have inv: "mux_inv m2" "mux_inv m3" using m0(1) by (simp_all add: m2_def m3_def mux_inv_send)
  have fields: "mx_running m3 = mx_running m0" "mx_max_streams m3 = mx_max_streams m0" by (simp_all add: m2_def m3_def)
  have eq: "initiate_open sid m =
     (if \<not> in_peer_fc m then spawn_stream sid (new_cell sid (in_peer_fc m) m0)
      else if mx_ended m2 \<noteq> None then new_cell sid (in_peer_fc m) m2
      else if mx_ended m3 \<noteq> None then new_cell sid (in_peer_fc m) m3
      else spawn_stream sid (new_cell sid (in_peer_fc m) m3))"
    unfolding initiate_open_def Let_def m0_def [symmetric] mux_send_new_cell m2_def [symmetric] m3_def [symmetric]
    by simp
  have "mux_inv (spawn_stream sid (new_cell sid (in_peer_fc m) m0))"
    by (rule mux_inv_spawn [OF m0(1,2) assms(3) m0(3,4)])
  moreover have "mux_inv (spawn_stream sid (new_cell sid (in_peer_fc m) m3))" if "mx_ended m3 = None"
    using m0(3,4) fields by (intro mux_inv_spawn [OF inv(2) that assms(3)]) auto
  ultimately show ?thesis unfolding eq using mux_inv_new_cell_ended inv by auto
qed

lemma initiate_open_next_id: "in_next_id (initiate_open sid m) = bump_id sid"
  and initiate_open_max: "mx_max_streams (initiate_open sid m) = mx_max_streams m"
  by (simp_all add: initiate_open_def new_cell_def spawn_stream_def Let_def)

lemma initiate_hello_fields:
  "in_next_id (initiate_hello w m) = in_next_id m \<and> mx_max_streams (initiate_hello w m) = mx_max_streams m"
  by (auto simp: initiate_hello_def Let_def split: sum.split)

lemma initiate_frame_fields:
  assumes "initiate_frame now fr m = Some m'"
  shows "in_next_id m' = in_next_id m \<and> mx_max_streams m' = mx_max_streams m"
proof -
  have "in_next_id m2 = in_next_id m1 \<and> mx_max_streams m2 = mx_max_streams m1"
    if "initiate_control p m1 = Some m2" for p m1 m2
    using that initiate_hello_fields
    by (auto simp: initiate_control_def Let_def split: if_splits prod.splits control_outcome.splits dest!: initiate_reset)
  then show ?thesis using assms
    by (auto simp: initiate_frame_def Let_def split: sum.splits frame.splits if_splits
        dest!: initiate_data initiate_close)
qed

lemma initiate_accept_inv:
  assumes "mux_inv m" "in_next_id m \<noteq> 0" "mx_ended m = None" "initiate_accept m = Some m'"
  shows "mux_inv m' \<and> in_next_id m' \<noteq> 0 \<and> mx_max_streams m' = mx_max_streams m"
proof (cases "in_stop m \<or> mx_max_streams m \<le> length (mx_running m)")
  case True
  then show ?thesis using assms by (auto simp: initiate_accept_def split: if_splits)
next
  case False
  then obtain sid where sid: "free_id (Suc (length (mx_running m))) (map fst (mx_running m)) (in_next_id m) = Some sid"
    and m': "m' = initiate_open sid m" using assms(4) by (auto simp: initiate_accept_def)
  from free_id_Some [OF sid assms(2)] have "sid \<notin> fst ` set (mx_running m)" "sid \<noteq> 0" by auto
  then show ?thesis
    using False mux_inv_initiate_open [OF assms(1,3)] initiate_open_next_id initiate_open_max bump_id_nonzero m'
    by simp
qed

lemma initiate_step_inv:
  assumes "initiate_step m m'" "mux_inv m" "in_next_id m \<noteq> 0"
  shows "mux_inv m' \<and> in_next_id m' \<noteq> 0 \<and> mx_max_streams m' = mx_max_streams m"
  using assms
proof (induction rule: initiate_step.induct)
  case (is_accept m m')
  then show ?case using initiate_accept_inv by blast
next
  case (is_frame m now fr m')
  then show ?case using mux_inv_initiate_frame initiate_frame_fields by metis
next
  case (is_branch m m')
  then show ?case using mux_inv_branch initiate_branch by metis
next
  case (is_env m m')
  then show ?case using mux_inv_env initiate_env by metis
qed (auto simp: initiate_session_up_def initiate_hello_deadline_def initiate_stop_def intro: mux_inv_log)

lemma initiate_start_inv:
  "mux_inv (initiate_start t n fc w) \<and> in_next_id (initiate_start t n fc w) \<noteq> 0 \<and> mx_max_streams (initiate_start t n fc w) = n"
  by (simp add: initiate_start_def mux_inv_defs ctrl_send_def ctrl_channel_def Let_def CTRL_BACKLOG_CAP_def
      MAX_PENDING_FC_def)

lemma initiate_reach:
  "initiate_step\<^sup>*\<^sup>* (initiate_start t n fc w) m \<Longrightarrow> mux_inv m \<and> in_next_id m \<noteq> 0 \<and> mx_max_streams m = n"
proof (induction rule: rtranclp_induct)
  case base
  show ?case by (rule initiate_start_inv)
next
  case (step m m')
  then show ?case using initiate_step_inv by blast
qed

definition policy_inv :: "accept \<Rightarrow> bool" where
  "policy_inv m = list_all (\<lambda>(sid, t). fst (accept_forward_request_with t (ac_allow m) (ac_non_loopback m)) = Ok ()) (ac_dialed m)"

definition same_policy :: "accept \<Rightarrow> accept \<Rightarrow> bool" where
  "same_policy m m' = (ac_allow m' = ac_allow m \<and> ac_non_loopback m' = ac_non_loopback m \<and> mx_max_streams m' = mx_max_streams m)"

lemma accept_open_policy:
  assumes "policy_inv m"
  shows "policy_inv (accept_open sid target m) \<and> same_policy m (accept_open sid target m)"
proof (cases "sid = CONTROL_ID \<or> entry_of (mx_cells m) sid \<noteq> None \<or> sid \<in> fst ` set (mx_running m)")
  case True
  then show ?thesis using assms by (simp add: accept_open_def policy_inv_def same_policy_def)
next
  case False
  then show ?thesis using assms unfolding accept_open_def if_not_P [OF False] Let_def
    by (auto simp: policy_inv_def same_policy_def new_cell_def spawn_stream_def split: prod.split sum.split)
qed

lemma accept_hello_policy: "policy_inv (accept_hello w m) = policy_inv m \<and> same_policy m (accept_hello w m)"
  by (auto simp: accept_hello_def policy_inv_def same_policy_def Let_def split: sum.split)

lemma accept_frame_policy:
  assumes "accept_frame now fr m = Some m'" "policy_inv m"
  shows "policy_inv m' \<and> same_policy m m'"
proof -
  have same: "policy_inv x \<Longrightarrow> ac_allow x' = ac_allow x \<and> ac_non_loopback x' = ac_non_loopback x \<and> ac_dialed x' = ac_dialed x
      \<and> ac_refused x' = ac_refused x \<and> mx_max_streams x' = mx_max_streams x \<Longrightarrow> policy_inv x' \<and> same_policy x x'" for x x'
    by (simp add: policy_inv_def same_policy_def)
  have ctl: "policy_inv m2 \<and> same_policy m1 m2" if "accept_control p m1 = Some m2" "policy_inv m1" for p m1 m2
  proof (cases "mx_fc_enabled m1")
    case True
    obtain out entries pending where ap:
      "apply_control p (entry_of (mx_cells m1)) (mx_pending_fc m1) = (out, entries, pending)" by (metis prod_cases3)
    let ?m = "m1\<lparr>mx_cells := mx_cells m1 ++ entries, mx_pending_fc := pending\<rparr>"
    have m: "policy_inv ?m" using that(2) by (simp add: policy_inv_def)
    show ?thesis
    proof (cases out)
      case (CoHello w)
      then have "m2 = accept_hello w ?m" using that(1) True ap by (simp add: accept_control_def)
      then show ?thesis using accept_hello_policy [of w ?m] m by (simp add: same_policy_def)
    next
      case (CoResetStream sid)
      then have "reset_stream sid ?m = Some m2" using that(1) True ap by (simp add: accept_control_def)
      from accept_reset [OF this] that(2) show ?thesis by (intro same) simp_all
    qed (use that True ap in \<open>auto simp: accept_control_def policy_inv_def same_policy_def\<close>)
  qed (use that in \<open>simp add: accept_control_def same_policy_def\<close>)
  let ?m0 = "m\<lparr>mx_unacked_since := None\<rparr>"
  have m0: "policy_inv ?m0" and sm: "same_policy ?m0 x \<longleftrightarrow> same_policy m x" for x
    using assms(2) by (simp_all add: policy_inv_def same_policy_def)
  show ?thesis
  proof (cases fr)
    case (Inl e)
    then show ?thesis using assms by (auto simp: accept_frame_def policy_inv_def same_policy_def)
  next
    case (Inr f)
    show ?thesis
    proof (cases f)
      case (Open sid t)
      then show ?thesis using assms(1) Inr accept_open_policy [OF m0, of sid t] sm by (auto simp: accept_frame_def)
    next
      case (Data sid p)
      show ?thesis
      proof (cases "sid = CONTROL_ID")
        case True
        then show ?thesis using assms(1) Inr Data ctl [OF _ m0] sm by (auto simp: accept_frame_def)
      next
        case False
        then have "on_data now sid p ?m0 = Some m'" using assms(1) Inr Data by (simp add: accept_frame_def)
        from accept_data [OF this] assms(2) show ?thesis by (intro same) simp_all
      qed
    next
      case (Close sid r)
      then have "on_close sid r ?m0 = Some m'" using assms(1) Inr by (simp add: accept_frame_def)
      from accept_close [OF this] assms(2) show ?thesis by (intro same) simp_all
    qed
  qed
qed

lemma accept_step_inv:
  assumes "accept_step m m'" "mux_inv m" "policy_inv m"
  shows "mux_inv m' \<and> policy_inv m' \<and> same_policy m m'"
  using assms
proof (induction rule: accept_step.induct)
  case (as_frame m now fr m')
  then show ?case using mux_inv_accept_frame accept_frame_policy by blast
next
  case (as_branch m m')
  then show ?case using mux_inv_branch accept_branch [OF as_branch(2)] by (auto simp: policy_inv_def same_policy_def)
next
  case (as_env m m')
  then show ?case using mux_inv_env accept_env [OF as_env(1)] by (auto simp: policy_inv_def same_policy_def)
qed

lemma accept_start_inv: "mux_inv (accept_start al nl n fc w) \<and> policy_inv (accept_start al nl n fc w)"
  by (simp add: accept_start_def mux_inv_defs ctrl_send_def ctrl_channel_def Let_def CTRL_BACKLOG_CAP_def
      MAX_PENDING_FC_def policy_inv_def)

lemma accept_reach:
  "accept_step\<^sup>*\<^sup>* (accept_start al nl n fc w) m \<Longrightarrow>
   mux_inv m \<and> policy_inv m \<and> same_policy (accept_start al nl n fc w) m"
proof (induction rule: rtranclp_induct)
  case base
  show ?case using accept_start_inv by (simp add: same_policy_def)
next
  case (step m m')
  then have "mux_inv m' \<and> policy_inv m' \<and> same_policy m m'" using accept_step_inv by blast
  with step show ?case by (simp add: same_policy_def)
qed

lemma mux_send_queue:
  "mx_ended (mux_send f m) = None \<Longrightarrow> ct_queue (mx_ctrl (mux_send f m)) = ct_queue (mx_ctrl m) @ [f]"
  by (auto simp: mux_send_def ctrl_send_def end_session_def Let_def split: if_splits)

lemma mux_send_ended: "mx_ended (mux_send f m) = None \<Longrightarrow> mx_ended m = None"
  by (auto simp: mux_send_def end_session_def Let_def split: prod.splits if_splits)

lemma initiate_open_announces:
  assumes "in_peer_fc m" "mx_ended (initiate_open sid m) = None"
  shows "ct_queue (mx_ctrl (initiate_open sid m)) = ct_queue (mx_ctrl m) @ [fc_on_frame sid, Open sid (in_target m)]"
proof -
  define m1 where "m1 = new_cell sid True (m\<lparr>in_next_id := bump_id sid\<rparr>)"
  define m2 where "m2 = mux_send (fc_on_frame sid) m1"
  define m3 where "m3 = mux_send (Open sid (in_target m)) m2"
  have eq: "initiate_open sid m = (if mx_ended m2 \<noteq> None then m2 else if mx_ended m3 \<noteq> None then m3 else spawn_stream sid m3)"
    using assms(1) by (simp add: initiate_open_def Let_def m1_def m2_def m3_def)
  then have "mx_ended m2 = None" "mx_ended m3 = None" "initiate_open sid m = spawn_stream sid m3"
    using assms(2) by (auto split: if_splits)
  then show ?thesis
    using mux_send_queue [of "fc_on_frame sid" m1] mux_send_queue [of "Open sid (in_target m)" m2]
    by (simp add: m2_def m3_def m1_def new_cell_def spawn_stream_def)
qed

lemma example_dial:
  "\<exists>m. accept_step\<^sup>*\<^sup>* (accept_start (Some ''10.0.0.1:22,127.0.0.1:22'') None 4 True 262144) m
     \<and> ac_dialed m = [(1, ''127.0.0.1:22'')]"
proof -
  let ?m = "accept_start (Some ''10.0.0.1:22,127.0.0.1:22'') None 4 True 262144"
  have "accept_step ?m (accept_open 1 ''127.0.0.1:22'' (?m\<lparr>mx_unacked_since := None\<rparr>))"
    by (rule as_frame [where fr = "Ok (Open 1 ''127.0.0.1:22'')"]) (simp_all add: accept_start_def accept_frame_def)
  moreover have "ac_dialed (accept_open 1 ''127.0.0.1:22'' (?m\<lparr>mx_unacked_since := None\<rparr>)) = [(1, ''127.0.0.1:22'')]"
    using example_allowed
    by (simp add: accept_open_def accept_start_def CONTROL_ID_def entry_of_def log_line_def spawn_stream_def new_cell_def)
  ultimately show ?thesis by blast
qed

section \<open>Properties\<close>

text \<open>What the invariant bounds.\<close>

definition bounded :: "nat \<Rightarrow> 'a mux_scheme \<Rightarrow> bool" where
  "bounded n m =
     (length (mx_running m) \<le> n \<and> distinct (map fst (mx_running m)) \<and> 0 \<notin> fst ` set (mx_running m)
      \<and> (\<forall>sid c. mx_cells m sid = Some c \<longrightarrow>
           (if sc_credited c then queued_bytes c \<le> FC_WINDOW else length (sc_queue c) \<le> CHANNEL_CAP)
           \<and> (\<forall>a. sc_avail c = Some a \<longrightarrow> a \<le> FC_WINDOW + DATA_CHUNK_LEN))
      \<and> length (mx_pending_fc m) \<le> MAX_PENDING_FC \<and> length (ct_queue (mx_ctrl m)) \<le> CTRL_BACKLOG_CAP
      \<and> (\<forall>s. mx_session m = Some s \<longrightarrow> session_wf s)
      \<and> (mx_ended m \<noteq> None \<longrightarrow> mx_tasks m = []))"

lemma mux_inv_bounded: "mux_inv m \<Longrightarrow> bounded (mx_max_streams m) m"
proof -
  assume inv: "mux_inv m"
  have "(if sc_credited c then queued_bytes c \<le> FC_WINDOW else length (sc_queue c) \<le> CHANNEL_CAP)
      \<and> (\<forall>a. sc_avail c = Some a \<longrightarrow> a \<le> FC_WINDOW + DATA_CHUNK_LEN)" if "mx_cells m sid = Some c" for sid c
    using mux_inv_cells_ok [OF inv that] by (auto simp: cell_ok_def split: if_splits)
  with inv show ?thesis by (simp add: bounded_def mux_inv_defs)
qed

text \<open>
  The initiate engine is bounded whatever the peer sends and in whatever order its branches,
  its pumps and its writer run: never more streams than the limit, every stream id in use once and
  never the control id, at most the credit window of bytes buffered for a stream with credit and at
  most the queue's capacity for one without, no stream's credit above the window by more than the
  chunk a waiting pump holds, a bounded list of announced streams, a bounded control queue, a
  session window whose accounts add up, and no stream task once the session has ended.
\<close>

theorem initiate_engine_bounded:
  assumes "initiate_step\<^sup>*\<^sup>* (initiate_start target max_streams fc w) m"
  shows "bounded max_streams m"
  using initiate_reach [OF assms] mux_inv_bounded [of m] by auto

theorem initiate_engine_bounded_witness:
  "\<exists>m. initiate_step\<^sup>*\<^sup>* (initiate_start ''localhost:22'' 4 False 262144) m \<and> mx_running m \<noteq> [] \<and> bounded 4 m"
proof -
  let ?m = "initiate_start ''localhost:22'' 4 False 262144"
  have "initiate_accept ?m = Some (initiate_open 1 ?m)"
    by (simp add: initiate_accept_def initiate_start_def)
  then have "initiate_step ?m (initiate_open 1 ?m)"
    by (intro is_accept) (simp_all add: initiate_start_def)
  then have r: "initiate_step\<^sup>*\<^sup>* ?m (initiate_open 1 ?m)" by (rule r_into_rtranclp)
  moreover have "mx_running (initiate_open 1 ?m) \<noteq> []"
    by (simp add: initiate_open_def initiate_start_def spawn_stream_def new_cell_def)
  ultimately show ?thesis using initiate_engine_bounded [OF r] by blast
qed

text \<open>
  C2: The accept engine is bounded in the same way, whatever the peer sends.
\<close>

theorem accept_engine_bounded:
  assumes "accept_step\<^sup>*\<^sup>* (accept_start allow non_loopback max_streams fc w) m"
  shows "bounded max_streams m"
proof -
  have "mux_inv m" "mx_max_streams m = max_streams"
    using accept_reach [OF assms] by (auto simp: same_policy_def accept_start_def)
  then show ?thesis using mux_inv_bounded [of m] by simp
qed

theorem accept_engine_bounded_witness:
  "\<exists>m :: accept. ac_dialed m = [(1, ''127.0.0.1:22'')] \<and> bounded 4 m"
proof -
  obtain m where m: "accept_step\<^sup>*\<^sup>* (accept_start (Some ''10.0.0.1:22,127.0.0.1:22'') None 4 True 262144) m"
    "ac_dialed m = [(1, ''127.0.0.1:22'')]" using example_dial by blast
  then show ?thesis using accept_engine_bounded [OF m(1)] by blast
qed

text \<open>
  C1: The policy gate stands before every dial. Whatever frames a peer sends in whatever order, the
  accept engine hands a target to a dialling task only if the gate accepts it under the two policy
  strings the engine was started with; with the feature off, it dials nothing at all.
\<close>

theorem accept_engine_dials_only_allowed:
  assumes "accept_step\<^sup>*\<^sup>* (accept_start allow non_loopback max_streams fc w) m"
  shows "list_all (\<lambda>(sid, t). fst (accept_forward_request_with t allow non_loopback) = Ok ()) (ac_dialed m)
    \<and> (parse_forward_allowlist allow = [] \<longrightarrow> ac_dialed m = [])"
proof -
  have pol: "policy_inv m" "ac_allow m = allow" "ac_non_loopback m = non_loopback"
    using accept_reach [OF assms] by (auto simp: same_policy_def accept_start_def)
  have "fst (accept_forward_request_with t allow non_loopback) \<noteq> Ok ()" if "parse_forward_allowlist allow = []" for t
    using that by (simp add: accept_forward_request_with_def decide_forward_def Let_def)
  with pol show ?thesis by (cases "ac_dialed m") (auto simp: policy_inv_def)
qed

theorem accept_engine_dials_only_allowed_witness:
  "\<exists>m. ac_dialed m = [(1, ''127.0.0.1:22'')] \<and> list_all (\<lambda>(sid, t).
      fst (accept_forward_request_with t (Some ''10.0.0.1:22,127.0.0.1:22'') None) = Ok ()) (ac_dialed (m :: accept))"
proof -
  obtain m where m: "accept_step\<^sup>*\<^sup>* (accept_start (Some ''10.0.0.1:22,127.0.0.1:22'') None 4 True 262144) m"
    "ac_dialed m = [(1, ''127.0.0.1:22'')]" using example_dial by blast
  then show ?thesis using accept_engine_dials_only_allowed [OF m(1)] by blast
qed

text \<open>
  The initiate engine never fails to find a stream id while fewer than all ids are in use: a
  new local connection is refused, or it becomes a stream under an id that no running stream has,
  that is not the control id; and a stream with credit puts its announcement and its \<open>Open\<close> next to
  each other on the control queue, or the session ends.
\<close>

theorem initiate_accept_fresh:
  assumes "initiate_step\<^sup>*\<^sup>* (initiate_start target max_streams fc w) m" "mx_ended m = None"
    "max_streams < 2 ^ 32 - 1"
  shows "\<exists>m'. initiate_accept m = Some m' \<and>
     (if in_stop m \<or> max_streams \<le> length (mx_running m) then m' = m
      else \<exists>sid. sid \<noteq> 0 \<and> sid \<notin> fst ` set (mx_running m) \<and> m' = initiate_open sid m
        \<and> (in_peer_fc m \<and> mx_ended m' = None \<longrightarrow>
             ct_queue (mx_ctrl m') = ct_queue (mx_ctrl m) @ [fc_on_frame sid, Open sid (in_target m)]))"
proof (cases "in_stop m \<or> max_streams \<le> length (mx_running m)")
  case True
  then show ?thesis using initiate_reach [OF assms(1)] by (auto simp: initiate_accept_def)
next
  case False
  have inv: "mux_inv m" "in_next_id m \<noteq> 0" "mx_max_streams m = max_streams" using initiate_reach [OF assms(1)] by auto
  have "length (map fst (mx_running m)) < 2 ^ 32 - 1" using False assms(3) by simp
  from free_id_total [OF inv(2) this] obtain sid where
    sid: "free_id (Suc (length (mx_running m))) (map fst (mx_running m)) (in_next_id m) = Some sid" by auto
  then have "initiate_accept m = Some (initiate_open sid m)" using False inv(3) by (simp add: initiate_accept_def)
  moreover have "sid \<noteq> 0" "sid \<notin> fst ` set (mx_running m)" using free_id_Some [OF sid inv(2)] by auto
  ultimately show ?thesis using False initiate_open_announces [of m sid] by auto
qed

theorem initiate_accept_fresh_witness:
  "\<exists>m' sid. initiate_accept (initiate_start ''localhost:22'' 4 False 262144) = Some m' \<and> sid \<noteq> 0
     \<and> m' = initiate_open sid (initiate_start ''localhost:22'' 4 False 262144)"
  using initiate_accept_fresh [of "''localhost:22''" 4 False 262144, OF rtranclp.rtrancl_refl]
  by (auto simp: initiate_start_def)

end
