(* ===== verification/GrantWatch.thy ===== *)
theory GrantWatch
  imports Rust_Text
begin

text \<open>
  \<^verbatim>\<open>channel_run/grant_watch.rs\<close>: the periodic re-check of the peer's grant at the control plane, and
  the grant ends of \<^verbatim>\<open>channel_run/peer_grant.rs\<close> that it reports. An operator-facing message is
  represented by the values it is built from.

  The loop is a function of the list of things that happen to it: each question takes some time and
  is answered, or the session closes meanwhile. The HTTP exchange and the JSON parser are parameters.
\<close>

section \<open>Grant ends\<close>

datatype unreadable_why =
    RequestFailed string
  | UnreadableAnswer string
  | UnknownState "string option"
  | AnsweredCode nat
  | NoStatusEndpoint

datatype grant_reason =
    PeerRevoked
  | PeerNotMember
  | AskerGone
  | NotRechecked nat unreadable_why
  | RecheckStopped
  | RevokedByHandle string
  | PeerExpired nat
  | OwnExpired nat
  | SomeExpired
  | MemberGrantExpired nat
  | AdmissionRefused string

datatype grant_end_scope = OwnScope | PeerScope

record grant_end =
  scope :: grant_end_scope
  reason :: grant_reason

definition own_end :: "grant_reason \<Rightarrow> grant_end" where
  "own_end r = \<lparr>scope = OwnScope, reason = r\<rparr>"

definition peer_end :: "grant_reason \<Rightarrow> grant_end" where
  "peer_end r = \<lparr>scope = PeerScope, reason = r\<rparr>"

lemma scope_own_end [simp]: "scope (own_end r) = OwnScope" "reason (own_end r) = r"
  by (simp_all add: own_end_def)

lemma scope_peer_end [simp]: "scope (peer_end r) = PeerScope" "reason (peer_end r) = r"
  by (simp_all add: peer_end_def)

section \<open>Configuration\<close>



definition MIN_INTERVAL_SECS :: nat where "MIN_INTERVAL_SECS = 5"

record watch_config =
  interval :: duration
  grace :: duration
  require :: bool




definition config_ok :: "watch_config \<Rightarrow> bool" where
  "config_ok c \<longleftrightarrow> secs MIN_INTERVAL_SECS \<le> interval c \<and> interval c \<le> grace c"


section \<open>The signed question\<close>

text \<open>\<^verbatim>\<open>u64::to_le_bytes\<close>.\<close>

definition u64_le :: "u64 \<Rightarrow> bytes" where "u64_le w = rev (to_be 8 (unat w))"

definition status_signing_bytes :: "bytes \<Rightarrow> bytes \<Rightarrow> bytes \<Rightarrow> u64 \<Rightarrow> bytes" where
  "status_signing_bytes channel peer digest ts =
     str_bytes ''ct-grant-status:v1|'' @ channel @ [0x7c] @ peer @ [0x7c] @ digest @ [0x7c] @ u64_le ts"

lemma u64_le_inj: "u64_le a = u64_le b \<Longrightarrow> a = b"
proof -
  assume "u64_le a = u64_le b"
  then have "from_be (to_be 8 (unat a)) = from_be (to_be 8 (unat b))" by (simp add: u64_le_def)
  moreover have "unat w < 256 ^ 8" for w :: u64 using unsigned_less [of w] by simp
  ultimately have "unat a = unat b" by (simp add: from_be_to_be_id)
  then show ?thesis by (simp add: word_unat_eq_iff)
qed

lemma length_u64_le [simp]: "length (u64_le w) = 8"
  by (simp add: u64_le_def)

text \<open>A signature over one question is not a signature over another.\<close>

lemma status_signing_bytes_inj:
  assumes "length c = 32" "length p = 32" "length d = 32" "length c' = 32" "length p' = 32" "length d' = 32"
    and "status_signing_bytes c p d t = status_signing_bytes c' p' d' t'"
  shows "c = c' \<and> p = p' \<and> d = d' \<and> t = t'"
  using assms by (auto simp: status_signing_bytes_def dest: u64_le_inj)

section \<open>The answer\<close>

datatype grant_state = Valid | Revoked | NotMember | AskerNotMember

datatype status_error = Unsupported | Unreadable unreadable_why

type_synonym verdict = "status_error + grant_state"

text \<open>\<open>json_state body\<close> is the string at \<^verbatim>\<open>"state"\<close> when the body is JSON with one.\<close>

definition classify_answer :: "(string \<Rightarrow> string option) \<Rightarrow> nat \<Rightarrow> string \<Rightarrow> verdict" where
  "classify_answer json_state code body =
     (let state = json_state body in
      if code = 404 \<and> state = Some ''unknown-channel'' then Ok NotMember
      else if code = 404 then Err Unsupported
      else if code = 403 \<and> state = Some ''asker-not-member'' then Ok AskerNotMember
      else if 200 \<le> code \<and> code \<le> 299 then
        (if state = Some ''valid'' then Ok Valid
         else if state = Some ''revoked'' then Ok Revoked
         else if state = Some ''not-member'' then Ok NotMember
         else Err (Unreadable (UnknownState state)))
      else Err (Unreadable (AnsweredCode code)))"

text \<open>\<^verbatim>\<open>CpStatusSource::ask\<close> from the outcome of the HTTP request on.\<close>

datatype http_outcome = SendFailed string | BodyFailed string | Answered nat string

definition ask :: "(string \<Rightarrow> string option) \<Rightarrow> http_outcome \<Rightarrow> verdict" where
  "ask json_state resp =
     (case resp of
        SendFailed e \<Rightarrow> Err (Unreadable (RequestFailed e))
      | BodyFailed e \<Rightarrow> Err (Unreadable (UnreadableAnswer e))
      | Answered code body \<Rightarrow> classify_answer json_state code body)"

section \<open>The loop\<close>

record watch =
  w_now :: nat
  last_valid :: nat
  warned_once :: bool
  first :: bool
  notices :: nat

definition watch_start :: "nat \<Rightarrow> watch" where
  "watch_start t = \<lparr>w_now = t, last_valid = t, warned_once = False, first = True, notices = 0\<rparr>"

text \<open>What a turn of the loop meets: the session closes, or the answer comes after \<open>d\<close>.\<close>

datatype watch_input = SessionClosed | AnswerAfter duration verdict

datatype watch_result = Watching | SessionOver | WatchEnds grant_end

definition watch_verdict :: "watch_config \<Rightarrow> verdict \<Rightarrow> verdict" where
  "watch_verdict c v =
     (if v = Err Unsupported \<and> require c then Err (Unreadable NoStatusEndpoint) else v)"

definition watch_turn :: "watch_config \<Rightarrow> watch \<Rightarrow> watch_input \<Rightarrow> watch \<times> watch_result" where
  "watch_turn c w i =
     (case i of
        SessionClosed \<Rightarrow> (w, SessionOver)
      | AnswerAfter d v \<Rightarrow>
         (let now = w_now w + (if first w then 0 else interval c) + d;
              w' = w\<lparr>w_now := now, first := False\<rparr> in
          case watch_verdict c v of
            Inr Valid \<Rightarrow> (w'\<lparr>last_valid := now\<rparr>, Watching)
          | Inr Revoked \<Rightarrow> (w', WatchEnds (peer_end PeerRevoked))
          | Inr NotMember \<Rightarrow> (w', WatchEnds (peer_end PeerNotMember))
          | Inr AskerNotMember \<Rightarrow> (w', WatchEnds (own_end AskerGone))
          | Inl Unsupported \<Rightarrow>
              (w'\<lparr>last_valid := now, warned_once := True,
                  notices := (if warned_once w then notices w else Suc (notices w))\<rparr>, Watching)
          | Inl (Unreadable why) \<Rightarrow>
              (let silent = now - last_valid w in
               if silent < grace c then (w', Watching)
               else (w', WatchEnds (peer_end (NotRechecked (silent div secs 1) why))))))"

fun watch_peer_grant :: "watch_config \<Rightarrow> watch \<Rightarrow> watch_input list \<Rightarrow> watch \<times> watch_result" where
  "watch_peer_grant c w [] = (w, Watching)"
| "watch_peer_grant c w (i # is) =
     (case watch_turn c w i of
        (w', Watching) \<Rightarrow> watch_peer_grant c w' is
      | (w', r) \<Rightarrow> (w', r))"

lemma watch_peer_grant_append:
  "watch_peer_grant c w (is @ js) =
     (case watch_peer_grant c w is of
        (w', Watching) \<Rightarrow> watch_peer_grant c w' js
      | (w', r) \<Rightarrow> (w', r))"
  by (induction c w "is" rule: watch_peer_grant.induct) (auto split: prod.splits watch_result.splits)

subsection \<open>One warning per session\<close>




subsection \<open>Failing closed\<close>

text \<open>
  An answer that keeps the session alive: \<^verbatim>\<open>valid\<close>, or a control plane without the endpoint unless
  the strict mode is on.
\<close>

definition keeps_alive :: "watch_config \<Rightarrow> verdict \<Rightarrow> bool" where
  "keeps_alive c v \<longleftrightarrow> v = Ok Valid \<or> v = Err Unsupported \<and> \<not> require c"










text \<open>
  What ends a watched session. As long as the watch runs on, the last answer that kept it alive
  is less than the grace old; a definite answer of the control plane ends it on the spot, with the
  side whose standing ended.
\<close>

theorem watch_turn_outcome:
  assumes "config_ok c" and "watch_turn c w (AnswerAfter d v) = (w', r)"
  shows "(r = Watching \<longrightarrow> w_now w' - last_valid w' < grace c)
     \<and> (v = Ok Revoked \<longrightarrow> r = WatchEnds (peer_end PeerRevoked))
     \<and> (v = Ok NotMember \<longrightarrow> r = WatchEnds (peer_end PeerNotMember))
     \<and> (v = Ok AskerNotMember \<longrightarrow> r = WatchEnds (own_end AskerGone))
     \<and> (keeps_alive c v \<longrightarrow> r = Watching \<and> last_valid w' = w_now w')
     \<and> (\<forall>e. r = WatchEnds e \<and> scope e = OwnScope \<longrightarrow> v = Ok AskerNotMember)"
proof -
  have "0 < grace c" using assms(1) by (auto simp: config_ok_def MIN_INTERVAL_SECS_def secs_def)
  then show ?thesis using assms(2)
    by (auto simp: watch_turn_def watch_verdict_def keeps_alive_def Let_def
        split: sum.splits grant_state.splits status_error.splits if_splits)
qed

theorem watch_turn_outcome_witness:
  "config_ok \<lparr>interval = secs 30, grace = secs 90, require = False\<rparr>
   \<and> (\<exists>w' :: watch. watch_turn \<lparr>interval = secs 30, grace = secs 90, require = False\<rparr> (watch_start 0)
        (AnswerAfter 7 (Ok Revoked)) = (w', WatchEnds (peer_end PeerRevoked)))"
proof -
  have c: "config_ok \<lparr>interval = secs 30, grace = secs 90, require = False\<rparr>"
    by (simp add: config_ok_def MIN_INTERVAL_SECS_def secs_def)
  obtain w' r where t: "watch_turn \<lparr>interval = secs 30, grace = secs 90, require = False\<rparr> (watch_start 0)
      (AnswerAfter 7 (Ok Revoked)) = (w', r)" by fastforce
  from watch_turn_outcome [OF c t] t c show ?thesis by simp
qed

end
