(* ===== verification/Reconnect.thy ===== *)
theory Reconnect
  imports Complex_Main Rust_Prelude
begin

text \<open>
  The reconnect backoff (\<^verbatim>\<open>reconnect.rs\<close>): \<^verbatim>\<open>Backoff\<close>, \<^verbatim>\<open>equal_jitter\<close> and the
  \<^verbatim>\<open>ReconnectPolicy\<close> that the serve loop feeds with failures and successes. A \<^verbatim>\<open>Duration\<close> is a
  number of nanoseconds. The jitter sample is a \<^verbatim>\<open>f64\<close> in the code and a real number here:
  \<^verbatim>\<open>Duration::mul_f64\<close> is the exact product, rounded to a nanosecond the way
  \<^verbatim>\<open>Duration::from_secs_f64\<close> rounds (to the nearest, a tie to the even one).
\<close>

definition DURATION_MAX :: duration where
  "DURATION_MAX = secs U64_MAX + 999999999"

definition checked_mul :: "duration \<Rightarrow> nat \<Rightarrow> duration option" where
  "checked_mul d k = (if d * k \<le> DURATION_MAX then Some (d * k) else None)"

definition round_half_even :: "real \<Rightarrow> int" where
  "round_half_even x =
     (let q = \<lfloor>x\<rfloor>; f = x - of_int q
      in if f < 1 / 2 then q else if 1 / 2 < f then q + 1 else if even q then q else q + 1)"

definition mul_f64 :: "duration \<Rightarrow> real \<Rightarrow> duration" where
  "mul_f64 d r = nat (round_half_even (r * real d))"

definition clamp01 :: "real \<Rightarrow> real" where
  "clamp01 r = (if r < 0 then 0 else if 1 < r then 1 else r)"

definition equal_jitter :: "duration \<Rightarrow> real \<Rightarrow> duration" where
  "equal_jitter d rand01 =
     (let half = d div 2; span = d - half in half + mul_f64 span (clamp01 rand01))"

record backoff =
  bo_base :: duration
  bo_max :: duration
  bo_max_attempts :: nat
  bo_attempt :: nat

definition backoff_new :: "duration \<Rightarrow> duration \<Rightarrow> nat \<Rightarrow> backoff" where
  "backoff_new b m n = \<lparr>bo_base = b, bo_max = m, bo_max_attempts = n, bo_attempt = 0\<rparr>"

definition next_delay :: "backoff \<Rightarrow> duration option \<times> backoff" where
  "next_delay b =
     (if bo_attempt b \<ge> bo_max_attempts b then (None, b)
      else (let shift = min (bo_attempt b) 31;
                delay = min (case checked_mul (bo_base b) (2 ^ shift) of None \<Rightarrow> bo_max b | Some d \<Rightarrow> d)
                            (bo_max b)
            in (Some delay, b\<lparr>bo_attempt := bo_attempt b + 1\<rparr>)))"

definition next_delay_jittered :: "real \<Rightarrow> backoff \<Rightarrow> duration option \<times> backoff" where
  "next_delay_jittered rand01 b =
     (let (d, b') = next_delay b in (map_option (\<lambda>d. equal_jitter d rand01) d, b'))"

definition backoff_reset :: "backoff \<Rightarrow> backoff" where
  "backoff_reset b = b\<lparr>bo_attempt := 0\<rparr>"

definition attempts_made :: "backoff \<Rightarrow> nat" where
  "attempts_made b = bo_attempt b"

datatype retry = After duration | GiveUp

record reconnect_policy =
  rp_backoff :: backoff

definition policy_new :: "duration \<Rightarrow> duration \<Rightarrow> nat \<Rightarrow> reconnect_policy" where
  "policy_new b m n = \<lparr>rp_backoff = backoff_new b m n\<rparr>"

definition after_failure :: "real \<Rightarrow> reconnect_policy \<Rightarrow> retry \<times> reconnect_policy" where
  "after_failure rand01 p =
     (let (d, b) = next_delay_jittered rand01 (rp_backoff p)
      in (case d of Some d \<Rightarrow> After d | None \<Rightarrow> GiveUp, p\<lparr>rp_backoff := b\<rparr>))"

definition after_success :: "reconnect_policy \<Rightarrow> reconnect_policy" where
  "after_success p = p\<lparr>rp_backoff := backoff_reset (rp_backoff p)\<rparr>"

definition failures_since_success :: "reconnect_policy \<Rightarrow> nat" where
  "failures_since_success p = attempts_made (rp_backoff p)"

text \<open>
  A history of the two events a loop feeds the policy, the state it leaves, and the number of
  failures after the last success, which is all of the history that should matter.
\<close>

datatype reconnect_event = Failed real | Connected

fun policy_step :: "reconnect_event \<Rightarrow> reconnect_policy \<Rightarrow> reconnect_policy" where
  "policy_step (Failed r) p = snd (after_failure r p)"
| "policy_step Connected p = after_success p"

definition policy_run :: "reconnect_event list \<Rightarrow> reconnect_policy \<Rightarrow> reconnect_policy" where
  "policy_run evs p = fold policy_step evs p"

definition trailing_failures :: "reconnect_event list \<Rightarrow> nat" where
  "trailing_failures evs = length (takeWhile (\<lambda>e. e \<noteq> Connected) (rev evs))"

definition ideal_delay :: "duration \<Rightarrow> duration \<Rightarrow> nat \<Rightarrow> duration" where
  "ideal_delay b m k = min m (b * 2 ^ min k 31)"

lemmas backoff_defs = backoff_new_def next_delay_def next_delay_jittered_def backoff_reset_def
  attempts_made_def policy_new_def after_failure_def after_success_def failures_since_success_def

lemma round_half_even_between:
  assumes "of_int lo \<le> x" "x \<le> of_int hi"
  shows "lo \<le> round_half_even x \<and> round_half_even x \<le> hi"
proof -
  have lo: "lo \<le> \<lfloor>x\<rfloor>" using assms(1) by (simp add: le_floor_iff)
  have "\<lfloor>x\<rfloor> < hi \<or> x = of_int hi" using assms(2) by linarith
  then show ?thesis
    using lo assms by (auto simp: round_half_even_def Let_def floor_le_iff)
qed

lemma mul_f64_le: "0 \<le> r \<Longrightarrow> r \<le> 1 \<Longrightarrow> mul_f64 d r \<le> d"
proof -
  assume "0 \<le> r" "r \<le> 1"
  then have "0 \<le> r * real d" "r * real d \<le> of_int (int d)"
    by (auto simp: mult_left_le_one_le)
  then show ?thesis using round_half_even_between [of 0 "r * real d" "int d"]
    by (simp add: mul_f64_def nat_le_iff)
qed

lemma equal_jitter_range: "d div 2 \<le> equal_jitter d r \<and> equal_jitter d r \<le> d"
proof -
  have "mul_f64 (d - d div 2) (clamp01 r) \<le> d - d div 2"
    by (rule mul_f64_le) (auto simp: clamp01_def)
  then show ?thesis by (simp add: equal_jitter_def Let_def)
qed

lemma equal_jitter_ends:
  "r \<le> 0 \<Longrightarrow> equal_jitter d r = d div 2" "1 \<le> r \<Longrightarrow> equal_jitter d r = d"
proof -
  assume "r \<le> 0"
  then have "clamp01 r = 0" by (simp add: clamp01_def)
  then show "equal_jitter d r = d div 2"
    by (simp add: equal_jitter_def mul_f64_def round_half_even_def Let_def)
next
  assume "1 \<le> r"
  then have "clamp01 r = 1" by (auto simp: clamp01_def)
  then show "equal_jitter d r = d"
    by (simp add: equal_jitter_def mul_f64_def round_half_even_def Let_def)
qed

lemma policy_run_snoc [simp]: "policy_run (evs @ [e]) p = policy_step e (policy_run evs p)"
  by (simp add: policy_run_def)

lemma trailing_failures_simps [simp]:
  "trailing_failures [] = 0"
  "trailing_failures (evs @ [Connected]) = 0"
  "trailing_failures (evs @ [Failed r]) = Suc (trailing_failures evs)"
  by (simp_all add: trailing_failures_def)

lemma policy_run_state:
  "rp_backoff (policy_run evs (policy_new b m n))
     = \<lparr>bo_base = b, bo_max = m, bo_max_attempts = n, bo_attempt = min n (trailing_failures evs)\<rparr>"
proof (induction evs rule: rev_induct)
  case Nil
  show ?case by (simp add: policy_run_def backoff_defs)
next
  case (snoc e evs)
  then show ?case by (cases e) (auto simp: backoff_defs Let_def split: prod.splits)
qed

lemma next_delay_ideal:
  "m \<le> DURATION_MAX \<Longrightarrow> k < n \<Longrightarrow>
   fst (next_delay \<lparr>bo_base = b, bo_max = m, bo_max_attempts = n, bo_attempt = k\<rparr>)
     = Some (ideal_delay b m k)"
  by (auto simp: next_delay_def checked_mul_def ideal_delay_def Let_def)

text \<open>
  C30: After any history of failures and successes, what the policy does on one more failure
  depends only on the number of failures since the last success. While that number is below the
  attempt budget it says to wait for a time between the half and the whole of
  \<open>min max (base * 2^k)\<close> (the doubling stops at the 31st step), never above \<open>max\<close>; and when the
  budget is spent, and only then, it gives up. The counter the status line reports is that number,
  held at the budget.
\<close>

theorem reconnect_policy_correct:
  assumes "m \<le> DURATION_MAX"
  shows "let p = policy_run evs (policy_new b m n); k = trailing_failures evs; d\<^sub>k = ideal_delay b m k
         in failures_since_success p = min n k \<and>
            (case fst (after_failure r p) of
               GiveUp \<Rightarrow> n \<le> k
             | After d \<Rightarrow> k < n \<and> d\<^sub>k div 2 \<le> d \<and> d \<le> d\<^sub>k \<and> d \<le> m)"
proof -
  define k where "k = trailing_failures evs"
  define p where "p = policy_run evs (policy_new b m n)"
  note st = policy_run_state [of evs b m n, folded p_def k_def]
  have "failures_since_success p = min n k"
    by (simp add: failures_since_success_def attempts_made_def st)
  moreover have "fst (after_failure r p) = GiveUp" if "n \<le> k"
    using that by (simp add: after_failure_def next_delay_jittered_def next_delay_def st)
  moreover have "fst (after_failure r p) = After (equal_jitter (ideal_delay b m k) r)" if "k < n"
    using next_delay_ideal [of m k n b] assms that
    by (auto simp: after_failure_def next_delay_jittered_def st Let_def min_absorb2 split: prod.splits)
  moreover have "ideal_delay b m k \<le> m" by (simp add: ideal_delay_def)
  ultimately show ?thesis
    using equal_jitter_range [of "ideal_delay b m k" r]
    unfolding Let_def p_def [symmetric] k_def [symmetric]
    by (cases "n \<le> k") auto
qed

theorem reconnect_policy_correct_witness:
  "secs 30 \<le> DURATION_MAX \<and>
   (case fst (after_failure (1 / 2)
          (policy_run [Failed 0, Connected, Failed 1, Failed 0] (policy_new (secs 1) (secs 30) 5))) of
      GiveUp \<Rightarrow> False | After d \<Rightarrow> secs 2 \<le> d \<and> d \<le> secs 4)"
proof -
  have k: "trailing_failures [Failed 0, Connected, Failed 1, Failed 0] = 2"
    by (simp add: trailing_failures_def)
  have m: "secs 30 \<le> DURATION_MAX" by (simp add: DURATION_MAX_def secs_def U64_MAX_def)
  show ?thesis
    using reconnect_policy_correct [OF m, of "[Failed 0, Connected, Failed 1, Failed 0]" "secs 1" 5 "1 / 2"] m
    unfolding k Let_def by (auto simp: ideal_delay_def secs_def split: retry.splits)
qed

end
