(* ===== verification/Backoff_Schedule.thy ===== *)
theory Backoff_Schedule
  imports Reconnect
begin

text \<open>
  The contract of a backoff that the loops of the agent rely on: a delay for the number of failures in
  a row, from a base that doubles up to a cap. The provider promises that the delay grows with the
  streak, stays below the cap and never falls below the base. The client, proved once: a wait that is
  jittered over such a delay is never shorter than half the base nor longer than the cap, and so are
  the waits of a whole run of failures.
\<close>

locale backoff_schedule =
  fixes delay :: "duration \<Rightarrow> nat \<Rightarrow> duration"
    and cap :: duration
  assumes delay_le_cap: "delay base k \<le> cap"
    and base_le_delay: "base \<le> cap \<Longrightarrow> base \<le> delay base k"
    and delay_mono: "j \<le> k \<Longrightarrow> delay base j \<le> delay base k"
begin

lemma wait_range:
  assumes "base \<le> cap"
  shows "base div 2 \<le> equal_jitter (delay base k) r \<and> equal_jitter (delay base k) r \<le> cap"
proof -
  have "base div 2 \<le> delay base k div 2" using base_le_delay [OF assms] by (rule div_le_mono)
  then show ?thesis using equal_jitter_range [of "delay base k" r] delay_le_cap [of base k] by linarith
qed

lemma wait_after_streak: "j \<le> k \<Longrightarrow> delay base j div 2 \<le> equal_jitter (delay base k) r"
  using equal_jitter_range [of "delay base k" r] div_le_mono [OF delay_mono [of j k base], of 2] by linarith

lemma run_range:
  assumes "base \<le> cap"
  shows "length rs * (base div 2) \<le> sum_list (map (\<lambda>(k, r). equal_jitter (delay base k) r) rs)
    \<and> sum_list (map (\<lambda>(k, r). equal_jitter (delay base k) r) rs) \<le> length rs * cap"
proof (induction rs)
  case (Cons x rs)
  obtain k r where x: "x = (k, r)" by fastforce
  from Cons wait_range [OF assms, of k r] show ?case by (auto simp: x)
qed simp

end

text \<open>The shape all four backoffs of the admission loops have.\<close>

lemma doubling_schedule:
  assumes "\<And>j k. j \<le> k \<Longrightarrow> step j \<le> (step k :: nat)" and "\<And>b k. d b k = min (b * 2 ^ step k) c"
  shows "backoff_schedule d c"
proof
  fix j k base :: nat
  assume "j \<le> k"
  then have "(2 :: nat) ^ step j \<le> 2 ^ step k" using assms(1) by simp
  then have "base * 2 ^ step j \<le> base * 2 ^ step k" by simp
  then show "d base j \<le> d base k" unfolding assms(2) by linarith
qed (simp_all add: assms(2))

end
