(* ===== verification/AdmissionErrors.thy ===== *)
theory AdmissionErrors
  imports Backoff_Schedule
begin

text \<open>
  \<^verbatim>\<open>channel_run/errors.rs\<close> and the dial error of \<^verbatim>\<open>channel_run/dialing.rs\<close>: the typed admission
  errors, how they are classified, and the backoffs each class gets.

  A boxed error is a tree of the types the code downcasts to; every other error is its text and its
  \<^verbatim>\<open>source()\<close>. \<open>names_park\<close> stands for \<^verbatim>\<open>ct_common\<close>'s \<^verbatim>\<open>error_names_park_expiry\<close>.
\<close>

section \<open>Errors\<close>

datatype io_err_kind = KUnexpectedEof | KPermissionDenied | KOther

datatype err =
    AdmissionRefusedErr string "string option"
  | ParkExpiredErr string
  | RelayPairTimeoutErr duration
  | OwnGrantEndedErr string
  | DialUnreachable
  | DialConnectFailed err
  | DialFailed err
  | IoErr io_err_kind string
  | IoCarrying io_err_kind err
  | OtherErr string "err option"

fun display :: "err \<Rightarrow> string" where
  "display (AdmissionRefusedErr t c) = t"
| "display (ParkExpiredErr t) = t"
| "display (RelayPairTimeoutErr d) = ''relay leg found no partner within '' @ show_nat (d div secs 1)
     @ ''s -- closed it (CT_CHANNEL_RELAY_PAIR_SECS)''"
| "display (OwnGrantEndedErr r) = r"
| "display DialUnreachable = ''peer unreachable on the direct path''"
| "display (DialConnectFailed e) = ''front-door TLS connect failed: '' @ display e"
| "display (DialFailed e) = ''direct dial failed: '' @ display e"
| "display (IoErr k t) = t"
| "display (IoCarrying k e) = display e"
| "display (OtherErr t s) = t"

text \<open>The \<^verbatim>\<open>source()\<close> of an \<^verbatim>\<open>io::Error\<close> that carries an error is that error's source.\<close>

fun source :: "err \<Rightarrow> err option" where
  "source (DialConnectFailed e) = Some e"
| "source (DialFailed e) = Some e"
| "source (IoCarrying k e) = source e"
| "source (OtherErr t s) = s"
| "source _ = None"

lemma source_size: "source e = Some s \<Longrightarrow> size s < size e"
  by (induction e rule: source.induct) auto

function source_chain :: "err \<Rightarrow> err list" where
  "source_chain e = e # (case source e of None \<Rightarrow> [] | Some s \<Rightarrow> source_chain s)"
  by auto
termination by (relation "measure size") (auto simp: source_size)

declare source_chain.simps [simp del]

definition refusal_of :: "err \<Rightarrow> (string \<times> string option) option" where
  "refusal_of e = (case e of AdmissionRefusedErr t c \<Rightarrow> Some (t, c) | _ \<Rightarrow> None)"

text \<open>The text and the category of the refusal an error is or wraps.\<close>

definition admission_refusal :: "err \<Rightarrow> (string \<times> string option) option" where
  "admission_refusal e =
     (case List.find (\<lambda>x. refusal_of x \<noteq> None) (source_chain e) of
        None \<Rightarrow> None | Some x \<Rightarrow> refusal_of x)"

definition is_definitive_admission_refusal :: "err \<Rightarrow> bool" where
  "is_definitive_admission_refusal e =
     (if admission_refusal e \<noteq> None then True
      else contains ''refused the channel join'' (display e))"

definition GRANT_REVOKED_CATEGORY :: string where "GRANT_REVOKED_CATEGORY = ''grant-revoked''"
definition GRANT_VERIFY_CATEGORY :: string where "GRANT_VERIFY_CATEGORY = ''grant-verify''"

definition is_revoked_grant_refusal :: "err \<Rightarrow> bool" where
  "is_revoked_grant_refusal e =
     (case admission_refusal e of
        None \<Rightarrow> False | Some (t, c) \<Rightarrow> c = Some GRANT_REVOKED_CATEGORY)"

definition own_grant_refusal :: "err \<Rightarrow> nat option \<Rightarrow> nat \<Rightarrow> string option" where
  "own_grant_refusal e own_expires_at now =
     (case admission_refusal e of
        None \<Rightarrow> None
      | Some (t, c) \<Rightarrow>
         (let own_end =
            (if c = Some GRANT_REVOKED_CATEGORY then True
             else if c = Some GRANT_VERIFY_CATEGORY
             then (case own_expires_at of None \<Rightarrow> False | Some expires \<Rightarrow> expires \<le> now)
             else False) in
          if own_end then Some t else None))"

definition OWN_GRANT_ENDED_EXIT :: int where "OWN_GRANT_ENDED_EXIT = 77"

definition own_grant_ended :: "err \<Rightarrow> bool" where
  "own_grant_ended e = (case e of OwnGrantEndedErr _ \<Rightarrow> True | _ \<Rightarrow> False)"

text \<open>\<^verbatim>\<open>From<OwnGrantEnded> for io::Error\<close>.\<close>

definition own_grant_ended_io :: "string \<Rightarrow> err" where
  "own_grant_ended_io r = IoCarrying KPermissionDenied (OwnGrantEndedErr r)"

definition is_own_grant_end :: "err \<Rightarrow> bool" where
  "is_own_grant_end e =
     list_ex (\<lambda>x. own_grant_ended x
                \<or> (case x of IoCarrying k i \<Rightarrow> own_grant_ended i | _ \<Rightarrow> False)) (source_chain e)"

definition is_transport_handshake_eof :: "err \<Rightarrow> bool" where
  "is_transport_handshake_eof e =
     (case e of
        DialConnectFailed (IoErr KUnexpectedEof _) \<Rightarrow> True
      | DialConnectFailed (IoCarrying KUnexpectedEof _) \<Rightarrow> True
      | _ \<Rightarrow> contains ''tls handshake eof'' (display e))"

definition is_park_expired :: "(err \<Rightarrow> bool) \<Rightarrow> err \<Rightarrow> bool" where
  "is_park_expired names_park e =
     (case e of ParkExpiredErr _ \<Rightarrow> True | _ \<Rightarrow> names_park e)"

section \<open>Refusal texts\<close>

text \<open>The em dash of the operator hints, in UTF-8.\<close>

definition emdash :: string where "emdash = [CHR 0xE2, CHR 0x80, CHR 0x94]"

definition refusal_category_hint :: "string \<Rightarrow> string option" where
  "refusal_category_hint category =
     (if category = ''possession'' then Some
        (''the holder-possession proof failed '' @ emdash @ '' this agent's holder PRIVATE key does not match the grant's holder. Usually a run under the wrong claimed identity, or a grant minted for a different holder key; re-check which identity/holder key this block runs as'')
      else if category = GRANT_VERIFY_CATEGORY then Some
        (''the grant failed signature/validity verification '' @ emdash @ '' expired, or not signed by this channel's operator key; fetch a fresh grant'')
      else if category = ''not-member'' then Some
        (''the channel is unknown to this edge, or the holder is not currently a member '' @ emdash @ '' check the channel id and whether this member was removed'')
      else if category = ''grant-revoked'' then Some
        (''this exact grant was revoked by the channel operator or owner '' @ emdash @ '' it will not work again; ask for a newly issued grant'')
      else if category = ''grant-status'' then Some
        (''the edge could not read the channel's grant revocation list right now and refuses rather than guess '' @ emdash @ '' retry later; if it persists, check the control plane'')
      else if category = ''endpoint'' then Some
        (''the advertised endpoint was rejected as unsafe/undialable '' @ emdash @ '' advertise a public address or the relay-only sentinel'')
      else if category = ''malformed'' \<or> category = ''len-oob'' then Some
        (''the edge could not read the join request off the wire '' @ emdash @ '' likely an agent/edge version skew'')
      else if category = ''pairing'' then Some
        (''admission succeeded but pairing the two members was refused '' @ emdash @ '' the problem is with the PAIR (e.g. the partner's authorization), not this grant'')
      else None)"

definition refused_boxed :: "string \<Rightarrow> err" where
  "refused_boxed base = AdmissionRefusedErr base None"

definition boxed_with_category :: "string \<Rightarrow> string option \<Rightarrow> err" where
  "boxed_with_category base category =
     (case category of
        None \<Rightarrow> refused_boxed base
      | Some cat \<Rightarrow>
         (let msg = (case refusal_category_hint cat of
             Some hint \<Rightarrow> base @ '' ['' @ cat @ '']: '' @ hint
           | None \<Rightarrow> base @ '' ['' @ cat @ ''] (unrecognized refusal category '' @ emdash
               @ '' likely a newer edge; the edge's own log has the detail)'') in
          AdmissionRefusedErr msg (Some cat)))"

section \<open>Backoffs\<close>

definition REFUSED_ADMISSION_BACKOFF_CAP :: duration where "REFUSED_ADMISSION_BACKOFF_CAP = secs 30"
definition FLAPPING_SESSION_THRESHOLD :: duration where "FLAPPING_SESSION_THRESHOLD = millis 500"
definition FLAPPING_SESSION_BACKOFF_CAP :: duration where "FLAPPING_SESSION_BACKOFF_CAP = secs 10"
definition HANDSHAKE_EOF_BACKOFF_CAP :: duration where "HANDSHAKE_EOF_BACKOFF_CAP = secs 10"
definition TRANSIENT_ADMISSION_BACKOFF_CAP :: duration where "TRANSIENT_ADMISSION_BACKOFF_CAP = secs 10"

lemmas backoff_caps = REFUSED_ADMISSION_BACKOFF_CAP_def FLAPPING_SESSION_BACKOFF_CAP_def
  HANDSHAKE_EOF_BACKOFF_CAP_def TRANSIENT_ADMISSION_BACKOFF_CAP_def

text \<open>\<^verbatim>\<open>1u32.checked_shl(shift).unwrap_or(u32::MAX)\<close> and \<^verbatim>\<open>Duration::saturating_mul\<close>.\<close>

definition shl_or_max :: "nat \<Rightarrow> nat" where
  "shl_or_max shift = (if shift < 32 then 2 ^ shift else U32_MAX)"

definition saturating_mul :: "duration \<Rightarrow> nat \<Rightarrow> duration" where
  "saturating_mul d k = min DURATION_MAX (d * k)"

definition is_flapping_session :: "duration \<Rightarrow> bool \<Rightarrow> bool" where
  "is_flapping_session elapsed errored = (errored \<and> elapsed < FLAPPING_SESSION_THRESHOLD)"

definition flapping_session_backoff :: "duration \<Rightarrow> nat \<Rightarrow> duration" where
  "flapping_session_backoff retry_backoff consecutive_flaps =
     (let shift = min consecutive_flaps 16 in
      min (saturating_mul retry_backoff (shl_or_max shift)) FLAPPING_SESSION_BACKOFF_CAP)"

definition handshake_eof_backoff :: "duration \<Rightarrow> nat \<Rightarrow> duration" where
  "handshake_eof_backoff retry_backoff consecutive_eofs =
     (let shift = min consecutive_eofs 16 in
      min (saturating_mul retry_backoff (shl_or_max shift)) HANDSHAKE_EOF_BACKOFF_CAP)"

definition transient_admission_backoff :: "duration \<Rightarrow> nat \<Rightarrow> duration" where
  "transient_admission_backoff retry_backoff consecutive =
     (let shift = min (consecutive - 1) 16 in
      min (saturating_mul retry_backoff (shl_or_max shift)) TRANSIENT_ADMISSION_BACKOFF_CAP)"

definition admission_retry_backoff :: "duration \<Rightarrow> bool \<Rightarrow> nat \<Rightarrow> duration" where
  "admission_retry_backoff retry_backoff refused consecutive_refusals =
     (if \<not> refused then retry_backoff
      else (let shift = min consecutive_refusals 16 in
        min (saturating_mul retry_backoff (shl_or_max shift)) REFUSED_ADMISSION_BACKOFF_CAP))"

definition ex_repark_delay :: "duration \<Rightarrow> real \<Rightarrow> duration" where
  "ex_repark_delay base rand01 = base div 2 + mul_f64 base (2 * clamp01 rand01)"

subsection \<open>Closed forms and bounds\<close>

lemma capped_backoff:
  "s \<le> 16 \<Longrightarrow> c \<le> secs 30 \<Longrightarrow> min (saturating_mul b (shl_or_max s)) c = min (b * 2 ^ s) c"
  by (simp add: saturating_mul_def shl_or_max_def DURATION_MAX_def secs_def U64_MAX_def)

text \<open>The four backoffs: doubling from the base, up to their caps.\<close>

lemma backoff_forms:
  "admission_retry_backoff b True k = min (b * 2 ^ min k 16) (secs 30)"
  "flapping_session_backoff b k = min (b * 2 ^ min k 16) (secs 10)"
  "handshake_eof_backoff b k = min (b * 2 ^ min k 16) (secs 10)"
  "transient_admission_backoff b k = min (b * 2 ^ min (k - 1) 16) (secs 10)"
  by (simp_all add: admission_retry_backoff_def flapping_session_backoff_def handshake_eof_backoff_def
      transient_admission_backoff_def Let_def backoff_caps capped_backoff)

text \<open>Each of them keeps the contract of a backoff.\<close>

interpretation refused: backoff_schedule "\<lambda>b. admission_retry_backoff b True" "secs 30"
  by (rule doubling_schedule [where step = "\<lambda>k. min k 16"]) (simp_all add: backoff_forms)

interpretation flapping: backoff_schedule flapping_session_backoff "secs 10"
  by (rule doubling_schedule [where step = "\<lambda>k. min k 16"]) (simp_all add: backoff_forms)

interpretation eof: backoff_schedule handshake_eof_backoff "secs 10"
  by (rule doubling_schedule [where step = "\<lambda>k. min k 16"]) (simp_all add: backoff_forms)

interpretation transient: backoff_schedule transient_admission_backoff "secs 10"
  by (rule doubling_schedule [where step = "\<lambda>k. min (k - 1) 16"]) (simp_all add: backoff_forms)

lemma ex_repark_delay_range:
  "base div 2 \<le> ex_repark_delay base r \<and> ex_repark_delay base r \<le> base div 2 + 2 * base"
proof -
  have "mul_f64 base (2 * clamp01 r) \<le> 2 * base"
  proof -
    have "2 * clamp01 r * real base = clamp01 r * real (2 * base)" by simp
    then have "mul_f64 base (2 * clamp01 r) = mul_f64 (2 * base) (clamp01 r)"
      by (simp only: mul_f64_def)
    then show ?thesis using mul_f64_le [of "clamp01 r" "2 * base"] by (auto simp: clamp01_def)
  qed
  then show ?thesis by (simp add: ex_repark_delay_def)
qed

section \<open>Classification\<close>

lemma chain_self: "e \<in> set (source_chain e)"
  by (subst source_chain.simps) simp

lemma chain_step: "source e = Some s \<Longrightarrow> x \<in> set (source_chain s) \<Longrightarrow> x \<in> set (source_chain e)"
  by (subst source_chain.simps) simp

lemma admission_refusal_iff:
  "admission_refusal e \<noteq> None \<longleftrightarrow> (\<exists>x \<in> set (source_chain e). refusal_of x \<noteq> None)"
proof (cases "List.find (\<lambda>x. refusal_of x \<noteq> None) (source_chain e)")
  case None
  then have "\<not> (\<exists>x \<in> set (source_chain e). refusal_of x \<noteq> None)" by (simp only: find_None_iff) blast
  with None show ?thesis unfolding admission_refusal_def by simp
next
  case (Some x)
  then have "refusal_of x \<noteq> None" "x \<in> set (source_chain e)"
    unfolding find_Some_iff by auto
  with Some show ?thesis unfolding admission_refusal_def by auto
qed

lemma boxed_with_category_text:
  "\<exists>s. boxed_with_category base cat = AdmissionRefusedErr (base @ s) cat"
  by (auto simp: boxed_with_category_def refused_boxed_def Let_def split: option.split
      intro: exI [of _ "[]"])

text \<open>
  A refusal of the edge is recognised as definitive however far it travelled. Whatever category
  the edge sent, known or not, the rendered text starts with the frozen base text; the error is
  definitive when it is wrapped in any chain of sources, and also after it was flattened to its text.
\<close>

theorem refusal_recognised:
  assumes "contains ''refused the channel join'' base"
    and "boxed_with_category base cat \<in> set (source_chain e)"
  shows "is_definitive_admission_refusal e
     \<and> is_definitive_admission_refusal (OtherErr (pre @ display (boxed_with_category base cat)) None)
     \<and> (\<exists>s. display (boxed_with_category base cat) = base @ s)"
proof -
  obtain s where b: "boxed_with_category base cat = AdmissionRefusedErr (base @ s) cat"
    using boxed_with_category_text by blast
  then have "refusal_of (boxed_with_category base cat) \<noteq> None" by (simp add: refusal_of_def)
  then have "admission_refusal e \<noteq> None" using assms(2) unfolding admission_refusal_iff by blast
  moreover have "contains ''refused the channel join'' (pre @ base @ s)"
    using contains_append assms(1) by metis
  ultimately show ?thesis using b by (simp add: is_definitive_admission_refusal_def)
qed

theorem refusal_recognised_witness:
  "is_definitive_admission_refusal
     (DialFailed (boxed_with_category ''edge broker refused the channel join'' (Some ''new-tag'')))"
proof -
  let ?r = "boxed_with_category ''edge broker refused the channel join'' (Some ''new-tag'')"
  have "contains ''refused the channel join'' ''edge broker refused the channel join''"
    by (simp add: contains_def find_sub.simps starts_with_def)
  moreover have "?r \<in> set (source_chain (DialFailed ?r))"
    by (rule chain_step [OF _ chain_self]) simp
  ultimately show ?thesis using refusal_recognised by blast
qed

text \<open>
  Which refusals end this member for good: a revoked grant always, a grant that does not verify only
  once it is expired by this member's own clock.
\<close>

lemma own_grant_refusal_boxed:
  "own_grant_refusal (boxed_with_category base cat) own now \<noteq> None \<longleftrightarrow>
     cat = Some GRANT_REVOKED_CATEGORY
     \<or> cat = Some GRANT_VERIFY_CATEGORY \<and> (\<exists>expires. own = Some expires \<and> expires \<le> now)"
proof -
  obtain s where b: "boxed_with_category base cat = AdmissionRefusedErr (base @ s) cat"
    using boxed_with_category_text by blast
  have "admission_refusal (AdmissionRefusedErr (base @ s) cat) = Some (base @ s, cat)"
    by (subst admission_refusal_def, subst source_chain.simps) (simp add: refusal_of_def)
  then show ?thesis
    by (auto simp: b own_grant_refusal_def GRANT_REVOKED_CATEGORY_def GRANT_VERIFY_CATEGORY_def Let_def
        split: option.splits)
qed

lemma own_grant_end_recognised:
  "own_grant_ended_io r \<in> set (source_chain e) \<or> OwnGrantEndedErr r \<in> set (source_chain e)
    \<Longrightarrow> is_own_grant_end e"
  unfolding is_own_grant_end_def list_ex_iff
  by (force simp: own_grant_ended_def own_grant_ended_io_def)

end
