(* ===== verification/EnvFlag.thy ===== *)
theory EnvFlag
  imports Rust_Text
begin

text \<open>
  \<^verbatim>\<open>native/src/envflag.rs\<close>: the on/off values of the environment, and the one warning per key for a
  value that is neither. The warning text is represented by the values it is built from.
\<close>

definition on_words :: "string list" where
  "on_words = [''1'', ''true'', ''yes'', ''on'']"

definition off_words :: "string list" where
  "off_words = [''0'', ''false'', ''no'', ''off'']"

definition parse_flag :: "string option \<Rightarrow> bool option" where
  "parse_flag value =
     (case value of None \<Rightarrow> None
      | Some w \<Rightarrow> (let v = trim w in
          if list_ex (eq_ignore_ascii_case v) on_words then Some True
          else if list_ex (eq_ignore_ascii_case v) off_words then Some False
          else None))"

definition flag :: "string option \<Rightarrow> bool \<Rightarrow> bool" where
  "flag value default_value = (case parse_flag value of Some b \<Rightarrow> b | None \<Rightarrow> default_value)"

record flag_warning =
  w_key :: string
  w_value :: string
  w_default :: bool

definition unrecognised :: "string \<Rightarrow> string option \<Rightarrow> bool \<Rightarrow> flag_warning option" where
  "unrecognised key value default_value =
     (case value of None \<Rightarrow> None
      | Some v \<Rightarrow>
          if trim v = [] \<or> parse_flag (Some v) \<noteq> None then None
          else Some \<lparr>w_key = key, w_value = v, w_default = default_value\<rparr>)"

text \<open>
  The process-wide list of keys already warned about (\<^verbatim>\<open>WARNED\<close>), and what went to stderr.
\<close>

record warn_state =
  warned :: "string list"
  stderr_lines :: "flag_warning list"

definition warn_once :: "string \<Rightarrow> flag_warning \<Rightarrow> warn_state \<Rightarrow> warn_state" where
  "warn_once key w st =
     (if key \<in> set (warned st) then st
      else st\<lparr>warned := warned st @ [key], stderr_lines := stderr_lines st @ [w]\<rparr>)"

definition flag_named :: "string \<Rightarrow> string option \<Rightarrow> bool \<Rightarrow> warn_state \<Rightarrow> bool \<times> warn_state" where
  "flag_named key value default_value st =
     (flag value default_value,
      (case unrecognised key value default_value of Some w \<Rightarrow> warn_once key w st | None \<Rightarrow> st))"

text \<open>\<^verbatim>\<open>env_value\<close>: the raw value, with the same report.\<close>

definition env_value :: "(string \<Rightarrow> string option) \<Rightarrow> string \<Rightarrow> bool \<Rightarrow> warn_state \<Rightarrow> string option \<times> warn_state" where
  "env_value env key default_value st =
     (env key,
      (case unrecognised key (env key) default_value of Some w \<Rightarrow> warn_once key w st | None \<Rightarrow> st))"

definition env_flag :: "(string \<Rightarrow> string option) \<Rightarrow> string \<Rightarrow> bool \<Rightarrow> warn_state \<Rightarrow> bool \<times> warn_state" where
  "env_flag env key default_value st = flag_named key (env key) default_value st"

section \<open>Properties\<close>

definition warn_inv :: "warn_state \<Rightarrow> bool" where
  "warn_inv st \<longleftrightarrow> distinct (warned st) \<and> map w_key (stderr_lines st) = warned st"

lemma warn_once_inv: "warn_inv st \<Longrightarrow> w_key w = key \<Longrightarrow> warn_inv (warn_once key w st)"
  by (auto simp: warn_inv_def warn_once_def)

lemma unrecognised_key: "unrecognised key v d = Some w \<Longrightarrow> w_key w = key"
  by (auto simp: unrecognised_def split: option.splits if_splits)

lemma flag_named_inv: "warn_inv st \<Longrightarrow> warn_inv (snd (flag_named key v d st))"
  by (auto simp: flag_named_def split: option.split intro: warn_once_inv dest: unrecognised_key)

fun read_flags :: "(string \<times> string option \<times> bool) list \<Rightarrow> warn_state \<Rightarrow> warn_state" where
  "read_flags [] st = st"
| "read_flags ((k, v, d) # qs) st = read_flags qs (snd (flag_named k v d st))"

text \<open>
  Whatever sequence of flags is read, stderr carries at most one warning per key, and every
  key read with an unrecognised value has its warning.
\<close>

theorem read_flags_one_warning_per_key:
  assumes "warned st = []" and "stderr_lines st = []"
  shows "distinct (map w_key (stderr_lines (read_flags qs st)))
     \<and> set (map w_key (stderr_lines (read_flags qs st)))
         = {k. \<exists>v d. (k, v, d) \<in> set qs \<and> unrecognised k v d \<noteq> None}"
proof -
  have inv: "warn_inv (read_flags qs s)" if "warn_inv s" for s
    using that by (induction qs s rule: read_flags.induct) (auto simp: flag_named_inv)
  have keys: "set (warned (read_flags qs s))
      = set (warned s) \<union> {k. \<exists>v d. (k, v, d) \<in> set qs \<and> unrecognised k v d \<noteq> None}" for s
  proof (induction qs s rule: read_flags.induct)
    case (2 k v d qs s)
    have "set (warned (snd (flag_named k v d s)))
        = set (warned s) \<union> (if unrecognised k v d \<noteq> None then {k} else {})"
      by (auto simp: flag_named_def warn_once_def split: option.split)
    then show ?case using 2 by auto
  qed simp
  have "warn_inv st" using assms by (simp add: warn_inv_def)
  from inv [OF this] keys [of st] assms show ?thesis
    by (simp add: warn_inv_def)
qed

theorem read_flags_one_warning_per_key_witness:
  "set (map w_key (stderr_lines
     (read_flags [(''CT_X'', Some ''maybe'', True), (''CT_X'', Some ''2'', False), (''CT_Y'', None, True)]
        \<lparr>warned = [], stderr_lines = []\<rparr>)))
   = {k. \<exists>v d. (k, v, d) \<in> set [(''CT_X'', Some ''maybe'', True), (''CT_X'', Some ''2'', False), (''CT_Y'', None, True)]
         \<and> unrecognised k v d \<noteq> None}"
  by (rule read_flags_one_warning_per_key [THEN conjunct2]) simp_all

text \<open>
  Every recognised spelling, in any case, means the same whatever the default is, and any
  other value (also unset and blank) keeps the default.
\<close>

theorem flag_meaning:
  "flag v d =
     (if \<exists>w. v = Some w \<and> to_ascii_lowercase (trim w) \<in> set on_words then True
      else if \<exists>w. v = Some w \<and> to_ascii_lowercase (trim w) \<in> set off_words then False
      else d)"
proof -
  have low: "to_ascii_lowercase w = w" if "w \<in> set on_words \<union> set off_words" for w
    using that by (auto simp: on_words_def off_words_def ascii_defs)
  then have "list_ex (eq_ignore_ascii_case u) on_words \<longleftrightarrow> to_ascii_lowercase u \<in> set on_words"
    and "list_ex (eq_ignore_ascii_case u) off_words \<longleftrightarrow> to_ascii_lowercase u \<in> set off_words" for u
    by (auto simp: list_ex_iff eq_ignore_ascii_case_def)
  then show ?thesis by (cases v) (auto simp: flag_def parse_flag_def Let_def)
qed

end
