(* ===== verification/ServeLoop.thy ===== *)
theory ServeLoop
  imports AdmissionErrors EnvFlag
begin

text \<open>
  \<^verbatim>\<open>channel_run/serving.rs\<close>: how a member gets admitted. The one-shot initiator retries within a window
  (\<^verbatim>\<open>admit_one_shot_with_retry\<close>); the persistent serve member runs the admit/serve cycle with its
  semaphore, its four streak counters and its backoffs (\<^verbatim>\<open>serve_loop_admitting\<close>).

  An admission attempt is its duration and its result; the randomness of the jitter and the clock
  readings are inputs. What an admitted session carries is the type variable \<open>'w\<close>.
\<close>

section \<open>Outcomes\<close>

datatype 'w join_outcome = Admitted 'w | Refused "string option" | ParkExpired

definition reject_refused_outcome :: "'w join_outcome \<Rightarrow> err + 'w join_outcome" where
  "reject_refused_outcome outcome =
     (case outcome of
        Refused category \<Rightarrow> Err (boxed_with_category ''edge broker refused the channel join'' category)
      | ParkExpired \<Rightarrow> Err (ParkExpiredErr
          ''channel park expired with no partner within the edge park window (#21) -- re-parking'')
      | Admitted w \<Rightarrow> Ok (Admitted w))"

text \<open>Only an admission passes; a refusal is definitive, a park expiry is a park expiry.\<close>

lemma reject_refused_outcome_cases:
  "reject_refused_outcome r = Ok x \<longleftrightarrow> (\<exists>w. r = Admitted w \<and> x = Admitted w)"
  "reject_refused_outcome (Refused c) = Err e \<Longrightarrow> is_definitive_admission_refusal e"
  "reject_refused_outcome ParkExpired = Err e \<Longrightarrow> is_park_expired names_park e"
proof -
  assume "reject_refused_outcome (Refused c) = Err e"
  then have e: "e = boxed_with_category ''edge broker refused the channel join'' c"
    by (simp add: reject_refused_outcome_def)
  obtain s where "e = AdmissionRefusedErr (''edge broker refused the channel join'' @ s) c"
    using boxed_with_category_text e by blast
  then have "refusal_of e \<noteq> None" by (simp add: refusal_of_def)
  then have "admission_refusal e \<noteq> None" unfolding admission_refusal_iff using chain_self by blast
  then show "is_definitive_admission_refusal e" by (simp add: is_definitive_admission_refusal_def)
qed (auto simp: reject_refused_outcome_def is_park_expired_def split: join_outcome.splits)

section \<open>The one-shot initiator\<close>

definition DEFAULT_SERVE_CONCURRENCY :: nat where "DEFAULT_SERVE_CONCURRENCY = 8"
definition DEFAULT_INITIATE_RETRY_SECS :: nat where "DEFAULT_INITIATE_RETRY_SECS = 75"
definition INITIATE_RETRY_INTERVAL :: duration where "INITIATE_RETRY_INTERVAL = secs 3"

datatype initiate_wait = OneShot | Persistent

text \<open>The shape both environment readers share: a positive number, or the default.\<close>

definition positive_or :: "nat \<Rightarrow> string option \<Rightarrow> nat" where
  "positive_or default_value value =
     (case value of
        None \<Rightarrow> default_value
      | Some s \<Rightarrow> (case parse_uint (Suc U64_MAX) (trim s) of
           Some n \<Rightarrow> if 1 \<le> n then n else default_value | None \<Rightarrow> default_value))"

definition initiate_retry_window_from_env :: "string option \<Rightarrow> duration" where
  "initiate_retry_window_from_env value = secs (positive_or DEFAULT_INITIATE_RETRY_SECS value)"

definition serve_concurrency_from_env :: "string option \<Rightarrow> nat" where
  "serve_concurrency_from_env value = positive_or DEFAULT_SERVE_CONCURRENCY value"

text \<open>
  The result of one attempt: it finished, or the window closed over it (then the result of the
  attempt before goes with the error).
\<close>

datatype 'w attempt_result = Finished "err + 'w join_outcome" | CutAtWindow "'w attempt_result option"

datatype 'w retry_end =
    RetryAdmitted 'w
  | RetryRevoked err
  | NoAcceptor nat "'w attempt_result"

record 'w retry_return =
  ret_time :: nat
  ret_attempts :: nat
  ret_end :: "'w retry_end"

definition run_attempt ::
  "initiate_wait \<Rightarrow> nat \<Rightarrow> nat \<Rightarrow> 'w attempt_result option \<Rightarrow> duration \<times> (err + 'w join_outcome)
     \<Rightarrow> nat \<times> 'w attempt_result" where
  "run_attempt wt deadline now previous a =
     (case a of (d, r) \<Rightarrow>
        case wt of
          OneShot \<Rightarrow> if now + d \<le> deadline then (now + d, Finished r) else (max now deadline, CutAtWindow previous)
        | Persistent \<Rightarrow> (now + d, Finished r))"

definition attempt_final :: "'w attempt_result \<Rightarrow> 'w retry_end option" where
  "attempt_final r =
     (case r of
        Finished (Inr (Admitted w)) \<Rightarrow> Some (RetryAdmitted w)
      | Finished (Inl e) \<Rightarrow> if is_revoked_grant_refusal e then Some (RetryRevoked e) else None
      | _ \<Rightarrow> None)"

lemma run_attempt_later: "run_attempt wt deadline t0 p a = (now, r) \<Longrightarrow> t0 \<le> now"
  by (auto simp: run_attempt_def split: prod.splits initiate_wait.splits if_splits)

text \<open>\<open>admit k\<close> is what the \<open>k\<close>-th attempt meets: how long it takes, and its result.\<close>

function retry_from ::
  "nat \<Rightarrow> initiate_wait \<Rightarrow> (nat \<Rightarrow> duration \<times> (err + 'w join_outcome))
     \<Rightarrow> nat \<Rightarrow> 'w attempt_result option \<Rightarrow> nat \<Rightarrow> 'w retry_return" where
  "retry_from deadline wt admit attempt previous t0 =
     (let k = Suc attempt; (now, result) = run_attempt wt deadline t0 previous (admit k) in
      case attempt_final result of
        Some e \<Rightarrow> \<lparr>ret_time = now, ret_attempts = k, ret_end = e\<rparr>
      | None \<Rightarrow>
          if deadline \<le> now \<or> wt = OneShot \<and> deadline \<le> now + INITIATE_RETRY_INTERVAL
          then \<lparr>ret_time = now, ret_attempts = k, ret_end = NoAcceptor k result\<rparr>
          else retry_from deadline wt admit k (Some result) (min deadline (now + INITIATE_RETRY_INTERVAL)))"
  by pat_completeness auto

termination
proof (relation "measure (\<lambda>(deadline, wt, admit, attempt, previous, t0). deadline - t0)", goal_cases)
  case (2 deadline wt admit attempt previous t0 k x now result)
  then have "t0 \<le> now" by (metis run_attempt_later)
  moreover have "now < deadline" using 2 by (meson not_le)
  ultimately show ?case by (auto simp: INITIATE_RETRY_INTERVAL_def secs_def)
qed simp

declare retry_from.simps [simp del]

definition admit_one_shot_with_retry ::
  "duration \<Rightarrow> initiate_wait \<Rightarrow> (nat \<Rightarrow> duration \<times> (err + 'w join_outcome)) \<Rightarrow> nat \<Rightarrow> 'w retry_return" where
  "admit_one_shot_with_retry window wt admit t0 = retry_from (t0 + window) wt admit 0 None t0"

lemma interval_pos: "0 < INITIATE_RETRY_INTERVAL"
  by (simp add: INITIATE_RETRY_INTERVAL_def secs_def)

text \<open>Ends of the window, in intervals, rounded up.\<close>

definition turns_left :: "nat \<Rightarrow> nat \<Rightarrow> nat" where
  "turns_left deadline now = (deadline - now + INITIATE_RETRY_INTERVAL - 1) div INITIATE_RETRY_INTERVAL"

lemma turns_left_next:
  assumes "t0 \<le> now" and "now < deadline"
  shows "Suc (turns_left deadline (min deadline (now + INITIATE_RETRY_INTERVAL))) \<le> turns_left deadline t0"
proof -
  define I where "I = INITIATE_RETRY_INTERVAL"
  have I: "0 < I" using interval_pos by (simp add: I_def)
  let ?m = "deadline - min deadline (now + I)"
  have "?m + I - 1 + I \<le> deadline - t0 + I - 1 \<or> ?m = 0" using assms by linarith
  then show ?thesis
  proof
    assume "?m + I - 1 + I \<le> deadline - t0 + I - 1"
    then have "(?m + I - 1 + I) div I \<le> (deadline - t0 + I - 1) div I" by (rule div_le_mono)
    moreover have "(x + I) div I = Suc (x div I)" for x using I by simp
    ultimately show ?thesis by (simp add: turns_left_def I_def)
  next
    assume m0: "?m = 0"
    have "I div I \<le> (deadline - t0 + I - 1) div I" by (rule div_le_mono) (use assms in linarith)
    moreover have "(?m + I - 1) div I = 0" using I m0 by simp
    ultimately show ?thesis using I by (simp add: turns_left_def I_def)
  qed
qed

lemma retry_from_bounds:
  "ret_attempts (retry_from deadline wt admit attempt p t0) \<le> Suc attempt + turns_left deadline t0
   \<and> (wt = OneShot \<longrightarrow> t0 \<le> deadline \<longrightarrow> ret_time (retry_from deadline wt admit attempt p t0) \<le> deadline)"
proof (induction deadline wt admit attempt p t0 rule: retry_from.induct)
  case (1 deadline wt admit attempt p t0)
  obtain now r where a: "run_attempt wt deadline t0 p (admit (Suc attempt)) = (now, r)" by fastforce
  have later: "t0 \<le> now" using run_attempt_later [OF a] .
  have within: "wt = OneShot \<Longrightarrow> t0 \<le> deadline \<Longrightarrow> now \<le> deadline"
    using a by (auto simp: run_attempt_def split: prod.splits if_splits)
  show ?case
  proof (cases "attempt_final r = None
      \<and> \<not> (deadline \<le> now \<or> wt = OneShot \<and> deadline \<le> now + INITIATE_RETRY_INTERVAL)")
    case True
    then have "now < deadline" by auto
    from 1 [OF refl a [symmetric] refl] True turns_left_next [OF later this] a show ?thesis
      by (subst (1 2) retry_from.simps) (auto simp: Let_def)
  next
    case False
    then show ?thesis using a within by (subst (1 2) retry_from.simps) (auto simp: Let_def split: option.splits)
  qed
qed

text \<open>What the loop returns is the verdict of one of its attempts.\<close>

lemma retry_from_end:
  assumes "retry_from deadline wt admit attempt p t0 = r"
  shows "(\<forall>w. ret_end r = RetryAdmitted w \<longrightarrow> snd (admit (ret_attempts r)) = Ok (Admitted w))
   \<and> (\<forall>e. ret_end r = RetryRevoked e \<longrightarrow> snd (admit (ret_attempts r)) = Err e \<and> is_revoked_grant_refusal e)
   \<and> (\<forall>k. attempt < k \<and> k < ret_attempts r \<longrightarrow>
        (\<forall>w. snd (admit k) \<noteq> Ok (Admitted w)) \<and> (\<forall>e. snd (admit k) = Err e \<longrightarrow> \<not> is_revoked_grant_refusal e))"
  using assms
proof (induction deadline wt admit attempt p t0 arbitrary: r rule: retry_from.induct)
  case (1 deadline wt admit attempt p t0)
  obtain now x where a: "run_attempt wt deadline t0 p (admit (Suc attempt)) = (now, x)" by fastforce
  have fin: "x = Finished (snd (admit (Suc attempt))) \<or> x = CutAtWindow p \<and> wt = OneShot \<and> deadline \<le> now"
    using a by (auto simp: run_attempt_def split: prod.splits if_splits initiate_wait.splits)
  show ?case
  proof (cases "attempt_final x = None
      \<and> \<not> (deadline \<le> now \<or> wt = OneShot \<and> deadline \<le> now + INITIATE_RETRY_INTERVAL)")
    case True
    then have x: "x = Finished (snd (admit (Suc attempt)))" using fin by auto
    have r: "retry_from deadline wt admit (Suc attempt) (Some x) (min deadline (now + INITIATE_RETRY_INTERVAL)) = r"
      using 1(2) True a by (subst (asm) retry_from.simps) (simp add: Let_def)
    have "(\<forall>w. snd (admit (Suc attempt)) \<noteq> Ok (Admitted w))
        \<and> (\<forall>e. snd (admit (Suc attempt)) = Err e \<longrightarrow> \<not> is_revoked_grant_refusal e)"
      using True x by (auto simp: attempt_final_def split: if_splits)
    moreover have "attempt < k \<longleftrightarrow> k = Suc attempt \<or> Suc attempt < k" for k by auto
    moreover note 1(1) [OF refl a [symmetric] refl _ _ r]
    ultimately show ?thesis using True by auto
  next
    case False
    then have "ret_attempts r = Suc attempt
        \<and> (attempt_final x = Some (ret_end r) \<or> attempt_final x = None \<and> ret_end r = NoAcceptor (Suc attempt) x)"
      unfolding 1(2) [symmetric] using a
      by (subst (1 2 3) retry_from.simps) (auto simp: Let_def split: option.split)
    then show ?thesis using fin
      by (auto simp: attempt_final_def split: sum.splits join_outcome.splits if_splits)
  qed
qed

text \<open>
  C18: the one-shot initiator always comes back. Whatever its attempts meet, the loop returns after at
  most one attempt per three seconds of its window and one more; a one-shot caller never waits past
  its window. It returns an admission exactly as the attempt reported it, stops at once on a revoked
  grant, and does not go past an attempt that was admitted or revoked.
\<close>

theorem one_shot_returns:
  fixes admit :: "nat \<Rightarrow> duration \<times> (err + 'w join_outcome)" and window t0 :: nat
    and wt :: initiate_wait
  defines "r \<equiv> admit_one_shot_with_retry window wt admit t0"
  shows "ret_attempts r \<le> Suc (turns_left (t0 + window) t0)
     \<and> (wt = OneShot \<longrightarrow> ret_time r \<le> t0 + window)
     \<and> (\<forall>w. ret_end r = RetryAdmitted w \<longrightarrow> snd (admit (ret_attempts r)) = Ok (Admitted w))
     \<and> (\<forall>k. 0 < k \<and> k < ret_attempts r \<longrightarrow>
          (\<forall>w. snd (admit k) \<noteq> Ok (Admitted w))
          \<and> (\<forall>e. snd (admit k) = Err e \<longrightarrow> \<not> is_revoked_grant_refusal e))"
  using retry_from_bounds [of "t0 + window" wt admit 0 None t0]
    retry_from_end [of "t0 + window" wt admit 0 None t0, OF refl]
  unfolding r_def admit_one_shot_with_retry_def by auto

theorem one_shot_returns_witness:
  "ret_time (admit_one_shot_with_retry (secs 75) OneShot
      (\<lambda>_. (secs 40, Err (ParkExpiredErr [])) :: duration \<times> (err + nat join_outcome)) 0) \<le> secs 75"
  using one_shot_returns [of "secs 75" OneShot
      "\<lambda>_. (secs 40, Err (ParkExpiredErr [])) :: duration \<times> (err + nat join_outcome)" 0]
  by simp

section \<open>The persistent serve loop\<close>

text \<open>\<^verbatim>\<open>record_flap_outcome\<close>: \<^verbatim>\<open>fetch_add\<close> on an \<^verbatim>\<open>AtomicU32\<close> wraps.\<close>

definition record_flap_outcome :: "u32 \<Rightarrow> bool \<Rightarrow> u32" where
  "record_flap_outcome counter flapped = (if flapped then counter + 1 else 0)"

definition sat_inc32 :: "nat \<Rightarrow> nat" where
  "sat_inc32 n = min U32_MAX (n + 1)"

record serve_cfg =
  max_sessions :: nat
  retry_backoff :: duration
  own_expires :: "nat option"

definition serve_slots :: "serve_cfg \<Rightarrow> nat" where
  "serve_slots cfg = max (max_sessions cfg) 1"

record serve =
  permits :: nat
  running :: nat
  parked :: bool
  refusals :: nat
  handshake_eofs :: nat
  transients :: nat
  flaps :: u32
  sat_logged :: bool
  sat_lines :: "bool list"
  stopped :: "string option"

definition serve_start :: "serve_cfg \<Rightarrow> serve" where
  "serve_start cfg = \<lparr>permits = serve_slots cfg, running = 0, parked = False, refusals = 0,
     handshake_eofs = 0, transients = 0, flaps = 0, sat_logged = False, sat_lines = [], stopped = None\<rparr>"

text \<open>
  \<^verbatim>\<open>SaturationLog\<close>: a line when all slots are busy (\<^const>\<open>True\<close> in \<open>sat_lines\<close>), a line when one is free
  again (\<^const>\<open>False\<close>).
\<close>

definition before_acquire :: "serve \<Rightarrow> serve" where
  "before_acquire s =
     (if 0 < permits s \<or> sat_logged s then s
      else s\<lparr>sat_logged := True, sat_lines := sat_lines s @ [True]\<rparr>)"

definition after_acquire :: "serve \<Rightarrow> serve" where
  "after_acquire s =
     (if \<not> sat_logged s then s else s\<lparr>sat_logged := False, sat_lines := sat_lines s @ [False]\<rparr>)"

text \<open>A turn up to the admission: the permit, then the pause after flapping sessions.\<close>

definition flap_pause :: "serve_cfg \<Rightarrow> real \<Rightarrow> serve \<Rightarrow> duration" where
  "flap_pause cfg rnd s =
     (if 0 < flaps s then equal_jitter (flapping_session_backoff (retry_backoff cfg) (unat (flaps s))) rnd else 0)"

definition acquire_permit :: "serve \<Rightarrow> serve" where
  "acquire_permit s = after_acquire ((before_acquire s)\<lparr>permits := permits s - 1, parked := True\<rparr>)"

datatype admit_result = AdmitOk | AdmitPanicked | AdmitErr err

datatype serve_next = AdmitAfter duration | StopServing string

definition clear_streaks :: "serve \<Rightarrow> serve" where
  "clear_streaks s = s\<lparr>refusals := 0, handshake_eofs := 0, transients := 0\<rparr>"

definition release_permit :: "serve \<Rightarrow> serve" where
  "release_permit s = s\<lparr>permits := permits s + 1, parked := False\<rparr>"

text \<open>The error arm: own grant end, park expiry, handshake EOF, refusal or transient, in that order.\<close>

definition admit_failed ::
  "(err \<Rightarrow> bool) \<Rightarrow> serve_cfg \<Rightarrow> nat \<Rightarrow> duration \<Rightarrow> real \<Rightarrow> err \<Rightarrow> serve \<Rightarrow> serve_next \<times> serve" where
  "admit_failed names_park cfg now elapsed rnd e s0 =
     (let s = release_permit s0 in
      case own_grant_refusal e (own_expires cfg) now of
        Some why \<Rightarrow> (StopServing why, s\<lparr>stopped := Some why\<rparr>)
      | None \<Rightarrow>
          if is_park_expired names_park e then
            (AdmitAfter (ex_repark_delay (retry_backoff cfg) rnd), clear_streaks s)
          else if is_transport_handshake_eof e then
            (let n = sat_inc32 (handshake_eofs s) in
             (AdmitAfter (equal_jitter (handshake_eof_backoff (retry_backoff cfg) n) rnd),
              s\<lparr>refusals := 0, transients := 0, handshake_eofs := n\<rparr>))
          else
            (let refused = is_definitive_admission_refusal e;
                 r = (if refused then sat_inc32 (refusals s) else 0);
                 t0 = (if TRANSIENT_ADMISSION_BACKOFF_CAP \<le> elapsed then 0 else transients s);
                 t = (if refused then 0 else sat_inc32 t0);
                 delay = (if refused then admission_retry_backoff (retry_backoff cfg) refused r
                          else transient_admission_backoff (retry_backoff cfg) t) in
             (AdmitAfter (equal_jitter delay rnd),
              s\<lparr>handshake_eofs := 0, refusals := r, transients := t\<rparr>)))"

definition serve_admitted ::
  "(err \<Rightarrow> bool) \<Rightarrow> serve_cfg \<Rightarrow> nat \<Rightarrow> duration \<Rightarrow> real \<Rightarrow> admit_result \<Rightarrow> serve \<Rightarrow> serve_next \<times> serve" where
  "serve_admitted names_park cfg now elapsed rnd r s =
     (case r of
        AdmitOk \<Rightarrow> (AdmitAfter 0, (clear_streaks s)\<lparr>running := running s + 1, parked := False\<rparr>)
      | AdmitPanicked \<Rightarrow> (AdmitAfter (retry_backoff cfg), clear_streaks (release_permit s))
      | AdmitErr e \<Rightarrow> admit_failed names_park cfg now elapsed rnd e s)"

text \<open>A spawned session ends: its permit is free again, and it feeds the flap streak unless a pin refused it.\<close>

definition session_done :: "duration \<Rightarrow> bool \<Rightarrow> bool \<Rightarrow> serve \<Rightarrow> serve" where
  "session_done elapsed errored pin_refused s =
     s\<lparr>running := running s - 1, permits := permits s + 1,
       flaps := (if pin_refused then flaps s
                 else record_flap_outcome (flaps s) (is_flapping_session elapsed errored))\<rparr>"

definition grant_expired_text :: "nat \<Rightarrow> string" where
  "grant_expired_text expires =
     ''this member's channel grant expired (expires_at '' @ show_nat expires @ '')''"

text \<open>\<^verbatim>\<open>serve_loop_concurrent\<close>: the own expiry stops the loop wherever it is.\<close>

inductive serve_step :: "(err \<Rightarrow> bool) \<Rightarrow> serve_cfg \<Rightarrow> serve \<Rightarrow> serve \<Rightarrow> bool" for names_park cfg where
  wait_for_slot: "stopped s = None \<Longrightarrow> \<not> parked s \<Longrightarrow> permits s = 0 \<Longrightarrow>
     serve_step names_park cfg s (before_acquire s)"
| take_slot: "stopped s = None \<Longrightarrow> \<not> parked s \<Longrightarrow> 0 < permits s \<Longrightarrow>
     serve_step names_park cfg s (acquire_permit s)"
| admission: "stopped s = None \<Longrightarrow> parked s \<Longrightarrow>
     serve_admitted names_park cfg now elapsed rnd r s = (nxt, s') \<Longrightarrow> serve_step names_park cfg s s'"
| session_end: "0 < running s \<Longrightarrow> serve_step names_park cfg s (session_done elapsed errored pin_refused s)"
| own_expiry: "stopped s = None \<Longrightarrow> own_expires cfg = Some ex \<Longrightarrow> why = grant_expired_text ex \<Longrightarrow>
     serve_step names_park cfg s (s\<lparr>stopped := Some why\<rparr>)"

abbreviation serve_reachable :: "(err \<Rightarrow> bool) \<Rightarrow> serve_cfg \<Rightarrow> serve \<Rightarrow> bool" where
  "serve_reachable names_park cfg s \<equiv> (serve_step names_park cfg)\<^sup>*\<^sup>* (serve_start cfg) s"

definition should_serve_loop :: "bool \<Rightarrow> string option \<Rightarrow> bool" where
  "should_serve_loop accept_role serve_env = (accept_role \<and> flag serve_env False)"

subsection \<open>Capacity\<close>

definition capacity_inv :: "serve_cfg \<Rightarrow> serve \<Rightarrow> bool" where
  "capacity_inv cfg s \<longleftrightarrow>
     permits s + running s + (if parked s then 1 else 0) = serve_slots cfg
     \<and> (\<forall>i. i < length (sat_lines s) \<longrightarrow> sat_lines s ! i = even i)
     \<and> sat_logged s = odd (length (sat_lines s))"

lemma capacity_before: "capacity_inv cfg s \<Longrightarrow> capacity_inv cfg (before_acquire s)"
  by (auto simp: capacity_inv_def before_acquire_def nth_append less_Suc_eq)

lemma capacity_after: "capacity_inv cfg s \<Longrightarrow> capacity_inv cfg (after_acquire s)"
  by (auto simp: capacity_inv_def after_acquire_def nth_append less_Suc_eq)

lemma capacity_acquire:
  assumes "capacity_inv cfg s" "\<not> parked s" "0 < permits s"
  shows "capacity_inv cfg (acquire_permit s)"
  unfolding acquire_permit_def
  by (rule capacity_after) (use assms in \<open>auto simp: capacity_inv_def before_acquire_def\<close>)

lemma capacity_failed:
  "capacity_inv cfg s \<Longrightarrow> parked s \<Longrightarrow> capacity_inv cfg (snd (admit_failed np cfg now el rnd e s))"
  unfolding admit_failed_def
  by (auto simp: capacity_inv_def release_permit_def clear_streaks_def Let_def split: option.split)

lemma capacity_admitted:
  "capacity_inv cfg s \<Longrightarrow> parked s \<Longrightarrow> capacity_inv cfg (snd (serve_admitted np cfg now el rnd r s))"
  using capacity_failed
  by (cases r) (auto simp: serve_admitted_def capacity_inv_def release_permit_def clear_streaks_def)

lemma capacity_step: "serve_step np cfg s s' \<Longrightarrow> capacity_inv cfg s \<Longrightarrow> capacity_inv cfg s'"
proof (induction rule: serve_step.induct)
  case (admission s now elapsed rnd r nxt s')
  then show ?case using capacity_admitted [of cfg s np now elapsed rnd r] by simp
next
  case (session_end s elapsed errored pin_refused)
  then show ?case by (auto simp: capacity_inv_def session_done_def)
qed (auto simp: capacity_before capacity_acquire, simp add: capacity_inv_def)

lemma capacity_reachable: "serve_reachable np cfg s \<Longrightarrow> capacity_inv cfg s"
proof (induction rule: rtranclp_induct)
  case base
  then show ?case by (simp add: capacity_inv_def serve_start_def)
next
  case (step y z)
  then show ?case by (simp add: capacity_step)
qed

text \<open>
  C17: the serve loop's capacity. In every reachable state the sessions running, the one admission
  that may be parked and the free permits add up to the configured slots (at least one): a peer is
  never admitted without a slot for it, no permit is lost on any path, error paths included, and the
  saturation lines alternate, starting with the busy one.
\<close>

theorem serve_capacity:
  assumes "serve_reachable names_park cfg s"
  shows "permits s + running s + (if parked s then 1 else 0) = max (max_sessions cfg) 1
     \<and> (\<forall>i < length (sat_lines s). sat_lines s ! i = even i)"
  using capacity_reachable [OF assms] by (simp add: capacity_inv_def serve_slots_def)

theorem serve_capacity_witness:
  "\<exists>s. serve_reachable (\<lambda>_. False) \<lparr>max_sessions = 2, retry_backoff = millis 200, own_expires = None\<rparr> s
     \<and> running s = 1 \<and> permits s = 1"
proof -
  let ?cfg = "\<lparr>max_sessions = 2, retry_backoff = millis 200, own_expires = None\<rparr>"
  let ?s = "acquire_permit (serve_start ?cfg)"
  let ?t = "(clear_streaks ?s)\<lparr>running := running ?s + 1, parked := False\<rparr>"
  have s: "stopped ?s = None" "parked ?s" "running ?t = 1"
    by (simp_all add: acquire_permit_def serve_start_def before_acquire_def after_acquire_def
        clear_streaks_def serve_slots_def)
  have "serve_step (\<lambda>_. False) ?cfg (serve_start ?cfg) ?s"
    by (rule take_slot) (simp_all add: serve_start_def serve_slots_def)
  moreover have "serve_step (\<lambda>_. False) ?cfg ?s ?t"
    by (rule admission [of _ _ _ 0 0 0 AdmitOk]) (use s in \<open>simp_all add: serve_admitted_def\<close>)
  ultimately have r: "serve_reachable (\<lambda>_. False) ?cfg ?t" by simp
  from serve_capacity [OF r] have "permits ?t = 1" using s(3) by simp
  with r s(3) show ?thesis by blast
qed

subsection \<open>Pacing\<close>

text \<open>A run of failed admissions, each with its clock readings, its random number and its error.\<close>

fun failures :: "(err \<Rightarrow> bool) \<Rightarrow> serve_cfg \<Rightarrow> (nat \<times> duration \<times> real \<times> err) list \<Rightarrow> serve \<Rightarrow> serve" where
  "failures np cfg [] s = s"
| "failures np cfg ((now, el, rnd, e) # fs) s = failures np cfg fs (snd (admit_failed np cfg now el rnd e s))"

definition plain_refusal :: "(err \<Rightarrow> bool) \<Rightarrow> serve_cfg \<Rightarrow> nat \<times> duration \<times> real \<times> err \<Rightarrow> bool" where
  "plain_refusal np cfg f \<longleftrightarrow> (case f of (now, el, rnd, e) \<Rightarrow>
     own_grant_refusal e (own_expires cfg) now = None \<and> \<not> is_park_expired np e
     \<and> \<not> is_transport_handshake_eof e \<and> is_definitive_admission_refusal e)"

lemma plain_refusal_step:
  assumes "plain_refusal np cfg (now, el, rnd, e)"
  shows "admit_failed np cfg now el rnd e s =
    (AdmitAfter (equal_jitter (min (retry_backoff cfg * 2 ^ min (sat_inc32 (refusals s)) 16) (secs 30)) rnd),
     (release_permit s)\<lparr>handshake_eofs := 0, refusals := sat_inc32 (refusals s), transients := 0\<rparr>)"
  using assms
  by (simp add: plain_refusal_def admit_failed_def Let_def backoff_forms release_permit_def)

lemma refusals_after:
  "list_all (plain_refusal np cfg) fs \<Longrightarrow> refusals s + length fs \<le> U32_MAX \<Longrightarrow>
     refusals (failures np cfg fs s) = refusals s + length fs"
proof (induction fs arbitrary: s)
  case (Cons f fs)
  obtain now el rnd e where f: "f = (now, el, rnd, e)" by (cases f)
  have "plain_refusal np cfg (now, el, rnd, e)" using Cons f by simp
  then show ?case using Cons by (simp add: f plain_refusal_step sat_inc32_def)
qed simp

text \<open>
  Pacing. Whatever an admission fails with, the loop either stops, exactly when the error says
  that this member's own grant is over, or waits at least half its base backoff and at most 30
  seconds before the next admission.
\<close>

theorem serve_pacing:
  assumes "retry_backoff cfg \<le> secs 10"
  shows "case own_grant_refusal e (own_expires cfg) now of
       Some why \<Rightarrow> fst (admit_failed names_park cfg now elapsed rnd e s) = StopServing why
     | None \<Rightarrow> \<exists>d. fst (admit_failed names_park cfg now elapsed rnd e s) = AdmitAfter d
           \<and> retry_backoff cfg div 2 \<le> d \<and> d \<le> secs 30"
proof (cases "own_grant_refusal e (own_expires cfg) now")
  case None
  have s: "secs 10 \<le> secs 30" by (simp add: secs_def)
  have "ex_repark_delay (retry_backoff cfg) rnd \<le> secs 30"
    using ex_repark_delay_range [of "retry_backoff cfg" rnd] assms unfolding secs_def by linarith
  moreover have "equal_jitter (handshake_eof_backoff (retry_backoff cfg) k) rnd \<le> secs 30"
    "equal_jitter (transient_admission_backoff (retry_backoff cfg) k) rnd \<le> secs 30" for k
    using eof.wait_range [OF assms] transient.wait_range [OF assms] s le_trans by blast+
  ultimately show ?thesis
    using None ex_repark_delay_range [of "retry_backoff cfg" rnd] refused.wait_range [OF le_trans [OF assms s]]
      eof.wait_range [OF assms] transient.wait_range [OF assms]
    by (simp add: admit_failed_def Let_def)
qed (simp add: admit_failed_def Let_def)

theorem serve_pacing_witness:
  "\<exists>d. fst (admit_failed (\<lambda>_. False) \<lparr>max_sessions = 2, retry_backoff = millis 200, own_expires = None\<rparr> 0 0 0
        (OtherErr ''boom'' None) (serve_start \<lparr>max_sessions = 2, retry_backoff = millis 200, own_expires = None\<rparr>))
      = AdmitAfter d \<and> d \<le> secs 30"
proof -
  have "own_grant_refusal (OtherErr ''boom'' None) None 0 = None"
    by (simp add: own_grant_refusal_def admission_refusal_def source_chain.simps refusal_of_def)
  then show ?thesis
    using serve_pacing [where cfg = "\<lparr>max_sessions = 2, retry_backoff = millis 200, own_expires = None\<rparr>"
        and e = "OtherErr ''boom'' None" and now = 0 and names_park = "\<lambda>_. False" and elapsed = 0 and rnd = 0
        and s =
        "serve_start \<lparr>max_sessions = 2, retry_backoff = millis 200, own_expires = None\<rparr>"]
    by (auto simp: millis_def secs_def)
qed

text \<open>
  A member whose admission is refused again and again does not flood the edge: after \<open>k\<close> refusals
  in a row the next refusal is followed by a wait of at least half of the base doubled \<open>k + 1\<close> times,
  until the cap of 30 seconds binds.
\<close>

theorem refusals_back_off:
  assumes "list_all (plain_refusal names_park cfg) (fs @ [(now, elapsed, rnd, e)])"
    and "refusals s = 0" and "length fs < U32_MAX"
  shows "\<exists>d. fst (admit_failed names_park cfg now elapsed rnd e (failures names_park cfg fs s)) = AdmitAfter d
     \<and> min (retry_backoff cfg * 2 ^ min (length fs + 1) 16) (secs 30) div 2 \<le> d
     \<and> d \<le> min (retry_backoff cfg * 2 ^ min (length fs + 1) 16) (secs 30)"
proof -
  have "refusals (failures names_park cfg fs s) = length fs"
    using refusals_after [of names_park cfg fs s] assms by simp
  then have "sat_inc32 (refusals (failures names_park cfg fs s)) = length fs + 1"
    using assms(3) by (simp add: sat_inc32_def)
  then have "fst (admit_failed names_park cfg now elapsed rnd e (failures names_park cfg fs s))
      = AdmitAfter (equal_jitter (min (retry_backoff cfg * 2 ^ min (length fs + 1) 16) (secs 30)) rnd)"
    using plain_refusal_step [of names_park cfg now elapsed rnd e "failures names_park cfg fs s"] assms(1)
    by (simp del: min_Suc2 min_Suc1 power_Suc)
  then show ?thesis using equal_jitter_range by blast
qed

theorem refusals_back_off_witness:
  "\<exists>d. fst (admit_failed (\<lambda>_. False) \<lparr>max_sessions = 1, retry_backoff = millis 200, own_expires = None\<rparr> 0 0 0
        (refused_boxed ''relay refused the channel join'')
        (serve_start \<lparr>max_sessions = 1, retry_backoff = millis 200, own_expires = None\<rparr>)) = AdmitAfter d
     \<and> millis 200 \<le> d"
proof -
  let ?cfg = "\<lparr>max_sessions = 1, retry_backoff = millis 200, own_expires = None\<rparr>"
  let ?e = "refused_boxed ''relay refused the channel join''"
  have "list_all (plain_refusal (\<lambda>_. False) ?cfg) ([] @ [(0, 0, 0, ?e)])"
    by (simp add: plain_refusal_def own_grant_refusal_def admission_refusal_def source_chain.simps
        refusal_of_def refused_boxed_def is_park_expired_def is_transport_handshake_eof_def
        is_definitive_admission_refusal_def contains_def find_sub.simps starts_with_def)
  from refusals_back_off [OF this, of "serve_start ?cfg"] show ?thesis
    by (auto simp: serve_start_def U32_MAX_def millis_def secs_def)
qed

end
