(* ===== verification/Dialing.thy ===== *)
theory Dialing
  imports ServeLoop Net
begin

text \<open>
  \<^verbatim>\<open>channel_run/dialing.rs\<close>: the dial ladder and the choice among the candidates a peer offers; and the
  DCUtR join loop of \<^verbatim>\<open>channel_run/connectivity.rs\<close>, as a function of what each of its turns meets.
  The dials themselves, the subnet comparison and the endpoint guard of \<^verbatim>\<open>ct_common\<close> are parameters.
\<close>

section \<open>The dial ladder\<close>

fun dial_rungs :: "('r \<Rightarrow> err + 'c) \<Rightarrow> err option \<Rightarrow> 'r list \<Rightarrow> err + 'c" where
  "dial_rungs dial lst [] = Err (case lst of Some e \<Rightarrow> e | None \<Rightarrow> DialUnreachable)"
| "dial_rungs dial lst (r # rs) =
     (case dial r of Inr c \<Rightarrow> Ok c | Inl e \<Rightarrow> dial_rungs dial (Some e) rs)"

definition dial_ladder :: "'r list \<Rightarrow> ('r \<Rightarrow> err + 'c) \<Rightarrow> err + 'c" where
  "dial_ladder rungs dial = dial_rungs dial None rungs"

lemma dial_rungs_blocked:
  "list_all (\<lambda>r. \<exists>e. dial r = Err e) rs \<Longrightarrow>
     dial_rungs dial lst rs = Err (case map dial rs of [] \<Rightarrow> (case lst of Some e \<Rightarrow> e | None \<Rightarrow> DialUnreachable)
       | _ \<Rightarrow> projl (dial (List.last rs)))"
proof (induction dial lst rs rule: dial_rungs.induct)
  case (2 dial lst r rs)
  then obtain e where "dial r = Err e" by auto
  with 2 show ?case by (cases rs) auto
qed simp

lemma dial_rungs_first:
  "list_all (\<lambda>r. \<exists>e. dial r = Err e) rs \<Longrightarrow> dial r = Ok c \<Longrightarrow> dial_rungs dial lst (rs @ r # ts) = Ok c"
  by (induction dial lst rs rule: dial_rungs.induct) auto

text \<open>
  The ladder. It connects with the first rung that connects, whatever the later ones would do; it
  fails only when every rung fails, and then with the error of the last rung (unreachable for an
  empty ladder).
\<close>

theorem dial_ladder_correct:
  "dial_ladder rungs dial =
     (case List.find (\<lambda>r. \<exists>c. dial r = Ok c) rungs of
        Some r \<Rightarrow> dial r
      | None \<Rightarrow> (if rungs = [] then Err DialUnreachable else dial (List.last rungs)))"
proof (cases "List.find (\<lambda>r. \<exists>c. dial r = Ok c) rungs")
  case None
  then have blocked: "list_all (\<lambda>r. \<exists>e. dial r = Err e) rungs"
    unfolding find_None_iff list_all_iff by (metis sum.exhaust)
  show ?thesis
  proof (cases "rungs = []")
    case False
    then have "List.last rungs \<in> set rungs" by simp
    then obtain e where "dial (List.last rungs) = Err e" using blocked by (auto simp: list_all_iff)
    with False None dial_rungs_blocked [OF blocked, of None] show ?thesis
      by (cases rungs) (simp_all add: dial_ladder_def)
  qed (simp add: dial_ladder_def)
next
  case (Some r)
  then obtain i where i: "i < length rungs" "r = rungs ! i" "\<exists>c. dial r = Ok c"
    "\<forall>j < i. \<not> (\<exists>c. dial (rungs ! j) = Ok c)" by (auto simp: find_Some_iff)
  have split: "rungs = take i rungs @ r # drop (Suc i) rungs" using i by (simp add: id_take_nth_drop)
  have "list_all (\<lambda>r. \<exists>e. dial r = Err e) (take i rungs)"
    using i by (auto simp: list_all_length) (metis sum.exhaust)
  with i(3) show ?thesis
    using dial_rungs_first [of dial "take i rungs" r _ None "drop (Suc i) rungs"] split Some
    by (auto simp: dial_ladder_def)
qed

section \<open>Candidates\<close>

definition split_offered_candidates :: "string \<Rightarrow> string \<times> string option" where
  "split_offered_candidates ep =
     (case split_once (CHR 0x00) ep of
        Some (reflexive, local) \<Rightarrow> if local \<noteq> [] then (reflexive, Some local) else (reflexive, None)
      | None \<Rightarrow> (ep, None))"

definition select_upgrade_candidate ::
  "(ip_addr \<Rightarrow> ip_addr \<Rightarrow> bool) \<Rightarrow> (string \<Rightarrow> socket_addr option) \<Rightarrow> ip_addr option \<Rightarrow> string \<Rightarrow> socket_addr option" where
  "select_upgrade_candidate same_local_subnet upgrade_safe_endpoint local_egress_ip ep =
     (let (reflexive, local) = split_offered_candidates ep in
      case Option.bind local parse_socket_addr of
        Some candidate \<Rightarrow>
          (case local_egress_ip of
             Some my_local \<Rightarrow>
               if same_local_subnet my_local (sa_ip candidate) then Some candidate
               else upgrade_safe_endpoint reflexive
           | None \<Rightarrow> upgrade_safe_endpoint reflexive)
      | None \<Rightarrow> upgrade_safe_endpoint reflexive)"

text \<open>No ungated dial: a candidate is on this host's own subnet, or the endpoint guard let it through.\<close>

lemma select_upgrade_candidate_gated:
  "select_upgrade_candidate sub guard egress ep = Some a \<Longrightarrow>
     (\<exists>me. egress = Some me \<and> sub me (sa_ip a)) \<or> guard (fst (split_offered_candidates ep)) = Some a"
  by (auto simp: select_upgrade_candidate_def split: prod.splits option.splits if_splits)

section \<open>The DCUtR loop\<close>

definition DCUTR_RETRY_BACKOFF :: duration where "DCUTR_RETRY_BACKOFF = millis 200"
definition ONE_SHOT_DCUTR_ADMISSION_RETRIES :: nat where "ONE_SHOT_DCUTR_ADMISSION_RETRIES = 2"
definition MAX_CONSECUTIVE_DCUTR_DIAL_FAILURES :: nat where "MAX_CONSECUTIVE_DCUTR_DIAL_FAILURES = 20"

datatype dcutr_loop_action =
    RetryReset duration nat
  | RetryBounded nat duration
  | DcutrStop

definition decide_dcutr ::
  "(err \<Rightarrow> bool) \<Rightarrow> err + 't \<Rightarrow> bool \<Rightarrow> nat \<Rightarrow> nat \<Rightarrow> nat \<Rightarrow> dcutr_loop_action" where
  "decide_dcutr names_park result serve_loop attempt max_one_shot_retries consecutive_refusals =
     (let (errored, refused, expired) =
        (case result of Inr _ \<Rightarrow> (False, False, False)
         | Inl e \<Rightarrow> (True, is_definitive_admission_refusal e, is_park_expired names_park e)) in
      if serve_loop then
        (if expired then RetryReset 0 0
         else if refused then
           RetryReset (admission_retry_backoff DCUTR_RETRY_BACKOFF True consecutive_refusals) (consecutive_refusals + 1)
         else RetryReset DCUTR_RETRY_BACKOFF 0)
      else if refused then DcutrStop
      else if errored \<and> attempt < max_one_shot_retries then
        RetryBounded (attempt + 1) (if expired then 0 else DCUTR_RETRY_BACKOFF)
      else DcutrStop)"

definition dial_failure_action :: "nat \<Rightarrow> duration option" where
  "dial_failure_action consecutive =
     (if MAX_CONSECUTIVE_DCUTR_DIAL_FAILURES \<le> consecutive then None
      else Some (admission_retry_backoff DCUTR_RETRY_BACKOFF True (consecutive - 1)))"

text \<open>
  What one turn meets: the clock at its start, the join (its outer error is a failed dial), the clock
  when the join came back, the random number of the jitter, and whether the own grant ran out during
  the pause. The timer exists only in a loop that watches an own expiry; an input that names it
  otherwise changes nothing.
\<close>

datatype 't joined = DialError err | JoinResult "err + 't" | GrantTimer

record 't dcutr_input =
  d_now :: nat
  d_joined :: "'t joined"
  d_after :: nat
  d_rnd :: real
  d_expires_in_pause :: bool

record dcutr =
  d_attempt :: nat
  d_refusals :: nat
  d_dial_failures :: nat

definition dcutr_start :: dcutr where
  "dcutr_start = \<lparr>d_attempt = 0, d_refusals = 0, d_dial_failures = 0\<rparr>"

datatype 't dcutr_next = DcutrAgain duration dcutr | DcutrReturn "err + 't"

definition own_expiry_ends_dcutr_loop :: "nat \<Rightarrow> err" where
  "own_expiry_ends_dcutr_loop expires = OwnGrantEndedErr (grant_expired_text expires)"

definition backoff_within_grant :: "nat option \<Rightarrow> bool \<Rightarrow> duration \<Rightarrow> dcutr \<Rightarrow> 't dcutr_next" where
  "backoff_within_grant own expires_first delay st =
     (case own of
        Some expires \<Rightarrow> if expires_first then DcutrReturn (Err (own_expiry_ends_dcutr_loop expires)) else DcutrAgain delay st
      | None \<Rightarrow> DcutrAgain delay st)"

definition gave_up :: "nat \<Rightarrow> err \<Rightarrow> string" where
  "gave_up n e = '': giving up after '' @ show_nat n @ '' consecutive dial failures: '' @ display e"

text \<open>The turn after the dial: the own grant's refusal, then the action of the policy.\<close>

definition dcutr_result ::
  "(err \<Rightarrow> bool) \<Rightarrow> bool \<Rightarrow> nat option \<Rightarrow> 't dcutr_input \<Rightarrow> err + 't \<Rightarrow> dcutr \<Rightarrow> 't dcutr_next" where
  "dcutr_result names_park serve_loop own i result st =
     (case (case (own, result) of (Some _, Inl e) \<Rightarrow> own_grant_refusal e own (d_after i) | _ \<Rightarrow> None) of
        Some why \<Rightarrow> DcutrReturn (Err (OwnGrantEndedErr why))
      | None \<Rightarrow>
         (case decide_dcutr names_park result serve_loop (d_attempt st) ONE_SHOT_DCUTR_ADMISSION_RETRIES (d_refusals st) of
            RetryReset delay n \<Rightarrow>
              backoff_within_grant own (d_expires_in_pause i) (equal_jitter delay (d_rnd i))
                (st\<lparr>d_attempt := 0, d_refusals := n\<rparr>)
          | RetryBounded a delay \<Rightarrow> DcutrAgain delay (st\<lparr>d_attempt := a\<rparr>)
          | DcutrStop \<Rightarrow> DcutrReturn result))"

definition dcutr_turn ::
  "(err \<Rightarrow> bool) \<Rightarrow> string \<Rightarrow> bool \<Rightarrow> nat option \<Rightarrow> dcutr \<Rightarrow> 't dcutr_input \<Rightarrow> 't dcutr_next" where
  "dcutr_turn names_park label serve_loop own st i =
     (if (case own of Some expires \<Rightarrow> expires \<le> d_now i \<or> d_joined i = GrantTimer | None \<Rightarrow> False)
      then DcutrReturn (Err (own_expiry_ends_dcutr_loop (the own)))
      else (case d_joined i of
        JoinResult result \<Rightarrow> dcutr_result names_park serve_loop own i result (st\<lparr>d_dial_failures := 0\<rparr>)
      | DialError e \<Rightarrow>
          if serve_loop then
            (let n = sat_inc32 (d_dial_failures st); st' = st\<lparr>d_dial_failures := n\<rparr> in
             case dial_failure_action n of
               Some delay \<Rightarrow> backoff_within_grant own (d_expires_in_pause i) (equal_jitter delay (d_rnd i)) st'
             | None \<Rightarrow> DcutrReturn (Err (OtherErr (label @ gave_up n e) None)))
          else DcutrReturn (Err e)
      | GrantTimer \<Rightarrow> DcutrAgain 0 st))"

text \<open>\<open>None\<close>: the loop is still running after these turns.\<close>

fun run_dcutr_join_loop ::
  "(err \<Rightarrow> bool) \<Rightarrow> string \<Rightarrow> bool \<Rightarrow> nat option \<Rightarrow> dcutr \<Rightarrow> 't dcutr_input list \<Rightarrow> (err + 't) option" where
  "run_dcutr_join_loop np label serve own st [] = None"
| "run_dcutr_join_loop np label serve own st (i # is) =
     (case dcutr_turn np label serve own st i of
        DcutrReturn r \<Rightarrow> Some r
      | DcutrAgain d st' \<Rightarrow> run_dcutr_join_loop np label serve own st' is)"

subsection \<open>One-shot callers\<close>

lemma one_shot_turn:
  "dcutr_turn np label False own st i = DcutrAgain d st' \<Longrightarrow> d_joined i \<noteq> GrantTimer \<Longrightarrow>
     d_attempt st < ONE_SHOT_DCUTR_ADMISSION_RETRIES \<and> d_attempt st' = Suc (d_attempt st)"
  by (auto simp: dcutr_turn_def dcutr_result_def decide_dcutr_def
      split: if_splits joined.splits option.splits sum.splits)

lemma one_shot_loop:
  "list_all (\<lambda>i. d_joined i \<noteq> GrantTimer) is \<Longrightarrow>
     ONE_SHOT_DCUTR_ADMISSION_RETRIES < length is + d_attempt st \<Longrightarrow> is \<noteq> [] \<Longrightarrow>
     run_dcutr_join_loop np label False own st is \<noteq> None"
proof (induction "is" arbitrary: st)
  case (Cons i "is")
  show ?case
  proof (cases "dcutr_turn np label False own st i")
    case (DcutrAgain d st')
    with one_shot_turn [OF this] Cons have
      "d_attempt st < ONE_SHOT_DCUTR_ADMISSION_RETRIES" "d_attempt st' = Suc (d_attempt st)" by auto
    with Cons DcutrAgain show ?thesis by (cases "is") auto
  qed simp
qed simp

text \<open>
  A one-shot DCUtR join ends. However its attempts go, it returns after at most three of them, and
  a definitive refusal ends it on the spot with that refusal.
\<close>

theorem dcutr_one_shot_ends:
  assumes "list_all (\<lambda>i. d_joined i \<noteq> GrantTimer) is" and "3 \<le> length is"
  shows "run_dcutr_join_loop names_park label False own dcutr_start is \<noteq> None
     \<and> (\<forall>e. d_joined (hd is) = JoinResult (Err e) \<and> own = None \<and> is_definitive_admission_refusal e
          \<longrightarrow> run_dcutr_join_loop names_park label False own dcutr_start is = Some (Err e))"
proof -
  obtain i rest where "is": "is = i # rest" using assms(2) by (cases "is") auto
  have "run_dcutr_join_loop names_park label False own dcutr_start is \<noteq> None"
    by (rule one_shot_loop [OF assms(1)])
      (use assms "is" in \<open>auto simp: dcutr_start_def ONE_SHOT_DCUTR_ADMISSION_RETRIES_def\<close>)
  moreover have "run_dcutr_join_loop names_park label False None dcutr_start is = Some (Err e)"
    if "d_joined i = JoinResult (Err e)" "is_definitive_admission_refusal e" for e
    using that by (simp add: "is" dcutr_turn_def dcutr_result_def decide_dcutr_def)
  ultimately show ?thesis by (auto simp: "is")
qed

theorem dcutr_one_shot_ends_witness:
  "run_dcutr_join_loop (\<lambda>_. False) [] False None dcutr_start
     (replicate 3 (\<lparr>d_now = 0, d_joined = JoinResult (Err (OtherErr ''stall'' None)), d_after = 0, d_rnd = 0,
        d_expires_in_pause = False\<rparr> :: nat dcutr_input)) \<noteq> None"
  by (rule dcutr_one_shot_ends [THEN conjunct1]) (simp_all add: list_all_iff)

subsection \<open>Persistent members\<close>

definition is_dial_error :: "'t dcutr_input \<Rightarrow> bool" where
  "is_dial_error i = (case d_joined i of DialError _ \<Rightarrow> True | _ \<Rightarrow> False)"

lemma is_own_grant_end_self [simp]: "is_own_grant_end (OwnGrantEndedErr r)"
  by (rule own_grant_end_recognised) (use chain_self in blast)

text \<open>A turn of a serve member returns for two reasons only.\<close>

lemma serve_turn_return:
  assumes "dcutr_turn np label True own st i = DcutrReturn r"
  shows "(\<exists>e. r = Err e \<and> own \<noteq> None \<and> is_own_grant_end e)
     \<or> is_dial_error i \<and> MAX_CONSECUTIVE_DCUTR_DIAL_FAILURES \<le> sat_inc32 (d_dial_failures st)"
  using assms
  by (auto simp: dcutr_turn_def dcutr_result_def decide_dcutr_def backoff_within_grant_def
      own_expiry_ends_dcutr_loop_def dial_failure_action_def is_dial_error_def Let_def
      split: if_splits joined.splits option.splits sum.splits)

lemma serve_turn_again:
  assumes "dcutr_turn np label True own st i = DcutrAgain d st'" and "d_joined i \<noteq> GrantTimer"
  shows "d_dial_failures st' = (if is_dial_error i then sat_inc32 (d_dial_failures st) else 0)"
  using assms
  by (auto simp: dcutr_turn_def dcutr_result_def decide_dcutr_def backoff_within_grant_def
      is_dial_error_def Let_def
      split: if_splits joined.splits option.splits sum.splits)

lemma sat_inc32_le: "sat_inc32 n \<le> Suc n"
  by (simp add: sat_inc32_def)

text \<open>How many dials in a row failed at the end of a list of turns.\<close>

definition dial_streak :: "'t dcutr_input list \<Rightarrow> nat" where
  "dial_streak is = length (takeWhile is_dial_error (rev is))"

lemma dial_streak_snoc [simp]: "dial_streak (is @ [i]) = (if is_dial_error i then Suc (dial_streak is) else 0)"
  by (simp add: dial_streak_def)

lemma serve_loop_return:
  assumes "run_dcutr_join_loop np label True own st is = Some r"
    and "list_all (\<lambda>i. d_joined i \<noteq> GrantTimer \<or> own \<noteq> None) is"
    and "d_dial_failures st \<le> dial_streak before"
  shows "(\<exists>e. r = Err e \<and> own \<noteq> None \<and> is_own_grant_end e)
     \<or> (\<exists>k. MAX_CONSECUTIVE_DCUTR_DIAL_FAILURES \<le> dial_streak (before @ take k is))"
  using assms
proof (induction "is" arbitrary: st before)
  case (Cons i "is")
  show ?case
  proof (cases "dcutr_turn np label True own st i")
    case (DcutrReturn r')
    then have "MAX_CONSECUTIVE_DCUTR_DIAL_FAILURES \<le> dial_streak (before @ take 1 (i # is))"
      if "is_dial_error i" "MAX_CONSECUTIVE_DCUTR_DIAL_FAILURES \<le> sat_inc32 (d_dial_failures st)"
      using that Cons(4) sat_inc32_le [of "d_dial_failures st"] by simp
    with Cons serve_turn_return [OF DcutrReturn] DcutrReturn show ?thesis by fastforce
  next
    case (DcutrAgain d st')
    have timer: "d_joined i \<noteq> GrantTimer"
    proof
      assume g: "d_joined i = GrantTimer"
      with Cons(3) obtain x where "own = Some x" by auto
      with g DcutrAgain show False by (simp add: dcutr_turn_def)
    qed
    have "d_dial_failures st' \<le> dial_streak (before @ [i])"
      using serve_turn_again [OF DcutrAgain timer] sat_inc32_le [of "d_dial_failures st"] Cons(4) by auto
    with Cons(1) [of st' "before @ [i]"] Cons(2,3) DcutrAgain
    have "(\<exists>e. r = Err e \<and> own \<noteq> None \<and> is_own_grant_end e)
        \<or> (\<exists>k. MAX_CONSECUTIVE_DCUTR_DIAL_FAILURES \<le> dial_streak (before @ take (Suc k) (i # is)))"
      by auto
    then show ?thesis by blast
  qed
qed simp

text \<open>
  A persistent DCUtR member keeps serving. Its loop returns only with the end of its own grant
  (which \<^verbatim>\<open>main\<close> maps to exit status 77), or after twenty dials in a row that failed: a completed
  session, a refusal, a park expiry or a transient error never ends it.
\<close>

theorem dcutr_serve_keeps_going:
  assumes "run_dcutr_join_loop names_park label True own dcutr_start is = Some r"
    and "list_all (\<lambda>i. d_joined i \<noteq> GrantTimer \<or> own \<noteq> None) is"
  shows "(\<exists>e. r = Err e \<and> own \<noteq> None \<and> is_own_grant_end e) \<or> (\<exists>k. 20 \<le> dial_streak (take k is))"
  using serve_loop_return [OF assms, of "[]"]
  by (simp add: dcutr_start_def MAX_CONSECUTIVE_DCUTR_DIAL_FAILURES_def)

theorem dcutr_serve_keeps_going_witness:
  "\<exists>e. run_dcutr_join_loop (\<lambda>_. False) [] True (Some 5) dcutr_start
     [\<lparr>d_now = 6, d_joined = GrantTimer, d_after = 0, d_rnd = 0, d_expires_in_pause = False\<rparr> :: nat dcutr_input]
     = Some (Err e) \<and> is_own_grant_end e"
proof -
  let ?i = "\<lparr>d_now = 6, d_joined = GrantTimer, d_after = 0, d_rnd = 0, d_expires_in_pause = False\<rparr> :: nat dcutr_input"
  have run: "run_dcutr_join_loop (\<lambda>_. False) [] True (Some 5) dcutr_start [?i]
      = Some (Err (own_expiry_ends_dcutr_loop 5))"
    by (simp add: dcutr_turn_def)
  then have "(\<exists>e. Err (own_expiry_ends_dcutr_loop 5) = (Err e :: err + nat) \<and> Some (5 :: nat) \<noteq> None \<and> is_own_grant_end e)
      \<or> (\<exists>k. 20 \<le> dial_streak (take k [?i]))"
    by (rule dcutr_serve_keeps_going) simp
  moreover have "\<not> 20 \<le> dial_streak (take k [?i])" for k
    by (cases k) (simp_all add: dial_streak_def is_dial_error_def)
  ultimately show ?thesis using run by auto
qed

end
