(* ===== verification/ForwardReconnect.thy ===== *)
theory ForwardReconnect
  imports GrantWatch Dialing
begin

text \<open>
  The initiate side of a forward around its sessions (\<^verbatim>\<open>channel_run/forward_stream.rs\<close>): the parsed
  mapping and its limits, what this member does once its own grant ended, and the reconnect loop. The
  loop is a function of what each of its turns meets: how the session ended, what its gate recorded,
  the clock readings and the random number of the jitter.
\<close>

section \<open>Settings\<close>

record forward_spec =
  listen :: socket_addr
  target :: string

datatype forward_spec_error =
    NotAMapping string
  | BadLocalAddress string
  | LocalNotLoopback socket_addr
  | EmptyTarget string

definition parse_forward_spec :: "string \<Rightarrow> forward_spec_error + forward_spec" where
  "parse_forward_spec raw =
     (case split_once (CHR ''='') raw of
        None \<Rightarrow> Err (NotAMapping raw)
      | Some (local, tgt) \<Rightarrow>
         (case parse_socket_addr (trim local) of
            None \<Rightarrow> Err (BadLocalAddress local)
          | Some l \<Rightarrow>
             if \<not> is_loopback (sa_ip l) then Err (LocalNotLoopback l)
             else (let tgt' = trim tgt in
               if tgt' = [] then Err (EmptyTarget raw)
               else Ok \<lparr>listen = l, target = tgt'\<rparr>)))"

definition DEFAULT_MAX_STREAMS :: nat where "DEFAULT_MAX_STREAMS = 16"
definition DEFAULT_IDLE_SECS :: nat where "DEFAULT_IDLE_SECS = 300"

definition max_streams_from_env :: "string option \<Rightarrow> nat" where
  "max_streams_from_env raw = positive_or DEFAULT_MAX_STREAMS raw"

definition idle_timeout_from_env :: "string option \<Rightarrow> duration" where
  "idle_timeout_from_env raw = secs (positive_or DEFAULT_IDLE_SECS raw)"

definition forward_limits_from_env :: "(string \<Rightarrow> string option) \<Rightarrow> nat \<times> duration" where
  "forward_limits_from_env env =
     (max_streams_from_env (env ''CT_CHANNEL_FORWARD_MAX_STREAMS''),
      idle_timeout_from_env (env ''CT_CHANNEL_FORWARD_IDLE_SECS''))"

lemma positive_or_pos: "0 < default_value \<Longrightarrow> 0 < positive_or default_value v"
  by (auto simp: positive_or_def split: option.splits)

lemma forward_limits_positive:
  "forward_limits_from_env env = (n, idle) \<Longrightarrow> 0 < n \<and> 0 < idle"
  using positive_or_pos [of DEFAULT_MAX_STREAMS] positive_or_pos [of DEFAULT_IDLE_SECS]
  by (auto simp: forward_limits_from_env_def max_streams_from_env_def idle_timeout_from_env_def
      DEFAULT_MAX_STREAMS_def DEFAULT_IDLE_SECS_def secs_def)

section \<open>Backoff and grant ends\<close>

definition FORWARD_RECONNECT_MIN :: duration where "FORWARD_RECONNECT_MIN = secs 1"
definition FORWARD_RECONNECT_MAX :: duration where "FORWARD_RECONNECT_MAX = secs 30"

definition next_forward_reconnect_delay :: "duration option \<Rightarrow> duration \<Rightarrow> duration" where
  "next_forward_reconnect_delay prev lasted =
     (case prev of
        Some p \<Rightarrow> if lasted < FORWARD_RECONNECT_MAX then min (p * 2) FORWARD_RECONNECT_MAX else FORWARD_RECONNECT_MIN
      | None \<Rightarrow> FORWARD_RECONNECT_MIN)"

definition forward_grant_end :: "grant_end option \<Rightarrow> nat \<Rightarrow> nat \<Rightarrow> grant_end option" where
  "forward_grant_end recorded own_expires_at now =
     (case recorded of
        Some e \<Rightarrow>
          if scope e = OwnScope then Some e
          else if own_expires_at \<le> now then Some (own_end (MemberGrantExpired own_expires_at))
          else Some e
      | None \<Rightarrow>
          if own_expires_at \<le> now then Some (own_end (MemberGrantExpired own_expires_at)) else None)"

datatype on_own_grant_end = Exit | Refuse

definition on_own_grant_end_from :: "string option \<Rightarrow> string + on_own_grant_end" where
  "on_own_grant_end_from raw =
     (case map_option trim raw of
        None \<Rightarrow> Ok Exit
      | Some s \<Rightarrow> if s = [] \<or> s = ''exit'' then Ok Exit else if s = ''refuse'' then Ok Refuse else Err s)"

text \<open>How the forward ends: the process exits, or the listener refuses every connection for good.\<close>

datatype forward_end = ReturnsOwnGrantEnded grant_reason | RefusesForGood grant_reason

definition end_forward_for_own_grant :: "on_own_grant_end \<Rightarrow> grant_reason \<Rightarrow> forward_end" where
  "end_forward_for_own_grant on_own_end why =
     (case on_own_end of Exit \<Rightarrow> ReturnsOwnGrantEnded why | Refuse \<Rightarrow> RefusesForGood why)"

text \<open>What the refusing listener does with each \<^verbatim>\<open>accept\<close>: a connection is dropped at once, an error is waited out.\<close>

datatype accept_result = Connection string | AcceptError string
datatype refuse_action = Dropped string grant_reason | PauseAfterError duration

fun refuse_forward_connections :: "grant_reason \<Rightarrow> accept_result list \<Rightarrow> refuse_action list" where
  "refuse_forward_connections why [] = []"
| "refuse_forward_connections why (Connection p # as) = Dropped p why # refuse_forward_connections why as"
| "refuse_forward_connections why (AcceptError e # as) =
     PauseAfterError FORWARD_RECONNECT_MIN # refuse_forward_connections why as"

section \<open>The loop\<close>

datatype session_outcome = SessionReturned "err + unit" | OwnExpiryTimer

record forward_turn_input =
  f_now :: nat
  f_outcome :: session_outcome
  f_recorded :: "grant_end option"
  f_lasted :: duration
  f_after :: nat
  f_rnd :: real
  f_expires_in_wait :: bool

datatype forward_next = ForwardAgain duration duration | ForwardEnds forward_end

text \<open>
  One turn: \<open>refusal\<close> is the test for an admission error that says this member's own grant ended; the
  last component of \<open>ForwardAgain\<close> is the backoff step the wait was drawn from.
\<close>

definition forward_turn ::
  "(err \<Rightarrow> bool) \<Rightarrow> nat \<Rightarrow> on_own_grant_end \<Rightarrow> duration option \<Rightarrow> forward_turn_input \<Rightarrow> forward_next" where
  "forward_turn is_refusal own_expires_at on_own_end delay i =
     (let expired = end_forward_for_own_grant on_own_end (MemberGrantExpired own_expires_at) in
      if own_expires_at \<le> f_now i then ForwardEnds expired
      else (case f_outcome i of
        OwnExpiryTimer \<Rightarrow> ForwardEnds expired
      | SessionReturned outcome \<Rightarrow>
         (let gend = (case forward_grant_end (f_recorded i) own_expires_at (f_after i) of
                Some e \<Rightarrow> Some e
              | None \<Rightarrow> (case outcome of
                   Inl e \<Rightarrow> if is_refusal e then Some (own_end (AdmissionRefused (display e))) else None
                 | Inr _ \<Rightarrow> None)) in
          if (case gend of Some e \<Rightarrow> scope e = OwnScope | None \<Rightarrow> False)
          then ForwardEnds (end_forward_for_own_grant on_own_end (reason (the gend)))
          else
            (let step = next_forward_reconnect_delay delay (f_lasted i); wt = equal_jitter step (f_rnd i) in
             if f_expires_in_wait i then ForwardEnds expired else ForwardAgain wt step))))"

fun run_forward_initiate_reconnect_loop ::
  "(err \<Rightarrow> bool) \<Rightarrow> nat \<Rightarrow> on_own_grant_end \<Rightarrow> duration option \<Rightarrow> forward_turn_input list
     \<Rightarrow> duration list \<times> forward_end option" where
  "run_forward_initiate_reconnect_loop rf own oe delay [] = ([], None)"
| "run_forward_initiate_reconnect_loop rf own oe delay (i # is) =
     (case forward_turn rf own oe delay i of
        ForwardEnds e \<Rightarrow> ([], Some e)
      | ForwardAgain wt step \<Rightarrow>
          (let (ws, e) = run_forward_initiate_reconnect_loop rf own oe (Some step) is in (wt # ws, e)))"

section \<open>Properties\<close>

text \<open>
  The forward listener is never bound beyond this host. A mapping is accepted only with a loopback
  address to listen on and a non-empty target; every other value of the variable is an error.
\<close>

theorem forward_listener_loopback:
  "parse_forward_spec raw = Ok spec \<longleftrightarrow>
     (\<exists>local tgt. raw = local @ CHR ''='' # tgt \<and> CHR ''='' \<notin> set local
        \<and> parse_socket_addr (trim local) = Some (listen spec) \<and> is_loopback (sa_ip (listen spec))
        \<and> target spec = trim tgt \<and> target spec \<noteq> [])"
proof (cases "split_once (CHR ''='') raw")
  case None
  then have "CHR ''='' \<notin> set raw" by (simp add: split_once_None)
  then show ?thesis by (auto simp: parse_forward_spec_def None)
next
  case (Some p)
  then obtain l t where p: "split_once (CHR ''='') raw = Some (l, t)" by (cases p) auto
  then have "raw = local @ CHR ''='' # tgt \<and> CHR ''='' \<notin> set local \<longleftrightarrow> local = l \<and> tgt = t" for local tgt
    by (metis Pair_inject option.inject split_once_Some)
  then have "(\<exists>local tgt. raw = local @ CHR ''='' # tgt \<and> CHR ''='' \<notin> set local \<and> Q local tgt) \<longleftrightarrow> Q l t" for Q
    by metis
  then show ?thesis by (auto simp: parse_forward_spec_def p Let_def split: option.splits)
qed

text \<open>The reasons of a turn that are this member's own: clock, timer, gate, refusal.\<close>

definition own_grant_over :: "(err \<Rightarrow> bool) \<Rightarrow> nat \<Rightarrow> forward_turn_input \<Rightarrow> bool" where
  "own_grant_over rf own i \<longleftrightarrow>
     own \<le> f_now i \<or> f_outcome i = OwnExpiryTimer \<or> own \<le> f_after i \<or> f_expires_in_wait i
     \<or> (\<exists>e. f_recorded i = Some e \<and> scope e = OwnScope)
     \<or> f_recorded i = None \<and> (\<exists>e. f_outcome i = SessionReturned (Err e) \<and> rf e)"

lemma forward_turn_ends_iff: "(\<exists>e. forward_turn rf own oe d i = ForwardEnds e) \<longleftrightarrow> own_grant_over rf own i"
  by (auto simp: forward_turn_def own_grant_over_def forward_grant_end_def Let_def
      split: session_outcome.splits option.splits sum.splits if_splits)

lemma forward_loop_end:
  "snd (run_forward_initiate_reconnect_loop rf own oe d is) \<noteq> None \<longleftrightarrow> list_ex (own_grant_over rf own) is"
proof (induction "is" arbitrary: d)
  case (Cons i "is")
  show ?case
  proof (cases "forward_turn rf own oe d i")
    case (ForwardEnds e)
    then have "own_grant_over rf own i" using forward_turn_ends_iff by blast
    with ForwardEnds show ?thesis by simp
  next
    case (ForwardAgain wt step)
    then have "\<not> own_grant_over rf own i" using forward_turn_ends_iff [of rf own oe d i] by auto
    with ForwardAgain Cons show ?thesis by (simp add: split_beta)
  qed
qed simp

lemma forward_loop_end_kind:
  "snd (run_forward_initiate_reconnect_loop rf own oe d is) = Some e \<Longrightarrow>
     \<exists>why. e = end_forward_for_own_grant oe why"
proof (induction "is" arbitrary: d)
  case (Cons i "is")
  then show ?case
    by (cases "forward_turn rf own oe d i")
      (auto simp: split_beta forward_turn_def Let_def split: session_outcome.splits if_splits)
qed simp

text \<open>
  A forward ends exactly with this member's own grant. Whatever ends its sessions (a peer restart,
  a network drop, a failed admission, the end of the peer's grant), the loop reconnects, unless one
  of its turns shows that this member's own grant is over; and then it ends the way the setting says.
\<close>

theorem forward_ends_with_own_grant:
  "(snd (run_forward_initiate_reconnect_loop rf own oe None is) \<noteq> None \<longleftrightarrow> list_ex (own_grant_over rf own) is)
   \<and> (case snd (run_forward_initiate_reconnect_loop rf own oe None is) of
        None \<Rightarrow> length (fst (run_forward_initiate_reconnect_loop rf own oe None is)) = length is
      | Some e \<Rightarrow> \<exists>why. e = (case oe of Exit \<Rightarrow> ReturnsOwnGrantEnded why | Refuse \<Rightarrow> RefusesForGood why))"
proof -
  have "snd (run_forward_initiate_reconnect_loop rf own oe d is) = None \<Longrightarrow>
      length (fst (run_forward_initiate_reconnect_loop rf own oe d is)) = length is" for d
    by (induction "is" arbitrary: d) (auto simp: split_beta split: forward_next.splits)
  then show ?thesis
    using forward_loop_end [of rf own oe None "is"] forward_loop_end_kind [of rf own oe None "is"]
    by (auto simp: end_forward_for_own_grant_def split: option.split)
qed

subsection \<open>The waits\<close>

fun backoff_steps :: "duration option \<Rightarrow> duration list \<Rightarrow> duration list" where
  "backoff_steps prev [] = []"
| "backoff_steps prev (l # ls) =
     (let s = next_forward_reconnect_delay prev l in s # backoff_steps (Some s) ls)"

lemma backoff_steps_length [simp]: "length (backoff_steps p ls) = length ls"
  by (induction ls arbitrary: p) (auto simp: Let_def)

lemma loop_waits_steps:
  "snd (run_forward_initiate_reconnect_loop rf own oe d is) = None \<Longrightarrow>
     list_all2 (\<lambda>w s. s div 2 \<le> w \<and> w \<le> s)
       (fst (run_forward_initiate_reconnect_loop rf own oe d is)) (backoff_steps d (map f_lasted is))"
proof (induction "is" arbitrary: d)
  case (Cons i "is")
  then obtain wt step where again: "forward_turn rf own oe d i = ForwardAgain wt step"
    by (cases "forward_turn rf own oe d i") auto
  then have "step = next_forward_reconnect_delay d (f_lasted i)" "wt = equal_jitter step (f_rnd i)"
    by (auto simp: forward_turn_def Let_def split: session_outcome.splits if_splits)
  with Cons again equal_jitter_range [of step "f_rnd i"] show ?case by (simp add: split_beta Let_def)
qed simp

lemma step_doubles:
  assumes "lasted < secs 30"
  shows "next_forward_reconnect_delay (Some (min (secs (2 ^ k)) (secs 30))) lasted = min (secs (2 ^ Suc k)) (secs 30)"
  using assms by (auto simp: next_forward_reconnect_delay_def FORWARD_RECONNECT_MAX_def secs_def min_def)

lemma backoff_steps_short:
  assumes "list_all (\<lambda>l. l < secs 30) ls"
  shows "i < length ls \<Longrightarrow>
    backoff_steps (Some (min (secs (2 ^ k)) (secs 30))) ls ! i = min (secs (2 ^ (k + Suc i))) (secs 30)"
  using assms
proof (induction ls arbitrary: i k)
  case (Cons l ls)
  then have s: "next_forward_reconnect_delay (Some (min (secs (2 ^ k)) (secs 30))) l = min (secs (2 ^ Suc k)) (secs 30)"
    using step_doubles by simp
  show ?case
  proof (cases i)
    case 0
    then show ?thesis using s by (simp add: Let_def del: power_Suc)
  next
    case (Suc j)
    then show ?thesis using s Cons.IH [of j "Suc k"] Cons.prems by (simp add: Let_def del: power_Suc)
  qed
qed simp

text \<open>
  The waits of the reconnect loop. After the first session it waits up to one second; each
  further session that lasts less than 30 seconds doubles the step, up to 30 seconds; every wait is
  between half its step and the step, so a fleet does not come back in lockstep.
\<close>

theorem forward_reconnect_waits:
  assumes "snd (run_forward_initiate_reconnect_loop rf own oe None is) = None"
    and "list_all (\<lambda>i. f_lasted i < secs 30) is" and "k < length is"
  shows "min (secs (2 ^ k)) (secs 30) div 2 \<le> fst (run_forward_initiate_reconnect_loop rf own oe None is) ! k
     \<and> fst (run_forward_initiate_reconnect_loop rf own oe None is) ! k \<le> min (secs (2 ^ k)) (secs 30)"
proof -
  obtain i rest where "is": "is = i # rest" using assms(3) by (cases "is") auto
  have first: "next_forward_reconnect_delay None (f_lasted i) = min (secs (2 ^ 0)) (secs 30)"
    by (simp add: next_forward_reconnect_delay_def FORWARD_RECONNECT_MIN_def secs_def)
  have "backoff_steps None (map f_lasted is) ! k = min (secs (2 ^ k)) (secs 30)"
  proof (cases k)
    case 0
    then show ?thesis using first by (simp add: "is" Let_def)
  next
    case (Suc j)
    have "list_all (\<lambda>l. l < secs 30) (map f_lasted rest)" using assms(2) "is" by (simp add: list.pred_map comp_def)
    from backoff_steps_short [OF this, of j 0] show ?thesis
      using assms(3) first by (simp add: "is" Suc Let_def)
  qed
  moreover have "backoff_steps None (map f_lasted is) ! k div 2
        \<le> fst (run_forward_initiate_reconnect_loop rf own oe None is) ! k
      \<and> fst (run_forward_initiate_reconnect_loop rf own oe None is) ! k
        \<le> backoff_steps None (map f_lasted is) ! k"
    using loop_waits_steps [OF assms(1)] assms(3) by (simp add: list_all2_conv_all_nth)
  ultimately show ?thesis by metis
qed

theorem forward_reconnect_waits_witness:
  "fst (run_forward_initiate_reconnect_loop (\<lambda>_. False) 100 Exit None
     (replicate 7 \<lparr>f_now = 0, f_outcome = SessionReturned (Ok ()), f_recorded = None, f_lasted = 0, f_after = 0,
        f_rnd = 0, f_expires_in_wait = False\<rparr>)) ! 6 \<le> secs 30"
proof -
  let ?is = "replicate 7 \<lparr>f_now = 0, f_outcome = SessionReturned (Ok ()), f_recorded = None, f_lasted = 0,
        f_after = 0, f_rnd = 0, f_expires_in_wait = False\<rparr>"
  have "snd (run_forward_initiate_reconnect_loop (\<lambda>_. False) 100 Exit None ?is) = None"
    using forward_loop_end [of "\<lambda>_. False" 100 Exit None ?is]
    by (auto simp: list_ex_iff own_grant_over_def)
  moreover have "list_all (\<lambda>i. f_lasted i < secs 30) ?is" by (simp add: list_all_iff secs_def)
  ultimately show ?thesis
    using forward_reconnect_waits [of "\<lambda>_. False" 100 Exit ?is 6] by simp
qed

end
