(* ===== verification/Codec.thy ===== *)
theory Codec
  imports Rust_Text
begin

unbundle bit_operations_syntax

text \<open>
  \<^verbatim>\<open>native/src/codec.rs\<close>: lower-case hex, strict hex decoding into a fixed size and the constant-time
  comparison.
  \<^verbatim>\<open>base64url\<close> is the base64 crate and \<^verbatim>\<open>now_unix\<close> the clock: both are parameters where a component
  uses them.
\<close>

section \<open>Definitions\<close>

definition DIGITS :: string where
  "DIGITS = ''0123456789abcdef''"

definition hex_encode :: "bytes \<Rightarrow> string" where
  "hex_encode bs =
     concat (map (\<lambda>b. [DIGITS ! unat (drop_bit 4 b), DIGITS ! unat (b AND 0x0f)]) bs)"

text \<open>\<^verbatim>\<open>char::to_digit(16)\<close> of one byte.\<close>

definition hex_nibble :: "char \<Rightarrow> nat option" where
  "hex_nibble c =
     (if is_ascii_digit c then Some (byte_of c - 48)
      else if 97 \<le> byte_of c \<and> byte_of c \<le> 102 then Some (byte_of c - 87)
      else if 65 \<le> byte_of c \<and> byte_of c \<le> 70 then Some (byte_of c - 55)
      else None)"

fun hex_pairs :: "string \<Rightarrow> bytes option" where
  "hex_pairs (c # d # s) =
     (case hex_nibble c of None \<Rightarrow> None
      | Some h \<Rightarrow> (case hex_nibble d of None \<Rightarrow> None
        | Some l \<Rightarrow> map_option (\<lambda>bs. word_of_nat (h * 16 + l) # bs) (hex_pairs s)))"
| "hex_pairs _ = Some []"

definition hex_decode :: "nat \<Rightarrow> string \<Rightarrow> bytes option" where
  "hex_decode n s = (if length s \<noteq> n * 2 then None else hex_pairs s)"

definition ct_eq :: "bytes \<Rightarrow> bytes \<Rightarrow> bool" where
  "ct_eq a b =
     (if length a \<noteq> length b then False
      else fold (\<lambda>(x, y) acc. acc OR (x XOR y)) (zip a b) (0 :: byte) = 0)"

subsection \<open>Lemmas\<close>

lemma DIGITS_nth: "n < 16 \<Longrightarrow> DIGITS ! n = (if n < 10 then char_of (48 + n) else char_of (87 + n))"
proof -
  have "\<forall>k \<in> set [0..<16].
          DIGITS ! k = (if k < 10 then char_of (48 + k) else char_of (87 + k))" by code_simp
  then show "n < 16 \<Longrightarrow> ?thesis" by simp
qed

lemma hex_nibble_DIGITS: "n < 16 \<Longrightarrow> hex_nibble (DIGITS ! n) = Some n"
  by (simp add: DIGITS_nth hex_nibble_def is_ascii_digit_def)

lemma hex_nibble_Some:
  assumes "hex_nibble c = Some n"
  shows "n < 16" and "DIGITS ! n = ascii_lower c"
proof -
  consider (d) "is_ascii_digit c" "n = byte_of c - 48"
    | (l) "97 \<le> byte_of c" "byte_of c \<le> 102" "n = byte_of c - 87"
    | (u) "65 \<le> byte_of c" "byte_of c \<le> 70" "n = byte_of c - 55"
    using assms by (auto simp: hex_nibble_def split: if_splits)
  then have "n < 16 \<and> DIGITS ! n = ascii_lower c"
  proof cases
    case d
    then have "n < 10" "48 + n = byte_of c" "\<not> is_ascii_upper c"
      by (auto simp: is_ascii_digit_def is_ascii_upper_def)
    then show ?thesis by (simp add: DIGITS_nth ascii_lower_def)
  next
    case l
    then have "\<not> n < 10" "n < 16" "87 + n = byte_of c" "\<not> is_ascii_upper c"
      by (auto simp: is_ascii_upper_def)
    then show ?thesis by (simp add: DIGITS_nth ascii_lower_def)
  next
    case u
    then have "\<not> n < 10" "n < 16" "87 + n = byte_of c + 32" "is_ascii_upper c"
      by (auto simp: is_ascii_upper_def)
    then show ?thesis by (simp add: DIGITS_nth ascii_lower_def)
  qed
  then show "n < 16" and "DIGITS ! n = ascii_lower c" by auto
qed

lemma unat_drop_bit_4: "unat (drop_bit 4 b :: byte) = unat b div 16"
  by (simp add: drop_bit_eq_div unat_div)

lemma unat_and_15: "unat (b AND 0x0f :: byte) = unat b mod 16"
proof -
  have "unat (b AND 0x0f) = unat b AND mask 4"
    by (simp add: unsigned_and_eq mask_eq_exp_minus_1)
  then show ?thesis by (simp add: take_bit_eq_mod flip: take_bit_eq_mask)
qed

lemmas nibble_simps = unat_drop_bit_4 unat_and_15

lemma hex_encode_Nil [simp]: "hex_encode [] = []"
  by (simp add: hex_encode_def)

lemma hex_encode_Cons:
  "hex_encode (b # bs) = DIGITS ! (unat b div 16) # DIGITS ! (unat b mod 16) # hex_encode bs"
  by (simp add: hex_encode_def nibble_simps)

lemma length_hex_encode [simp]: "length (hex_encode bs) = 2 * length bs"
  by (induction bs) (auto simp: hex_encode_Cons)

lemma hex_encode_empty [simp]: "hex_encode bs = [] \<longleftrightarrow> bs = []"
  by (cases bs) (simp_all add: hex_encode_Cons)

lemma hex_encode_chars: "c \<in> set (hex_encode d) \<Longrightarrow> is_ascii_hexdigit c"
proof (induction d)
  case (Cons b d)
  have "DIGITS ! n \<in> set DIGITS" if "n < 16" for n using that by (intro nth_mem) (simp add: DIGITS_def)
  moreover have "list_all is_ascii_hexdigit DIGITS" by (simp add: DIGITS_def is_ascii_hexdigit_def is_ascii_digit_def)
  ultimately have "n < 16 \<Longrightarrow> is_ascii_hexdigit (DIGITS ! n)" for n by (simp add: list_all_iff)
  then show ?case using Cons by (auto simp: hex_encode_Cons nibble_simps unat_byte_lt less_mult_imp_div_less)
qed simp

lemma hex_pairs_hex_encode: "hex_pairs (hex_encode bs) = Some bs"
proof (induction bs)
  case (Cons b bs)
  have "unat b div 16 < 16" using unat_byte_lt [of b] by simp
  moreover have "word_of_nat (unat b div 16 * 16 + unat b mod 16) = b" by simp
  ultimately show ?case using Cons by (simp add: hex_encode_Cons hex_nibble_DIGITS)
qed simp

lemma hex_pairs_Some:
  "hex_pairs s = Some bs \<Longrightarrow> even (length s) \<Longrightarrow>
     length bs = length s div 2 \<and> hex_encode bs = to_ascii_lowercase s"
proof (induction s arbitrary: bs rule: hex_pairs.induct)
  case (1 c d s)
  from "1.prems" obtain h l bs' where h: "hex_nibble c = Some h" and l: "hex_nibble d = Some l"
    and bs': "hex_pairs s = Some bs'" and bs: "bs = word_of_nat (h * 16 + l) # bs'"
    by (auto split: option.splits)
  have hl: "h < 16" "l < 16" using h l by (auto dest: hex_nibble_Some)
  then have "unat (word_of_nat (h * 16 + l) :: byte) = h * 16 + l"
    by (subst unat_of_nat) simp
  then show ?case
    using 1 h l bs' bs hl hex_nibble_Some(2) [OF h] hex_nibble_Some(2) [OF l]
    by (simp add: hex_encode_Cons to_ascii_lowercase_def)
qed (auto simp: to_ascii_lowercase_def)

subsection \<open>Properties\<close>

text \<open>
  Hex decoding inverts hex encoding, and accepts exactly the strings whose lower-case form is
  the encoding of \<open>n\<close> bytes: nothing is trimmed, no sign is accepted, either case is.
\<close>

theorem hex_decode_iff:
  "hex_decode n s = Some bs \<longleftrightarrow> length bs = n \<and> hex_encode bs = to_ascii_lowercase s"
proof
  assume "hex_decode n s = Some bs"
  then show "length bs = n \<and> hex_encode bs = to_ascii_lowercase s"
    using hex_pairs_Some [of s bs] by (auto simp: hex_decode_def split: if_splits)
next
  assume a: "length bs = n \<and> hex_encode bs = to_ascii_lowercase s"
  then have len: "length s = n * 2"
    by (metis length_hex_encode length_to_ascii_lowercase mult.commute)
  have low: "hex_nibble (ascii_lower c) = hex_nibble c" for c
    by (auto simp: hex_nibble_def ascii_defs)
  have "hex_pairs (map ascii_lower t) = hex_pairs t" for t
    by (induction t rule: hex_pairs.induct) (simp_all add: low split: option.split)
  then have "hex_pairs (to_ascii_lowercase t) = hex_pairs t" for t
    by (simp add: to_ascii_lowercase_def)
  then have "hex_pairs s = Some bs" using a hex_pairs_hex_encode [of bs] by metis
  with len show "hex_decode n s = Some bs" by (simp add: hex_decode_def)
qed

lemma hex_decode_hex_encode [simp]: "length bs = n \<Longrightarrow> hex_decode n (hex_encode bs) = Some bs"
  by (simp add: hex_decode_def hex_pairs_hex_encode)

lemma fold_or_zero:
  "fold (\<lambda>(x, y) acc. acc OR (x XOR y)) ps (acc :: byte) = 0 \<longleftrightarrow> acc = 0 \<and> (\<forall>(x, y) \<in> set ps. x = y)"
proof (induction ps arbitrary: acc)
  case (Cons p ps)
  obtain x y where "p = (x, y)" by fastforce
  moreover have "x XOR y = 0 \<longleftrightarrow> x = y" by (metis xor.left_neutral xor_self_eq word_bw_assocs(3) xor.right_neutral)
  moreover have "acc OR (x XOR y) = 0 \<longleftrightarrow> acc = 0 \<and> x XOR y = 0" by (simp add: or_eq_0_iff)
  ultimately show ?case using Cons by auto
qed simp

text \<open>The constant-time comparison decides equality; every credential check rests on it.\<close>

lemma ct_eq_iff [simp]: "ct_eq a b \<longleftrightarrow> a = b"
proof (cases "length a = length b")
  case True
  then have "(\<forall>(x, y) \<in> set (zip a b). x = y) \<longleftrightarrow> a = b"
    by (induction a b rule: list_induct2) auto
  with True show ?thesis by (simp add: ct_eq_def fold_or_zero)
next
  case False
  then show ?thesis by (auto simp: ct_eq_def)
qed

end
