(* ===== verification/PeerGrant.thy ===== *)
theory PeerGrant
  imports GrantWatch EnvFlag Codec
begin

text \<open>
  \<^verbatim>\<open>channel_run/peer_grant.rs\<close>: the exchange of operator-signed grants inside a fresh session, and the
  clock that ends the session with the grants. The signed grant, its wire form and its verification
  are \<^verbatim>\<open>ct_common\<close>'s and a parameter (\<open>ct\<close>). The plaintext side behind the gate is a record of the
  bytes read from and written to it; what it answers to a poll is an argument of that poll. A oneshot
  receiver is the state of its channel, a timer the point of the monotonic clock at which it fires.
\<close>

section \<open>What the gate uses\<close>

datatype grant_direction = DirInitiate | DirAccept | DirBoth
datatype channel_role = Initiate | Accept

record 'g ct_common =
  WIRE_LEN :: nat
  grant_encode :: "'g \<Rightarrow> bytes"
  grant_decode :: "bytes \<Rightarrow> string + 'g"
  verify_stateless :: "bytes \<Rightarrow> 'g \<Rightarrow> nat \<Rightarrow> string + unit"
  grant_channel :: "'g \<Rightarrow> bytes"
  grant_holder :: "'g \<Rightarrow> bytes"
  grant_dir :: "'g \<Rightarrow> grant_direction"
  grant_expires_at :: "'g \<Rightarrow> nat"

record clock =
  wall :: nat
  mono :: nat

definition now_unix :: "clock \<Rightarrow> nat" where
  "now_unix clk = wall clk div secs 1"

datatype 'a oneshot = Waiting | Sent 'a | SenderDropped

datatype 'a poll = PollPending | PollReady 'a

section \<open>Policy and check\<close>

definition REQUIRE_PEER_GRANT_ENV :: string where
  "REQUIRE_PEER_GRANT_ENV = ''CT_CHANNEL_REQUIRE_PEER_GRANT''"

definition OPERATOR_PUBKEY_ENV :: string where
  "OPERATOR_PUBKEY_ENV = ''CT_CHANNEL_OPERATOR_PUBKEY''"

record peer_grant_policy =
  operator :: bytes

datatype policy_error = NoOperatorKey

definition policy_from_lookup_for ::
  "(string \<Rightarrow> string option) \<Rightarrow> bool \<Rightarrow> warn_state \<Rightarrow> (policy_error + peer_grant_policy option) \<times> warn_state" where
  "policy_from_lookup_for f forward st =
     (let (on, st') = (if forward then (True, st)
                       else flag_named REQUIRE_PEER_GRANT_ENV (f REQUIRE_PEER_GRANT_ENV) False st) in
      if \<not> on then (Ok None, st')
      else (let raw = (case f OPERATOR_PUBKEY_ENV of Some v \<Rightarrow> v | None \<Rightarrow> []) in
        case hex_decode 32 (trim raw) of
          None \<Rightarrow> (Err NoOperatorKey, st')
        | Some k \<Rightarrow> (Ok (Some \<lparr>operator = k\<rparr>), st')))"

definition policy_from_lookup ::
  "(string \<Rightarrow> string option) \<Rightarrow> warn_state \<Rightarrow> (policy_error + peer_grant_policy option) \<times> warn_state" where
  "policy_from_lookup f st = policy_from_lookup_for f False st"

record 'g peer_grant_check =
  policy :: peer_grant_policy
  own_grant :: 'g
  peer_holder :: bytes
  role :: channel_role
  check_watch :: "watch_config option"

definition MAGIC :: bytes where "MAGIC = str_bytes ''CTPG1''"

definition PRELUDE_LEN :: "'g ct_common \<Rightarrow> nat" where
  "PRELUDE_LEN ct = length MAGIC + WIRE_LEN ct"

definition PEER_GRANT_TIMEOUT :: duration where "PEER_GRANT_TIMEOUT = secs 10"
definition GRANT_TEARDOWN_BUDGET :: duration where "GRANT_TEARDOWN_BUDGET = secs 5"

definition prelude :: "'g ct_common \<Rightarrow> 'g peer_grant_check \<Rightarrow> bytes" where
  "prelude ct c = MAGIC @ grant_encode ct (own_grant c)"

datatype refusal =
    NoGrantPresented
  | GrantMalformed string
  | GrantNotVerified string
  | OtherChannel
  | OtherHolder
  | WrongDirection channel_role
  | GrantLate nat
  | ClosedWithoutGrant

definition complementary :: "channel_role \<Rightarrow> grant_direction \<Rightarrow> bool" where
  "complementary r d =
     (case (r, d) of (_, DirBoth) \<Rightarrow> True | (Initiate, DirAccept) \<Rightarrow> True
      | (Accept, DirInitiate) \<Rightarrow> True | _ \<Rightarrow> False)"

definition verify :: "'g ct_common \<Rightarrow> 'g peer_grant_check \<Rightarrow> bytes \<Rightarrow> nat \<Rightarrow> refusal + 'g" where
  "verify ct c pre now =
     (case strip_prefix MAGIC pre of
        None \<Rightarrow> Err NoGrantPresented
      | Some body \<Rightarrow>
         (case grant_decode ct body of
            Inl e \<Rightarrow> Err (GrantMalformed e)
          | Inr g \<Rightarrow>
             (case verify_stateless ct (operator (policy c)) g now of
                Inl e \<Rightarrow> Err (GrantNotVerified e)
              | Inr _ \<Rightarrow>
                 if grant_channel ct g \<noteq> grant_channel ct (own_grant c) then Err OtherChannel
                 else if grant_holder ct g \<noteq> peer_holder c then Err OtherHolder
                 else if \<not> complementary (role c) (grant_dir ct g) then Err (WrongDirection (role c))
                 else Ok g)))"

section \<open>The lifetime of the grants\<close>

datatype gate_emit = EmitGrantEnded grant_reason grant_end_scope | EmitRefused refusal

definition record_set :: "grant_end \<Rightarrow> grant_end option \<Rightarrow> grant_end option" where
  "record_set e slot = (case slot of None \<Rightarrow> Some e | Some _ \<Rightarrow> slot)"

record grant_lifetime =
  expiry :: "nat option"
  own_expires_at :: "nat option"
  peer_expires_at :: "nat option"
  revoke :: "string oneshot option"
  watch_rx :: "grant_end oneshot option"
  ended :: "grant_reason option"
  end_record :: "grant_end option option"
  life_emits :: "gate_emit list"

definition timer :: "clock \<Rightarrow> nat \<Rightarrow> nat" where
  "timer clk expires_at = mono clk + (secs expires_at - wall clk)"

definition expired_grant :: "grant_lifetime \<Rightarrow> grant_end" where
  "expired_grant l =
     (case (own_expires_at l, peer_expires_at l) of
        (Some own, Some peer) \<Rightarrow> if peer < own then peer_end (PeerExpired peer) else own_end (OwnExpired own)
      | (Some own, None) \<Rightarrow> own_end (OwnExpired own)
      | (None, Some peer) \<Rightarrow> peer_end (PeerExpired peer)
      | (None, None) \<Rightarrow> own_end SomeExpired)"

definition life_end :: "grant_end \<Rightarrow> grant_lifetime \<Rightarrow> bool \<times> grant_lifetime" where
  "life_end e l =
     (True, l\<lparr>expiry := None, revoke := None, watch_rx := None, ended := Some (reason e),
              end_record := map_option (record_set e) (end_record l),
              life_emits := life_emits l @ [EmitGrantEnded (reason e) (scope e)]\<rparr>)"

definition poll_ended :: "clock \<Rightarrow> grant_lifetime \<Rightarrow> bool \<times> grant_lifetime" where
  "poll_ended clk l =
     (if ended l \<noteq> None then (True, l)
      else if (case expiry l of Some d \<Rightarrow> d \<le> mono clk | None \<Rightarrow> False)
           then life_end (expired_grant l) l
      else (case watch_rx l of
              Some (Sent e) \<Rightarrow> life_end e l
            | Some SenderDropped \<Rightarrow> life_end (peer_end RecheckStopped) l
            | _ \<Rightarrow>
               (case revoke l of
                  Some (Sent why) \<Rightarrow> life_end (peer_end (RevokedByHandle why)) l
                | Some SenderDropped \<Rightarrow> (False, l\<lparr>revoke := None\<rparr>)
                | _ \<Rightarrow> (False, l))))"

datatype deny_why = DenyRefusal refusal | DenyEnded grant_reason | DenyEndedUnnamed
datatype gate_error = Denied deny_why | InnerError string

definition life_reason :: "grant_lifetime \<Rightarrow> deny_why" where
  "life_reason l = (case ended l of Some r \<Rightarrow> DenyEnded r | None \<Rightarrow> DenyEndedUnnamed)"

section \<open>The gate\<close>

record 'g gate =
  check :: "'g peer_grant_check"
  out :: bytes
  out_pos :: nat
  peer :: bytes
  verified :: bool
  failed :: "refusal option"
  reader :: bool
  deadline :: "nat option"
  gate_emits :: "gate_emit list"

record inner =
  in_read :: bytes
  in_written :: bytes
  in_shut :: bool

record 'g peer_grant_gate =
  inner :: inner
  gate :: "'g gate option"
  life :: grant_lifetime
  revoker :: bool
  watches :: "'g list"
  wakes :: nat
  past_emits :: "gate_emit list"

definition gate_build ::
  "'g ct_common \<Rightarrow> clock \<Rightarrow> 'g peer_grant_check option \<Rightarrow> nat option \<Rightarrow> grant_end option option \<Rightarrow> 'g peer_grant_gate" where
  "gate_build ct clk chk own rec =
     \<lparr>inner = \<lparr>in_read = [], in_written = [], in_shut = False\<rparr>,
      gate = map_option (\<lambda>c. \<lparr>check = c, out = prelude ct c, out_pos = 0, peer = [], verified = False,
                              failed = None, reader = False, deadline = None, gate_emits = []\<rparr>) chk,
      life = \<lparr>expiry = map_option (timer clk) own, own_expires_at = own, peer_expires_at = None,
              revoke = Some Waiting, watch_rx = None, ended = None, end_record = rec, life_emits = []\<rparr>,
      revoker = True, watches = [], wakes = 0, past_emits = []\<rparr>"

definition gate_new ::
  "'g ct_common \<Rightarrow> clock \<Rightarrow> 'g peer_grant_check option \<Rightarrow> grant_end option option \<Rightarrow> 'g peer_grant_gate" where
  "gate_new ct clk chk rec =
     gate_build ct clk chk (map_option (\<lambda>c. grant_expires_at ct (own_grant c)) chk) rec"


definition revoke_handle :: "'g peer_grant_gate \<Rightarrow> bool \<times> 'g peer_grant_gate" where
  "revoke_handle s = (revoker s, s\<lparr>revoker := False\<rparr>)"

text \<open>\<^verbatim>\<open>Gate::fail\<close> also wakes the reader that waits for the verification.\<close>

definition gate_fail :: "refusal \<Rightarrow> 'g gate \<Rightarrow> 'g gate" where
  "gate_fail why g = g\<lparr>failed := Some why, reader := False, gate_emits := gate_emits g @ [EmitRefused why]\<rparr>"

definition gate_done :: "'g gate \<Rightarrow> bool" where
  "gate_done g = (verified g \<and> out_pos g = length (out g))"

definition arm_deadline :: "clock \<Rightarrow> 'g gate \<Rightarrow> 'g gate" where
  "arm_deadline clk g = (if deadline g = None then g\<lparr>deadline := Some (mono clk + PEER_GRANT_TIMEOUT)\<rparr> else g)"

definition deadline_passed :: "clock \<Rightarrow> 'g gate \<Rightarrow> bool \<times> 'g gate" where
  "deadline_passed clk g =
     (let g' = arm_deadline clk g in
      ((case deadline g' of Some d \<Rightarrow> d \<le> mono clk | None \<Rightarrow> False), g'))"

definition woken :: "'g gate \<Rightarrow> nat" where
  "woken g = (if reader g then 1 else 0)"

text \<open>\<^verbatim>\<open>this.gate = None\<close>: what the gate emitted is kept beside it.\<close>

definition gate_open :: "'g gate \<Rightarrow> 'g peer_grant_gate \<Rightarrow> 'g peer_grant_gate" where
  "gate_open g s = s\<lparr>gate := None, past_emits := past_emits s @ gate_emits g\<rparr>"

datatype inner_read = InnerReadPending | InnerReads bytes | InnerReadErr string

definition inner_poll_read ::
  "inner_read \<Rightarrow> 'g peer_grant_gate \<Rightarrow> (gate_error + bytes) poll \<times> 'g peer_grant_gate" where
  "inner_poll_read r s =
     (case r of
        InnerReadPending \<Rightarrow> (PollPending, s)
      | InnerReadErr e \<Rightarrow> (PollReady (Err (InnerError e)), s)
      | InnerReads bs \<Rightarrow> (PollReady (Ok bs), s\<lparr>inner := (inner s)\<lparr>in_read := in_read (inner s) @ bs\<rparr>\<rparr>))"

definition poll_read ::
  "clock \<Rightarrow> inner_read \<Rightarrow> nat \<Rightarrow> 'g peer_grant_gate \<Rightarrow> (gate_error + bytes) poll \<times> 'g peer_grant_gate" where
  "poll_read clk r remaining s0 =
     (let (over, l) = poll_ended clk (life s0); s = s0\<lparr>life := l\<rparr> in
      if over then (PollReady (Ok []), s\<lparr>inner := (inner s)\<lparr>in_shut := True\<rparr>\<rparr>)
      else (case gate s of
        None \<Rightarrow> inner_poll_read r s
      | Some g0 \<Rightarrow>
         (let g = arm_deadline clk g0 in
          if out_pos g < length (out g) then
            (let n = min remaining (length (out g) - out_pos g);
                 chunk = take n (drop (out_pos g) (out g));
                 g1 = g\<lparr>out_pos := out_pos g + n\<rparr> in
             (PollReady (Ok chunk), if gate_done g1 then gate_open g1 s else s\<lparr>gate := Some g1\<rparr>))
          else (case failed g of
            Some why \<Rightarrow> (PollReady (Err (Denied (DenyRefusal why))), s\<lparr>gate := Some g\<rparr>)
          | None \<Rightarrow>
             if \<not> verified g then
               (let (late, g1) = deadline_passed clk g in
                if late then
                  (let why = GrantLate (PEER_GRANT_TIMEOUT div secs 1) in
                   (PollReady (Err (Denied (DenyRefusal why))),
                    s\<lparr>gate := Some (gate_fail why g1), wakes := wakes s + woken g1\<rparr>))
                else (PollPending, s\<lparr>gate := Some (g1\<lparr>reader := True\<rparr>)\<rparr>))
             else inner_poll_read r (gate_open g s)))))"

datatype inner_write = InnerWritePending | InnerWrites nat | InnerWriteErr string

definition inner_poll_write ::
  "inner_write \<Rightarrow> bytes \<Rightarrow> 'g peer_grant_gate \<Rightarrow> (gate_error + nat) poll \<times> 'g peer_grant_gate" where
  "inner_poll_write r data s =
     (case r of
        InnerWritePending \<Rightarrow> (PollPending, s)
      | InnerWriteErr e \<Rightarrow> (PollReady (Err (InnerError e)), s)
      | InnerWrites k \<Rightarrow>
          (let n = min k (length data) in
           (PollReady (Ok n), s\<lparr>inner := (inner s)\<lparr>in_written := in_written (inner s) @ take n data\<rparr>\<rparr>)))"

text \<open>The peer's grant verified: the session is bounded by the earlier of the two grants.\<close>

definition fold_peer_expiry ::
  "'g ct_common \<Rightarrow> clock \<Rightarrow> 'g peer_grant_check \<Rightarrow> 'g \<Rightarrow> grant_lifetime \<Rightarrow> grant_lifetime" where
  "fold_peer_expiry ct clk c p l =
     (let own = (case own_expires_at l of Some e \<Rightarrow> e | None \<Rightarrow> grant_expires_at ct (own_grant c)) in
      l\<lparr>own_expires_at := Some own, peer_expires_at := Some (grant_expires_at ct p),
        expiry := Some (timer clk (min own (grant_expires_at ct p))),
        watch_rx := (if check_watch c = None then watch_rx l else Some Waiting)\<rparr>)"

text \<open>The part of \<^verbatim>\<open>poll_write\<close> that consumes the peer's prelude, and verifies it with its last byte.\<close>

definition take_prelude ::
  "'g ct_common \<Rightarrow> clock \<Rightarrow> bytes \<Rightarrow> 'g gate \<Rightarrow> 'g peer_grant_gate \<Rightarrow> (gate_error + nat) poll \<times> 'g peer_grant_gate" where
  "take_prelude ct clk data g0 s =
     (let g = arm_deadline clk g0;
          n = min (length data) (PRELUDE_LEN ct - length (peer g));
          g1 = g\<lparr>peer := peer g @ take n data\<rparr> in
      if length (peer g1) = PRELUDE_LEN ct then
        (case verify ct (check g1) (peer g1) (now_unix clk) of
           Inr p \<Rightarrow>
             (let g2 = g1\<lparr>verified := True, reader := False\<rparr>;
                  s1 = s\<lparr>life := fold_peer_expiry ct clk (check g1) p (life s),
                         watches := watches s @ (if check_watch (check g1) = None then [] else [p]),
                         wakes := wakes s + woken g1\<rparr> in
              (PollReady (Ok n), if gate_done g2 then gate_open g2 s1 else s1\<lparr>gate := Some g2\<rparr>))
         | Inl why \<Rightarrow>
             (PollReady (Err (Denied (DenyRefusal why))),
              s\<lparr>gate := Some (gate_fail why g1), wakes := wakes s + woken g1\<rparr>))
      else (PollReady (Ok n), s\<lparr>gate := Some g1\<rparr>))"

definition poll_write ::
  "'g ct_common \<Rightarrow> clock \<Rightarrow> inner_write \<Rightarrow> bytes \<Rightarrow> 'g peer_grant_gate
     \<Rightarrow> (gate_error + nat) poll \<times> 'g peer_grant_gate" where
  "poll_write ct clk r data s0 =
     (let (over, l) = poll_ended clk (life s0); s = s0\<lparr>life := l\<rparr> in
      if over then (PollReady (Err (Denied (life_reason l))), s)
      else (case gate s of
        None \<Rightarrow> inner_poll_write r data s
      | Some g0 \<Rightarrow>
         (case failed g0 of
            Some why \<Rightarrow> (PollReady (Err (Denied (DenyRefusal why))), s)
          | None \<Rightarrow>
             if verified g0 then inner_poll_write r data s
             else take_prelude ct clk data g0 s)))"

definition poll_shutdown :: "'g peer_grant_gate \<Rightarrow> 'g peer_grant_gate" where
  "poll_shutdown s =
     (case gate s of
        Some g \<Rightarrow>
          if \<not> verified g \<and> failed g = None
          then s\<lparr>gate := Some (gate_fail ClosedWithoutGrant g), wakes := wakes s + woken g\<rparr>
          else s\<lparr>inner := (inner s)\<lparr>in_shut := True\<rparr>\<rparr>
      | None \<Rightarrow> s\<lparr>inner := (inner s)\<lparr>in_shut := True\<rparr>\<rparr>)"

section \<open>Sessions\<close>

text \<open>
  What can happen to a gate: the session pump polls either side, the handle or the re-check uses its
  channel. \<open>to_peer\<close> collects what the pump got to send, \<open>from_peer\<close> what it could hand over.
\<close>

datatype gate_input =
    GRead clock inner_read nat
  | GWrite clock inner_write bytes
  | GShutdown
  | GRevoke "string oneshot"
  | GWatch "grant_end oneshot"

record 'g session =
  sgate :: "'g peer_grant_gate"
  to_peer :: bytes
  from_peer :: bytes

definition sent_on :: "'a oneshot \<Rightarrow> 'a oneshot option \<Rightarrow> 'a oneshot option" where
  "sent_on v rx = (if rx = Some Waiting then Some v else rx)"

fun session_step :: "'g ct_common \<Rightarrow> 'g session \<Rightarrow> gate_input \<Rightarrow> 'g session" where
  "session_step ct s (GRead clk r n) =
     (let (res, g) = poll_read clk r n (sgate s) in
      s\<lparr>sgate := g, to_peer := to_peer s @ (case res of PollReady (Inr bs) \<Rightarrow> bs | _ \<Rightarrow> [])\<rparr>)"
| "session_step ct s (GWrite clk r bs) =
     (let (res, g) = poll_write ct clk r bs (sgate s) in
      s\<lparr>sgate := g, from_peer := from_peer s @ (case res of PollReady (Inr n) \<Rightarrow> take n bs | _ \<Rightarrow> [])\<rparr>)"
| "session_step ct s GShutdown = s\<lparr>sgate := poll_shutdown (sgate s)\<rparr>"
| "session_step ct s (GRevoke v) =
     s\<lparr>sgate := (sgate s)\<lparr>life := (life (sgate s))\<lparr>revoke := sent_on v (revoke (life (sgate s)))\<rparr>\<rparr>\<rparr>"
| "session_step ct s (GWatch v) =
     s\<lparr>sgate := (sgate s)\<lparr>life := (life (sgate s))\<lparr>watch_rx := sent_on v (watch_rx (life (sgate s)))\<rparr>\<rparr>\<rparr>"

definition session_run :: "'g ct_common \<Rightarrow> 'g session \<Rightarrow> gate_input list \<Rightarrow> 'g session" where
  "session_run ct = foldl (session_step ct)"

definition session_start :: "'g peer_grant_gate \<Rightarrow> 'g session" where
  "session_start g = \<lparr>sgate = g, to_peer = [], from_peer = []\<rparr>"

lemma session_run_induct [case_names start step]:
  assumes "P s" and "\<And>s i. P s \<Longrightarrow> P (session_step ct s i)"
  shows "P (session_run ct s is)"
  using assms(1) unfolding session_run_def
  by (induction "is" arbitrary: s) (simp_all add: assms(2))

subsection \<open>Verification\<close>

lemma strip_prefix_append [simp]: "strip_prefix p (p @ r) = Some r"
  by (simp add: strip_prefix_Some)

lemma verify_iff:
  "verify ct c pre now = Ok g \<longleftrightarrow>
     (\<exists>body. pre = MAGIC @ body \<and> grant_decode ct body = Ok g)
     \<and> verify_stateless ct (operator (policy c)) g now = Ok ()
     \<and> grant_channel ct g = grant_channel ct (own_grant c)
     \<and> grant_holder ct g = peer_holder c
     \<and> complementary (role c) (grant_dir ct g)"
  by (auto simp: verify_def strip_prefix_Some split: option.splits sum.splits if_splits)

text \<open>What the two members' roles and directions allow.\<close>

lemma complementary_iff:
  "complementary r d \<longleftrightarrow> d = DirBoth \<or> r = Initiate \<and> d = DirAccept \<or> r = Accept \<and> d = DirInitiate"
  by (cases r; cases d) (simp_all add: complementary_def)

subsection \<open>Nothing passes before the verification\<close>

definition verified_prelude :: "'g ct_common \<Rightarrow> 'g peer_grant_check \<Rightarrow> bytes \<Rightarrow> bool" where
  "verified_prelude ct c pre \<longleftrightarrow> (\<exists>now g. verify ct c pre now = Ok g)"

definition gate_inv :: "'g ct_common \<Rightarrow> 'g peer_grant_check \<Rightarrow> bytes \<Rightarrow> bytes \<Rightarrow> inner \<Rightarrow> 'g gate \<Rightarrow> bool" where
  "gate_inv ct c tp fp inn g \<longleftrightarrow>
     check g = c \<and> out g = prelude ct c \<and> out_pos g \<le> length (out g)
     \<and> tp = take (out_pos g) (prelude ct c) \<and> in_read inn = []
     \<and> (if verified g
        then failed g = None \<and> PRELUDE_LEN ct \<le> length fp \<and> in_written inn = drop (PRELUDE_LEN ct) fp
             \<and> verified_prelude ct c (take (PRELUDE_LEN ct) fp)
        else in_written inn = [] \<and> length fp \<le> PRELUDE_LEN ct
             \<and> (failed g = None \<longrightarrow> peer g = fp \<and> length fp < PRELUDE_LEN ct))"

definition open_inv :: "'g ct_common \<Rightarrow> 'g peer_grant_check \<Rightarrow> bytes \<Rightarrow> bytes \<Rightarrow> inner \<Rightarrow> bool" where
  "open_inv ct c tp fp inn \<longleftrightarrow>
     tp = prelude ct c @ in_read inn \<and> PRELUDE_LEN ct \<le> length fp
     \<and> in_written inn = drop (PRELUDE_LEN ct) fp
     \<and> verified_prelude ct c (take (PRELUDE_LEN ct) fp)"

definition session_inv :: "'g ct_common \<Rightarrow> 'g peer_grant_check \<Rightarrow> 'g session \<Rightarrow> bool" where
  "session_inv ct c s \<longleftrightarrow>
     (case gate (sgate s) of
        None \<Rightarrow> open_inv ct c (to_peer s) (from_peer s) (inner (sgate s))
      | Some g \<Rightarrow> gate_inv ct c (to_peer s) (from_peer s) (inner (sgate s)) g)"

lemma PRELUDE_LEN_pos: "0 < PRELUDE_LEN ct"
  by (simp add: PRELUDE_LEN_def MAGIC_def)

lemma gate_inv_arm [simp]: "gate_inv ct c tp fp inn (arm_deadline clk g) = gate_inv ct c tp fp inn g"
  by (simp add: gate_inv_def arm_deadline_def)

lemma arm_deadline_simps [simp]:
  "verified (arm_deadline clk g) = verified g" "failed (arm_deadline clk g) = failed g"
  "peer (arm_deadline clk g) = peer g" "out (arm_deadline clk g) = out g"
  "out_pos (arm_deadline clk g) = out_pos g" "check (arm_deadline clk g) = check g"
  "reader (arm_deadline clk g) = reader g"
  by (simp_all add: arm_deadline_def)

lemma gate_inv_reader [simp]: "gate_inv ct c tp fp inn (g\<lparr>reader := b\<rparr>) = gate_inv ct c tp fp inn g"
  by (simp add: gate_inv_def)

lemma gate_inv_fail:
  "gate_inv ct c tp fp inn g \<Longrightarrow> \<not> verified g \<Longrightarrow> gate_inv ct c tp fp inn (gate_fail why g)"
  by (auto simp: gate_inv_def gate_fail_def)

lemma gate_inv_shut [simp]:
  "gate_inv ct c tp fp (inn\<lparr>in_shut := b\<rparr>) g = gate_inv ct c tp fp inn g"
  "open_inv ct c tp fp (inn\<lparr>in_shut := b\<rparr>) = open_inv ct c tp fp inn"
  by (simp_all add: gate_inv_def open_inv_def)

lemma gate_inv_out:
  assumes "gate_inv ct c tp fp inn g" and "n \<le> length (out g) - out_pos g"
  shows "gate_inv ct c (tp @ take n (drop (out_pos g) (out g))) fp inn (g\<lparr>out_pos := out_pos g + n\<rparr>)"
  using assms by (auto simp: gate_inv_def take_add)

lemma gate_inv_open:
  "gate_inv ct c tp fp inn g \<Longrightarrow> gate_done g \<Longrightarrow> open_inv ct c tp fp inn"
  by (auto simp: gate_inv_def open_inv_def gate_done_def)

lemma open_inv_read: "open_inv ct c tp fp inn \<Longrightarrow> open_inv ct c (tp @ bs) fp (inn\<lparr>in_read := in_read inn @ bs\<rparr>)"
  by (simp add: open_inv_def)

lemma open_inv_write:
  "open_inv ct c tp fp inn \<Longrightarrow> open_inv ct c tp (fp @ bs) (inn\<lparr>in_written := in_written inn @ bs\<rparr>)"
  by (simp add: open_inv_def)

lemma gate_inv_write:
  "gate_inv ct c tp fp inn g \<Longrightarrow> verified g
    \<Longrightarrow> gate_inv ct c tp (fp @ bs) (inn\<lparr>in_written := in_written inn @ bs\<rparr>) g"
  by (auto simp: gate_inv_def)

lemma session_inv_read:
  assumes "session_inv ct c s"
  shows "session_inv ct c (session_step ct s (GRead clk r n))"
proof -
  obtain over l where pe: "poll_ended clk (life (sgate s)) = (over, l)" by fastforce
  show ?thesis
  proof (cases "over \<or> gate (sgate s) = None")
    case True
    then show ?thesis using assms pe
      by (auto simp: session_inv_def poll_read_def inner_poll_read_def Let_def open_inv_read
          split: option.splits inner_read.splits)
  next
    case False
    then obtain g0 where g0: "gate (sgate s) = Some g0" and no: "\<not> over" by auto
    define g where "g = arm_deadline clk g0"
    have inv: "gate_inv ct c (to_peer s) (from_peer s) (inner (sgate s)) g"
      using assms g0 by (simp add: session_inv_def g_def)
    show ?thesis
    proof (cases "out_pos g < length (out g)")
      case True
      define k where "k = min n (length (out g) - out_pos g)"
      have inv': "gate_inv ct c (to_peer s @ take k (drop (out_pos g) (out g))) (from_peer s)
          (inner (sgate s)) (g\<lparr>out_pos := out_pos g + k\<rparr>)"
        by (rule gate_inv_out [OF inv]) (simp add: k_def)
      then show ?thesis using True g0 no pe gate_inv_open [OF inv']
        by (simp add: session_inv_def poll_read_def Let_def g_def k_def gate_open_def)
    next
      case past: False
      have dn: "verified g \<Longrightarrow> gate_done g" using past inv by (auto simp: gate_done_def gate_inv_def)
      show ?thesis using past g0 no pe inv gate_inv_open [OF inv dn] unfolding g_def
        by (auto simp: session_inv_def poll_read_def Let_def deadline_passed_def gate_open_def
            inner_poll_read_def open_inv_read gate_inv_fail
            split: option.splits inner_read.splits)
    qed
  qed
qed

text \<open>Taking the peer's prelude, up to its last byte.\<close>

lemma gate_inv_take:
  assumes "gate_inv ct c tp fp inn g" and "\<not> verified g" and "failed g = None"
    and "n \<le> PRELUDE_LEN ct - length (peer g)" and "n \<le> length bs"
  shows "length (peer g @ take n bs) \<noteq> PRELUDE_LEN ct
      \<Longrightarrow> gate_inv ct c tp (fp @ take n bs) inn (g\<lparr>peer := peer g @ take n bs\<rparr>)"
    and "gate_inv ct c tp fp inn (gate_fail why (g\<lparr>peer := peer g @ take n bs\<rparr>))"
    and "length (peer g @ take n bs) = PRELUDE_LEN ct \<Longrightarrow> verify ct c (peer g @ take n bs) now = Ok p
      \<Longrightarrow> gate_inv ct c tp (fp @ take n bs) inn
            (g\<lparr>peer := peer g @ take n bs, verified := True, reader := False\<rparr>)"
proof -
  assume len: "length (peer g @ take n bs) = PRELUDE_LEN ct"
    and "verify ct c (peer g @ take n bs) now = Ok p"
  then have "verified_prelude ct c (peer g @ take n bs)" by (auto simp: verified_prelude_def)
  then show "gate_inv ct c tp (fp @ take n bs) inn
      (g\<lparr>peer := peer g @ take n bs, verified := True, reader := False\<rparr>)"
    using assms len by (auto simp: gate_inv_def simp flip: len)
qed (use assms in \<open>auto simp: gate_inv_def gate_fail_def\<close>)

lemma session_inv_write:
  assumes "session_inv ct c s"
  shows "session_inv ct c (session_step ct s (GWrite clk r bs))"
proof -
  obtain over l where pe: "poll_ended clk (life (sgate s)) = (over, l)" by fastforce
  show ?thesis
  proof (cases "over \<or> gate (sgate s) = None
      \<or> (\<exists>g. gate (sgate s) = Some g \<and> (failed g \<noteq> None \<or> verified g))")
    case True
    then show ?thesis using assms pe
      by (auto simp: session_inv_def poll_write_def inner_poll_write_def Let_def open_inv_write
          gate_inv_write split: option.splits inner_write.splits)
  next
    case False
    then obtain g0 where g0: "gate (sgate s) = Some g0" "failed g0 = None" "\<not> verified g0"
      and no: "\<not> over" by auto
    define g where "g = arm_deadline clk g0"
    define k where "k = min (length bs) (PRELUDE_LEN ct - length (peer g))"
    define g1 where "g1 = g\<lparr>peer := peer g @ take k bs\<rparr>"
    have inv: "gate_inv ct c (to_peer s) (from_peer s) (inner (sgate s)) g"
      using assms g0 by (simp add: session_inv_def g_def)
    have chk: "check g1 = c" using inv by (simp add: g1_def gate_inv_def)
    have k: "k \<le> PRELUDE_LEN ct - length (peer g)" "k \<le> length bs" by (simp_all add: k_def)
    have gg: "\<not> verified g" "failed g = None" using g0 by (simp_all add: g_def)
    note taken = gate_inv_take [OF inv gg k]
    have step: "poll_write ct clk r bs (sgate s) = take_prelude ct clk bs g0 ((sgate s)\<lparr>life := l\<rparr>)"
      using g0 no pe by (simp add: poll_write_def)
    have "take_prelude ct clk bs g0 ((sgate s)\<lparr>life := l\<rparr>) =
      (if length (peer g1) = PRELUDE_LEN ct then
         (case verify ct c (peer g1) (now_unix clk) of
            Inr p \<Rightarrow>
              (let g2 = g1\<lparr>verified := True, reader := False\<rparr>;
                   s1 = (sgate s)\<lparr>life := fold_peer_expiry ct clk c p l,
                          watches := watches (sgate s) @ (if check_watch c = None then [] else [p]),
                          wakes := wakes (sgate s) + woken g1\<rparr> in
               (PollReady (Ok k), if gate_done g2 then gate_open g2 s1 else s1\<lparr>gate := Some g2\<rparr>))
          | Inl why \<Rightarrow>
              (PollReady (Err (Denied (DenyRefusal why))),
               (sgate s)\<lparr>life := l, gate := Some (gate_fail why g1), wakes := wakes (sgate s) + woken g1\<rparr>))
       else (PollReady (Ok k), (sgate s)\<lparr>life := l, gate := Some g1\<rparr>))"
      unfolding take_prelude_def Let_def g_def [symmetric] k_def [symmetric] g1_def [symmetric] chk
      by (simp add: Let_def split: sum.split)
    note step = step [unfolded this]
    show ?thesis
      using taken(1,2) taken(3) [of "now_unix clk"] gate_inv_open [OF taken(3) [of "now_unix clk"]]
      by (auto simp: step session_inv_def Let_def gate_open_def g1_def split: sum.splits)
  qed
qed

lemma session_inv_step:
  assumes "session_inv ct c s"
  shows "session_inv ct c (session_step ct s i)"
proof (cases i)
  case (GRead clk r n)
  then show ?thesis using session_inv_read [OF assms] by simp
next
  case (GWrite clk r bs)
  then show ?thesis using session_inv_write [OF assms] by simp
next
  case GShutdown
  then show ?thesis using assms
    by (auto simp: session_inv_def poll_shutdown_def gate_inv_fail split: option.splits)
qed (use assms in \<open>simp_all add: session_inv_def split: option.splits\<close>)

lemma session_inv_start: "session_inv ct c (session_start (gate_build ct clk (Some c) own rec))"
  using PRELUDE_LEN_pos [of ct]
  by (simp add: session_inv_def session_start_def gate_build_def gate_inv_def)

lemma session_inv_run: "session_inv ct c (session_run ct (session_start (gate_build ct clk (Some c) own rec)) is)"
  by (induction rule: session_run_induct) (simp_all add: session_inv_start session_inv_step)

text \<open>
  C9: no application byte crosses the gate in either direction before the peer's grant is verified.
  However the two sides are polled, whatever arrives in whatever pieces: what the session sends is
  this member's prelude and then exactly what was read from the local side; what reaches the local
  side is exactly what the peer sent after its prelude; and if a single byte went either way, the
  peer's prelude passed the check of this member.
\<close>

theorem gate_nothing_before_grant:
  "let s = session_run ct (session_start (gate_build ct clk (Some c) own rec)) is;
       inn = inner (sgate s) in
   (in_read inn \<noteq> [] \<or> in_written inn \<noteq> [] \<longrightarrow> verified_prelude ct c (take (PRELUDE_LEN ct) (from_peer s)))
   \<and> (\<exists>n. to_peer s = take n (prelude ct c) @ in_read inn \<and> (n < length (prelude ct c) \<longrightarrow> in_read inn = []))
   \<and> in_written inn = drop (PRELUDE_LEN ct) (from_peer s)"
proof -
  define s where "s = session_run ct (session_start (gate_build ct clk (Some c) own rec)) is"
  have "session_inv ct c s" unfolding s_def by (rule session_inv_run)
  then have "(in_read (inner (sgate s)) \<noteq> [] \<or> in_written (inner (sgate s)) \<noteq> []
        \<longrightarrow> verified_prelude ct c (take (PRELUDE_LEN ct) (from_peer s)))
     \<and> (\<exists>n. to_peer s = take n (prelude ct c) @ in_read (inner (sgate s))
          \<and> (n < length (prelude ct c) \<longrightarrow> in_read (inner (sgate s)) = []))
     \<and> in_written (inner (sgate s)) = drop (PRELUDE_LEN ct) (from_peer s)"
  proof (cases "gate (sgate s)")
    case None
    with \<open>session_inv ct c s\<close> show ?thesis
      by (auto simp: session_inv_def open_inv_def intro: exI [of _ "length (prelude ct c)"])
  next
    case (Some g)
    with \<open>session_inv ct c s\<close> show ?thesis
      by (auto simp: session_inv_def gate_inv_def split: if_splits)
  qed
  then show ?thesis by (simp add: s_def Let_def)
qed

text \<open>A grant library with one-byte grants, valid until second 10, for the concrete runs below.\<close>

definition byte_grants :: "byte ct_common" where
  "byte_grants = \<lparr>WIRE_LEN = 1, grant_encode = (\<lambda>g. [g]),
     grant_decode = (\<lambda>bs. case bs of [g] \<Rightarrow> Ok g | _ \<Rightarrow> Err ''length''),
     verify_stateless = (\<lambda>k g now. if now < 10 then Ok () else Err ''expired''),
     grant_channel = (\<lambda>g. [1]), grant_holder = (\<lambda>g. [g]), grant_dir = (\<lambda>g. DirBoth),
     grant_expires_at = (\<lambda>g. 10)\<rparr>"

definition byte_check :: "byte peer_grant_check" where
  "byte_check = \<lparr>policy = \<lparr>operator = []\<rparr>, own_grant = 3, peer_holder = [4], role = Initiate, check_watch = None\<rparr>"

theorem gate_nothing_before_grant_witness:
  "in_written (inner (sgate (session_run byte_grants
      (session_start (gate_build byte_grants \<lparr>wall = 0, mono = 0\<rparr> (Some byte_check) None None))
      [GWrite \<lparr>wall = 1, mono = 1\<rparr> InnerWritePending (MAGIC @ [4]),
       GWrite \<lparr>wall = 2, mono = 2\<rparr> (InnerWrites 1) [9]]))) = [9]
   \<and> verified_prelude byte_grants byte_check (MAGIC @ [4])"
proof -
  let ?is = "[GWrite \<lparr>wall = 1, mono = 1\<rparr> InnerWritePending (MAGIC @ [4]),
       GWrite \<lparr>wall = 2, mono = 2\<rparr> (InnerWrites 1) [9]]"
  let ?s = "session_run byte_grants
      (session_start (gate_build byte_grants \<lparr>wall = 0, mono = 0\<rparr> (Some byte_check) None None)) ?is"
  have len: "length MAGIC = 5" by (simp add: MAGIC_def)
  have "in_written (inner (sgate ?s)) = [9] \<and> from_peer ?s = MAGIC @ [4, 9]"
    by (simp add: session_run_def session_start_def gate_build_def poll_write_def poll_ended_def Let_def
        take_prelude_def PRELUDE_LEN_def byte_grants_def arm_deadline_def len verify_def byte_check_def
        complementary_def now_unix_def secs_def fold_peer_expiry_def gate_done_def prelude_def
        inner_poll_write_def timer_def)
  moreover have "take (PRELUDE_LEN byte_grants) (MAGIC @ [4, 9]) = MAGIC @ [4]"
    by (simp add: PRELUDE_LEN_def byte_grants_def)
  ultimately show ?thesis
    using gate_nothing_before_grant [of byte_grants "\<lparr>wall = 0, mono = 0\<rparr>" byte_check None None ?is]
    by (simp add: Let_def)
qed

subsection \<open>The end of the session\<close>








lemma life_end_eq [simp]: "life_end e l = (over, l') \<longleftrightarrow> over \<and> l' = snd (life_end e l)"
  by (auto simp: life_end_def)

lemma ended_life_end [simp]: "ended (snd (life_end e l)) = Some (reason e)"
  by (simp add: life_end_def)






lemma take_prelude_inner: "inner (snd (take_prelude ct clk data g0 s)) = inner s"
  unfolding take_prelude_def Let_def by (auto simp: gate_open_def split: sum.split)

text \<open>What a poll does to the lifetime is what \<open>poll_ended\<close> does, up to folding in the peer's expiry.\<close>

lemma inner_poll_life [simp]:
  "life (snd (inner_poll_read r s)) = life s" "life (snd (inner_poll_write w bs s)) = life s"
  by (auto simp: inner_poll_read_def inner_poll_write_def Let_def split: inner_read.split inner_write.split)






lemma poll_shutdown_life [simp]: "life (poll_shutdown s) = life s"
  by (auto simp: poll_shutdown_def split: option.split)












end
