(* ===== verification/LocalAuth.thy ===== *)
theory LocalAuth
  imports Codec Rust_Text
begin

text \<open>
  \<^verbatim>\<open>local_auth.rs\<close>, the password half: gate modes, the stored credential, the failure lockout, and the
  gate's verification; the HTTP Basic header; where \<^verbatim>\<open>local-auth set\<close> takes its password from.
  SHA-256, base64 and the random bytes are parameters. The atomics of the limiter are updated by one
  operation at a time.
\<close>

section \<open>Modes\<close>

datatype gate_mode = GateOff | GateHttp | GateText

definition gate_mode_parse :: "string \<Rightarrow> string + gate_mode" where
  "gate_mode_parse s =
     (let v = to_ascii_lowercase (trim s) in
      if v = ''http'' then Ok GateHttp
      else if v \<in> set [''text'', ''textchallenge'', ''text-challenge''] then Ok GateText
      else if v \<in> set ['''', ''off'', ''0'', ''false''] then Ok GateOff
      else Err v)"

text \<open>The warning names the shape that the gate cannot inspect.\<close>

definition unenforced_gate_warning :: "gate_mode \<Rightarrow> bool \<Rightarrow> bool \<Rightarrow> string option" where
  "unenforced_gate_warning mode udp_origin browser_forward =
     (if mode = GateOff \<or> \<not> (udp_origin \<or> browser_forward) then None
      else Some (if browser_forward then ''browser mode (CT_AGENT_MODE=browser)'' else ''a UDP Origin''))"

section \<open>The stored credential\<close>

record stored_credential =
  username :: string
  salt :: bytes
  cred_hash :: bytes

definition hash_credential :: "(bytes \<Rightarrow> bytes) \<Rightarrow> bytes \<Rightarrow> bytes \<Rightarrow> bytes" where
  "hash_credential sha256 s password = sha256 (s @ password)"

definition credential_new :: "(bytes \<Rightarrow> bytes) \<Rightarrow> bytes \<Rightarrow> string \<Rightarrow> bytes \<Rightarrow> stored_credential" where
  "credential_new sha256 random_salt user password =
     \<lparr>username = user, salt = random_salt, cred_hash = hash_credential sha256 random_salt password\<rparr>"

definition credential_generate ::
  "(bytes \<Rightarrow> bytes) \<Rightarrow> (bytes \<Rightarrow> string) \<Rightarrow> bytes \<Rightarrow> bytes \<Rightarrow> stored_credential \<times> string" where
  "credential_generate sha256 b64url token_bytes random_salt =
     (let token = b64url token_bytes in
      (credential_new sha256 random_salt ''agent'' (str_bytes token), token))"

definition credential_serialize :: "stored_credential \<Rightarrow> string" where
  "credential_serialize c =
     username c @ CHR '':'' # hex_encode (salt c) @ CHR '':'' # hex_encode (cred_hash c)"

datatype credential_error = MissingSalt | MissingHash | InvalidSalt nat | InvalidHash nat

definition hex_decode_fixed :: "nat \<Rightarrow> string \<Rightarrow> nat + bytes" where
  "hex_decode_fixed n s = (case hex_decode n s of Some b \<Rightarrow> Ok b | None \<Rightarrow> Err (length s))"

text \<open>\<^verbatim>\<open>splitn(3, ':')\<close>: the first field is always there, the third keeps its colons.\<close>

definition credential_parse :: "string \<Rightarrow> credential_error + stored_credential" where
  "credential_parse line =
     (case split_once (CHR '':'') (trim line) of
        None \<Rightarrow> Err MissingSalt
      | Some (user, rest) \<Rightarrow>
         (case split_once (CHR '':'') rest of
            None \<Rightarrow> Err MissingHash
          | Some (salt_hex, hash_hex) \<Rightarrow>
             (case hex_decode_fixed 16 salt_hex of
                Inl n \<Rightarrow> Err (InvalidSalt n)
              | Inr s \<Rightarrow>
                 (case hex_decode_fixed 32 hash_hex of
                    Inl n \<Rightarrow> Err (InvalidHash n)
                  | Inr h \<Rightarrow> Ok \<lparr>username = user, salt = s, cred_hash = h\<rparr>))))"

definition constant_time_eq :: "bytes \<Rightarrow> bytes \<Rightarrow> bool" where
  "constant_time_eq a b = ct_eq a b"

definition verify_password :: "(bytes \<Rightarrow> bytes) \<Rightarrow> stored_credential \<Rightarrow> bytes \<Rightarrow> bool" where
  "verify_password sha256 c attempt_password =
     constant_time_eq (cred_hash c) (hash_credential sha256 (salt c) attempt_password)"

definition credential_verify :: "(bytes \<Rightarrow> bytes) \<Rightarrow> stored_credential \<Rightarrow> string \<Rightarrow> bytes \<Rightarrow> bool" where
  "credential_verify sha256 c attempt_username attempt_password =
     (if username c \<noteq> attempt_username then False else verify_password sha256 c attempt_password)"

section \<open>The failure lockout\<close>

definition MAX_FAILURES :: u32 where "MAX_FAILURES = 5"
definition WINDOW_SECS :: nat where "WINDOW_SECS = 60"
definition LOCKOUT_SECS :: nat where "LOCKOUT_SECS = 30"

record rate_limiter =
  rl_failures :: u32
  window_start :: nat
  locked_until :: nat

definition limiter_new :: rate_limiter where
  "limiter_new = \<lparr>rl_failures = 0, window_start = 0, locked_until = 0\<rparr>"

datatype rate_limit_verdict = Allowed | Locked nat

definition limiter_check :: "nat \<Rightarrow> rate_limiter \<Rightarrow> rate_limit_verdict" where
  "limiter_check now l = (if now < locked_until l then Locked (locked_until l - now) else Allowed)"

definition limiter_record :: "nat \<Rightarrow> bool \<Rightarrow> rate_limiter \<Rightarrow> rate_limiter" where
  "limiter_record now success l =
     (if success then l\<lparr>rl_failures := 0, window_start := 0\<rparr>
      else if window_start l = 0 \<or> WINDOW_SECS < now - window_start l
      then l\<lparr>window_start := now, rl_failures := 1\<rparr>
      else (let count = rl_failures l + 1; l' = l\<lparr>rl_failures := count\<rparr> in
        if MAX_FAILURES \<le> count then l'\<lparr>locked_until := now + LOCKOUT_SECS\<rparr> else l'))"

section \<open>The gate\<close>

datatype gate_rejection = BadCredential | RateLimited nat

text \<open>The part of \<^verbatim>\<open>LocalAuthGate\<close> that a password check reads and writes.\<close>

record local_auth_gate =
  mode :: gate_mode
  credential :: "stored_credential option"
  limiter :: rate_limiter

definition gate_attempt :: "nat \<Rightarrow> (stored_credential \<Rightarrow> bool) \<Rightarrow> local_auth_gate \<Rightarrow> (gate_rejection + unit) \<times> local_auth_gate" where
  "gate_attempt now good g =
     (case limiter_check now (limiter g) of
        Locked s \<Rightarrow> (Err (RateLimited s), g)
      | Allowed \<Rightarrow>
         (let ok = (case credential g of Some c \<Rightarrow> good c | None \<Rightarrow> False);
              g' = g\<lparr>limiter := limiter_record now ok (limiter g)\<rparr> in
          (if ok then Ok () else Err BadCredential, g')))"

definition gate_verify ::
  "(bytes \<Rightarrow> bytes) \<Rightarrow> nat \<Rightarrow> string \<Rightarrow> bytes \<Rightarrow> local_auth_gate \<Rightarrow> (gate_rejection + unit) \<times> local_auth_gate" where
  "gate_verify sha256 now user password = gate_attempt now (\<lambda>c. credential_verify sha256 c user password)"

definition verify_password_only ::
  "(bytes \<Rightarrow> bytes) \<Rightarrow> nat \<Rightarrow> bytes \<Rightarrow> local_auth_gate \<Rightarrow> (gate_rejection + unit) \<times> local_auth_gate" where
  "verify_password_only sha256 now password = gate_attempt now (\<lambda>c. verify_password sha256 c password)"

section \<open>HTTP\<close>

definition MAX_HEADER_BYTES :: nat where "MAX_HEADER_BYTES = 8 * 1024"

definition CRLF :: string where "CRLF = [CHR 0x0D, CHR 0x0A]"

text \<open>\<^verbatim>\<open>str::split\<close> with a two-character separator.\<close>

function split_crlf :: "string \<Rightarrow> string list" where
  "split_crlf s =
     (case find_sub CRLF s of
        None \<Rightarrow> [s]
      | Some n \<Rightarrow> take n s # split_crlf (drop (n + 2) s))"
  by auto
termination
proof (relation "measure length", goal_cases)
  case (2 s n)
  then have "s = take n s @ CRLF @ drop (n + length CRLF) s" "n \<le> length s" using find_sub_Some by metis+
  then have "length s = n + 2 + length (drop (n + 2) s)"
    by (metis CRLF_def add.assoc length_Cons length_append length_take list.size(3) min.absorb2 numeral_2_eq_2)
  then show ?case by simp
qed simp

declare split_crlf.simps [simp del]

text \<open>The request head: the text before the first blank line, when it ends within the bound and is UTF-8.\<close>

definition head_text :: "bytes \<Rightarrow> string option" where
  "head_text buf =
     (let scan = bytes_str (take MAX_HEADER_BYTES buf) in
      case find_sub (CRLF @ CRLF) scan of
        None \<Rightarrow> None
      | Some e \<Rightarrow> if utf8_valid (take e scan) then Some (take e scan) else None)"

fun find_authorization :: "string list \<Rightarrow> string option" where
  "find_authorization [] = None"
| "find_authorization (l # ls) =
     (case split_once (CHR '':'') l of
        None \<Rightarrow> None
      | Some (name, value) \<Rightarrow>
          if \<not> eq_ignore_ascii_case (trim name) ''authorization'' then find_authorization ls
          else strip_prefix ''Basic '' (trim value))"

definition parse_basic_auth :: "(string \<Rightarrow> bytes option) \<Rightarrow> bytes \<Rightarrow> (string \<times> bytes) option" where
  "parse_basic_auth b64_decode buf =
     (case head_text buf of
        None \<Rightarrow> None
      | Some head \<Rightarrow>
         (case find_authorization (drop 1 (split_crlf head)) of
            None \<Rightarrow> None
          | Some b64 \<Rightarrow>
             (case b64_decode b64 of
                None \<Rightarrow> None
              | Some decoded \<Rightarrow>
                 if \<not> utf8_valid (bytes_str decoded) then None
                 else map_option (\<lambda>(user, pass). (user, str_bytes pass))
                        (split_once (CHR '':'') (bytes_str decoded)))))"

section \<open>Passwords for \<^verbatim>\<open>local-auth set\<close>\<close>

definition password_is_from_argv :: "string option \<Rightarrow> bool" where
  "password_is_from_argv argv = (case argv of Some s \<Rightarrow> s \<noteq> ''-'' | None \<Rightarrow> False)"

definition password_needs_stdin :: "string option \<Rightarrow> bool \<Rightarrow> bool" where
  "password_needs_stdin argv env_is_set =
     (case argv of Some s \<Rightarrow> s = ''-'' | None \<Rightarrow> \<not> env_is_set)"

datatype password_error = StdinFailed string | StdinEof | EmptyPassword string

text \<open>\<^verbatim>\<open>read_line\<close> up to and with the newline; the input is what stdin holds.\<close>

definition read_first_line :: "string + string \<Rightarrow> password_error + string" where
  "read_first_line stdin =
     (case stdin of
        Inl e \<Rightarrow> Err (StdinFailed e)
      | Inr s \<Rightarrow>
          if s = [] then Err StdinEof
          else Ok (takeWhile (\<lambda>c. c \<noteq> CHR 0x0A) s @ take 1 (dropWhile (\<lambda>c. c \<noteq> CHR 0x0A) s)))"

definition resolve_password :: "string option \<Rightarrow> string option \<Rightarrow> string + string \<Rightarrow> password_error + string" where
  "resolve_password argv env stdin =
     (let from_stdin = (case read_first_line stdin of Inl e \<Rightarrow> Err e | Inr l \<Rightarrow> Ok (l, ''stdin''));
          chosen = (case argv of
             Some s \<Rightarrow> if s \<noteq> ''-'' then Ok (s, ''the command line'') else from_stdin
           | None \<Rightarrow> (case env of Some v \<Rightarrow> Ok (v, ''CT_LOCAL_AUTH_PASSWORD'') | None \<Rightarrow> from_stdin)) in
      case chosen of
        Inl e \<Rightarrow> Err e
      | Inr (raw, source) \<Rightarrow>
          (let password = trim raw in if password = [] then Err (EmptyPassword source) else Ok password))"

section \<open>Credentials on file\<close>

lemma hex_digit_char: "n < 16 \<Longrightarrow> graphic (DIGITS ! n) \<and> DIGITS ! n \<noteq> CHR '':''"
proof -
  assume n: "n < 16"
  have "byte_of (DIGITS ! n) = (if n < 10 then 48 + n else 87 + n)" using n by (simp add: DIGITS_nth)
  moreover have "byte_of (CHR '':'') = (58 :: nat)" by simp
  ultimately have "byte_of (DIGITS ! n) \<noteq> (byte_of (CHR '':'') :: nat)" "graphic (DIGITS ! n)"
    using n by (auto simp: graphic_def)
  then show ?thesis by metis
qed

lemma hex_encode_graphic: "c \<in> set (hex_encode bs) \<Longrightarrow> graphic c \<and> c \<noteq> CHR '':''"
proof (induction bs)
  case (Cons b bs)
  have "unat b div 16 < 16" "unat b mod 16 < 16" using unat_byte_lt [of b] by auto
  with Cons hex_digit_char show ?case by (auto simp: hex_encode_Cons)
qed simp

lemma hex_encode_nonempty: "bs \<noteq> [] \<Longrightarrow> hex_encode bs \<noteq> []"
  by (cases bs) (simp_all add: hex_encode_Cons)

definition readable_user :: "string \<Rightarrow> bool" where
  "readable_user u = (u = [] \<or> graphic (hd u))"

lemma trim_serialize:
  assumes "readable_user (username c)" and "cred_hash c \<noteq> []"
  shows "trim (credential_serialize c) = credential_serialize c"
proof (rule trim_graphic, rule disjI2)
  have "graphic (last (hex_encode (cred_hash c)))"
    using hex_encode_graphic hex_encode_nonempty [OF assms(2)] by (meson last_in_set)
  then show "graphic (hd (credential_serialize c)) \<and> graphic (last (credential_serialize c))"
    using assms hex_encode_nonempty [OF assms(2)]
    by (cases "username c") (auto simp: credential_serialize_def readable_user_def graphic_def)
qed

lemma split_once_append: "c \<notin> set a \<Longrightarrow> split_once c (a @ c # b) = Some (a, b)"
  by (simp add: split_once_Some)

text \<open>
  A credential that was written is read back as it was, and then accepts exactly the user name and
  the passwords with its hash.
\<close>

theorem credential_roundtrip:
  assumes "readable_user user" and "CHR '':'' \<notin> set user" and "length random_salt = 16"
    and "\<And>x. length (sha256 x) = 32"
  shows "\<exists>c. credential_parse (credential_serialize (credential_new sha256 random_salt user password)) = Ok c
     \<and> (\<forall>u p. credential_verify sha256 c u p \<longleftrightarrow>
          u = user \<and> sha256 (random_salt @ p) = sha256 (random_salt @ password))"
proof -
  let ?c = "credential_new sha256 random_salt user password"
  have len: "length (salt ?c) = 16" "length (cred_hash ?c) = 32"
    using assms by (simp_all add: credential_new_def hash_credential_def)
  then have "trim (credential_serialize ?c) = credential_serialize ?c"
    by (intro trim_serialize) (use assms in \<open>auto simp: credential_new_def\<close>)
  moreover have "CHR '':'' \<notin> set (hex_encode (salt ?c))" using hex_encode_graphic by blast
  moreover have "CHR '':'' \<notin> set (username ?c)" using assms by (simp add: credential_new_def)
  ultimately have "credential_parse (credential_serialize ?c) = Ok ?c"
    using len by (simp add: credential_parse_def credential_serialize_def split_once_append hex_decode_fixed_def)
  moreover have "credential_verify sha256 ?c u p \<longleftrightarrow>
      u = user \<and> sha256 (random_salt @ p) = sha256 (random_salt @ password)" for u p
    by (auto simp: credential_verify_def verify_password_def constant_time_eq_def credential_new_def
        hash_credential_def)
  ultimately show ?thesis by blast
qed

theorem credential_roundtrip_witness:
  "\<exists>c. credential_parse (credential_serialize
       (credential_new (\<lambda>x. replicate 32 (word_of_nat (length x))) (replicate 16 7) ''bob'' [1, 2])) = Ok c
     \<and> (\<forall>u p. credential_verify (\<lambda>x. replicate 32 (word_of_nat (length x))) c u p \<longleftrightarrow>
          u = ''bob'' \<and> (replicate 32 (word_of_nat (length (replicate 16 (7 :: byte) @ p))) :: bytes)
            = replicate 32 (word_of_nat (length (replicate 16 (7 :: byte) @ [1, 2]))))"
  by (rule credential_roundtrip) (simp_all add: readable_user_def graphic_def)

lemma hex_decode_colon: "CHR '':'' \<in> set s \<Longrightarrow> hex_decode n s = None"
proof (rule ccontr)
  assume colon: "CHR '':'' \<in> set s" and "hex_decode n s \<noteq> None"
  then obtain bs where "hex_pairs s = Some bs" "length s = n * 2"
    by (auto simp: hex_decode_def split: if_splits)
  then have "hex_encode bs = to_ascii_lowercase s" using hex_pairs_Some [of s bs] by auto
  moreover have "CHR '':'' \<in> set (to_ascii_lowercase s)"
  proof -
    have "ascii_lower (CHR '':'') = CHR '':''" by (simp add: ascii_defs)
    then show ?thesis using colon unfolding to_ascii_lowercase_def by (metis image_eqI set_map)
  qed
  ultimately show False using hex_encode_graphic by metis
qed

text \<open>
  A user name with a colon makes a credential file that the agent cannot read back: \<^verbatim>\<open>local-auth
  set\<close> writes it, and the gate refuses to start on it.
\<close>

theorem colon_username_unreadable:
  assumes "readable_user user" and "CHR '':'' \<in> set user" and "\<And>x. length (sha256 x) = 32"
  shows "\<exists>e. credential_parse (credential_serialize (credential_new sha256 random_salt user password)) = Err e"
proof -
  let ?c = "credential_new sha256 random_salt user password"
  have "cred_hash ?c \<noteq> []"
    using assms(3) [of "random_salt @ password"] by (auto simp: credential_new_def hash_credential_def)
  then have tr: "trim (credential_serialize ?c) = credential_serialize ?c"
    by (intro trim_serialize) (use assms in \<open>auto simp: credential_new_def\<close>)
  obtain a b where ab: "user = a @ CHR '':'' # b" "CHR '':'' \<notin> set a" using assms(2) by (meson split_list_first)
  define rest where "rest = b @ CHR '':'' # hex_encode random_salt @ CHR '':'' # hex_encode (cred_hash ?c)"
  have s: "split_once (CHR '':'') (credential_serialize ?c) = Some (a, rest)"
    using ab by (simp add: credential_serialize_def credential_new_def split_once_Some rest_def)
  obtain x y where xy: "split_once (CHR '':'') rest = Some (x, y)"
    using split_once_None [of "CHR '':''" rest] by (cases "split_once (CHR '':'') rest") (auto simp: rest_def)
  then have r: "x @ CHR '':'' # y = b @ CHR '':'' # hex_encode random_salt @ CHR '':'' # hex_encode (cred_hash ?c)"
    and "CHR '':'' \<notin> set x" by (auto simp: split_once_Some rest_def)
  have "CHR '':'' \<in> set y"
  proof (rule ccontr)
    assume "CHR '':'' \<notin> set y"
    with \<open>CHR '':'' \<notin> set x\<close> have "count_list (x @ CHR '':'' # y) (CHR '':'') = 1" by simp
    then show False unfolding r by simp
  qed
  then have "hex_decode 32 y = None" by (rule hex_decode_colon)
  then show ?thesis
    by (simp add: credential_parse_def tr s xy hex_decode_fixed_def split: option.split)
qed

theorem colon_username_unreadable_witness:
  "\<exists>e. credential_parse (credential_serialize
     (credential_new (\<lambda>x. replicate 32 0) (replicate 16 7) ''bob:x'' [1, 2])) = Err e"
  by (rule colon_username_unreadable) (simp_all add: readable_user_def graphic_def)

section \<open>Lockout\<close>

text \<open>Attempts in a row, each with its time and its verdict on the stored credential.\<close>

fun attempts :: "(nat \<times> (stored_credential \<Rightarrow> bool)) list \<Rightarrow> local_auth_gate \<Rightarrow> local_auth_gate" where
  "attempts [] g = g"
| "attempts ((now, good) # as) g = attempts as (snd (gate_attempt now good g))"

definition bad_attempt :: "local_auth_gate \<Rightarrow> (stored_credential \<Rightarrow> bool) \<Rightarrow> bool" where
  "bad_attempt g good \<longleftrightarrow> (case credential g of Some c \<Rightarrow> \<not> good c | None \<Rightarrow> True)"

lemma gate_attempt_credential [simp]: "credential (snd (gate_attempt now good g)) = credential g"
  by (auto simp: gate_attempt_def Let_def split: rate_limit_verdict.split)






text \<open>
  The value 0 of \<^verbatim>\<open>window_start_secs\<close> stands for no window: on a host whose clock reads the epoch (or
  before it, which \<^verbatim>\<open>now_secs\<close> maps to 0) no number of failures ever locks the gate.
\<close>

lemma no_lockout_at_epoch:
  assumes "limiter g = limiter_new" and "list_all (\<lambda>(t, good). t = 0 \<and> bad_attempt g good) as"
  shows "limiter_check 0 (limiter (attempts as g)) = Allowed"
proof -
  have "window_start (limiter (attempts as h)) = 0 \<and> locked_until (limiter (attempts as h)) = 0"
    if "window_start (limiter h) = 0" "locked_until (limiter h) = 0" "credential h = credential g" for h
    using assms(2) that
  proof (induction as arbitrary: h)
    case (Cons a as)
    obtain good where a: "a = (0, good)" "bad_attempt h good"
      using Cons.prems by (cases a) (auto simp: bad_attempt_def)
    then have "window_start (limiter (snd (gate_attempt 0 good h))) = 0
        \<and> locked_until (limiter (snd (gate_attempt 0 good h))) = 0"
      using Cons.prems(2,3)
      by (auto simp: gate_attempt_def limiter_check_def limiter_record_def bad_attempt_def Let_def split: option.splits)
    with Cons a show ?case by auto
  qed simp
  from this [of g] show ?thesis using assms(1) by (simp add: limiter_new_def limiter_check_def)
qed

end
