(* ===== verification/ShareLinks.thy ===== *)
theory ShareLinks
  imports LocalAuth Net
begin

text \<open>
  \<^verbatim>\<open>local_auth.rs\<close>, the share links: their records and times, the store with minting, revocation and
  redemption, the places of an HTTP request a token is taken from, and the redirect. The links file
  is the list it holds; whether a read or a write of it fails is an input (\<open>store_io\<close>), SHA-256, base64
  and the random bytes are parameters. The audit line on stderr is left out.
\<close>

section \<open>Records\<close>

definition MAX_ACTIVE_LINKS :: nat where "MAX_ACTIVE_LINKS = 50"
definition LINK_PRUNE_AFTER :: nat where "LINK_PRUNE_AFTER = 7 * 86400"
definition MAX_LINK_TTL :: nat where "MAX_LINK_TTL = 30 * 86400"
definition MAX_SESSIONS_PER_LINK :: nat where "MAX_SESSIONS_PER_LINK = 16"
definition MAX_LABEL_CHARS :: nat where "MAX_LABEL_CHARS = 64"
definition LINK_QUERY_PARAM :: string where "LINK_QUERY_PARAM = ''ct_link''"
definition LINK_COOKIE_NAME :: string where "LINK_COOKIE_NAME = ''ct_link_session''"

record share_link =
  link_id :: string
  token_hash :: string
  link_label :: string
  expires_at :: nat
  single_use :: bool
  used_at :: "nat option"
  session_hashes :: "string list"
  revoked_at :: "nat option"

definition is_active :: "nat \<Rightarrow> share_link \<Rightarrow> bool" where
  "is_active now l = (revoked_at l = None \<and> now < expires_at l)"

definition link_status :: "nat \<Rightarrow> share_link \<Rightarrow> string" where
  "link_status now l =
     (if revoked_at l \<noteq> None then ''revoked''
      else if expires_at l \<le> now then ''expired''
      else if single_use l \<and> used_at l \<noteq> None then ''used (cookie still valid)''
      else if used_at l \<noteq> None then ''active (in use)''
      else ''active'')"

datatype ttl_error = TtlNotANumber string | TtlUnit string | TtlOverflow | TtlZero | TtlTooLong

text \<open>Times to live are whole seconds.\<close>

definition parse_ttl :: "string \<Rightarrow> ttl_error + nat" where
  "parse_ttl raw =
     (let s = trim raw; num = takeWhile is_ascii_digit s; unit = trim (dropWhile is_ascii_digit s) in
      case parse_uint (Suc U64_MAX) num of
        None \<Rightarrow> Err (TtlNotANumber s)
      | Some n \<Rightarrow>
         (case (if unit = '''' \<or> unit = ''s'' then Some 1 else if unit = ''m'' then Some 60
                else if unit = ''h'' then Some 3600 else if unit = ''d'' then Some 86400 else None) of
            None \<Rightarrow> Err (TtlUnit unit)
          | Some mult \<Rightarrow>
              if U64_MAX < n * mult then Err TtlOverflow
              else if n * mult = 0 then Err TtlZero
              else if MAX_LINK_TTL < n * mult then Err TtlTooLong
              else Ok (n * mult)))"

definition format_ttl :: "nat \<Rightarrow> string" where
  "format_ttl s =
     (if 0 < s \<and> s mod 86400 = 0 then show_nat (s div 86400) @ ''d''
      else if 0 < s \<and> s mod 3600 = 0 then show_nat (s div 3600) @ ''h''
      else if 0 < s \<and> s mod 60 = 0 then show_nat (s div 60) @ ''m''
      else show_nat s @ ''s'')"

definition hash_link_token :: "(bytes \<Rightarrow> bytes) \<Rightarrow> string \<Rightarrow> bytes" where
  "hash_link_token sha256 token = sha256 (str_bytes token)"

definition looks_like_link_token :: "string \<Rightarrow> bool" where
  "looks_like_link_token s =
     (s \<noteq> [] \<and> length s \<le> 128
      \<and> list_all (\<lambda>c. is_ascii_alphanumeric c \<or> c = CHR ''-'' \<or> c = CHR ''_'') s)"

definition sanitize_label :: "string \<Rightarrow> string" where
  "sanitize_label label =
     trim (concat (take MAX_LABEL_CHARS (filter (\<lambda>c. \<not> char_is_control c) (utf8_chars label))))"

record link_args =
  arg_ttl :: nat
  arg_single_use :: bool
  arg_label :: string

datatype link_args_error =
    TtlNeedsValue | BadTtl ttl_error | LabelNeedsValue | UnexpectedArgument string | TtlRequired

fun parse_link_args_from :: "string list \<Rightarrow> nat option \<Rightarrow> bool \<Rightarrow> string \<Rightarrow> link_args_error + link_args" where
  "parse_link_args_from [] ttl once label =
     (case ttl of None \<Rightarrow> Err TtlRequired
      | Some t \<Rightarrow> Ok \<lparr>arg_ttl = t, arg_single_use = once, arg_label = label\<rparr>)"
| "parse_link_args_from (a # as) ttl once label =
     (if a = ''--ttl'' then
        (case as of [] \<Rightarrow> Err TtlNeedsValue
         | v # rest \<Rightarrow> (case parse_ttl v of Inl e \<Rightarrow> Err (BadTtl e)
             | Inr t \<Rightarrow> parse_link_args_from rest (Some t) once label))
      else if a = ''--once'' then parse_link_args_from as ttl True label
      else if a = ''--label'' then
        (case as of [] \<Rightarrow> Err LabelNeedsValue | v # rest \<Rightarrow> parse_link_args_from rest ttl once v)
      else (case strip_prefix ''--ttl='' a of
          Some v \<Rightarrow> (case parse_ttl v of Inl e \<Rightarrow> Err (BadTtl e)
             | Inr t \<Rightarrow> parse_link_args_from as (Some t) once label)
        | None \<Rightarrow>
           (case strip_prefix ''--label='' a of
              Some v \<Rightarrow> parse_link_args_from as ttl once v
            | None \<Rightarrow> Err (UnexpectedArgument a))))"

definition parse_link_args :: "string list \<Rightarrow> link_args_error + link_args" where
  "parse_link_args args = parse_link_args_from args None False []"

section \<open>The store\<close>

datatype link_presentation = Query | Cookie

datatype link_rejection =
    UnknownLink | ExpiredLink | RevokedLink | AlreadyUsed | LinkRateLimited nat | LinkStoreError string

record redeemed_link =
  red_id :: string
  red_label :: string
  red_single_use :: bool
  remaining_secs :: nat
  first_use :: bool
  red_session :: "string option"

record minted_link =
  mint_id :: string
  mint_token :: string
  mint_label :: string
  mint_expires_at :: nat
  mint_single_use :: bool

record store_io =
  load_error :: "string option"
  save_error :: "string option"

definition load :: "store_io \<Rightarrow> share_link list \<Rightarrow> string + share_link list" where
  "load io file = (case load_error io of Some e \<Rightarrow> Err e | None \<Rightarrow> Ok file)"

definition prune :: "nat \<Rightarrow> share_link list \<Rightarrow> share_link list" where
  "prune now links = filter (\<lambda>l. now < min U64_MAX (expires_at l + LINK_PRUNE_AFTER)) links"

text \<open>\<open>save io now links file\<close>: the outcome and what the file holds afterwards.\<close>

definition save :: "store_io \<Rightarrow> nat \<Rightarrow> share_link list \<Rightarrow> share_link list \<Rightarrow> (string + unit) \<times> share_link list" where
  "save io now links file =
     (case save_error io of Some e \<Rightarrow> (Err e, file) | None \<Rightarrow> (Ok (), prune now links))"

fun update_first :: "('a \<Rightarrow> bool) \<Rightarrow> ('a \<Rightarrow> 'a) \<Rightarrow> 'a list \<Rightarrow> 'a list" where
  "update_first P f [] = []"
| "update_first P f (x # xs) = (if P x then f x # xs else x # update_first P f xs)"

datatype mint_error = MintStore string | TooManyActive nat

definition mint_at ::
  "(bytes \<Rightarrow> bytes) \<Rightarrow> (bytes \<Rightarrow> string) \<Rightarrow> bytes \<Rightarrow> bytes \<Rightarrow> store_io \<Rightarrow> nat \<Rightarrow> nat \<Rightarrow> bool \<Rightarrow> string
     \<Rightarrow> share_link list \<Rightarrow> (mint_error + minted_link) \<times> share_link list" where
  "mint_at sha256 b64url token_bytes id_bytes io now ttl once label file =
     (case load io file of
        Inl e \<Rightarrow> (Err (MintStore e), file)
      | Inr links \<Rightarrow>
         (let active = length (filter (is_active now) links) in
          if MAX_ACTIVE_LINKS \<le> active then (Err (TooManyActive active), file)
          else
            (let token = b64url token_bytes; new_id = hex_encode id_bytes;
                 link = \<lparr>link_id = new_id, token_hash = hex_encode (hash_link_token sha256 token),
                   link_label = sanitize_label label, expires_at = min U64_MAX (now + ttl),
                   single_use = once, used_at = None, session_hashes = [], revoked_at = None\<rparr> in
             case save io now (links @ [link]) file of
               (Inl e, file') \<Rightarrow> (Err (MintStore e), file')
             | (Inr _, file') \<Rightarrow>
                 (Ok \<lparr>mint_id = new_id, mint_token = token, mint_label = link_label link,
                      mint_expires_at = expires_at link, mint_single_use = once\<rparr>, file'))))"

definition list_links :: "store_io \<Rightarrow> share_link list \<Rightarrow> string + share_link list" where
  "list_links io file = load io file"

datatype revoke_error = RevokeStore string | NoSuchLink string | AlreadyRevoked string

definition revoke_at ::
  "store_io \<Rightarrow> nat \<Rightarrow> string \<Rightarrow> share_link list \<Rightarrow> (revoke_error + share_link) \<times> share_link list" where
  "revoke_at io now rid file =
     (case load io file of
        Inl e \<Rightarrow> (Err (RevokeStore e), file)
      | Inr links \<Rightarrow>
         (case find (\<lambda>l. link_id l = rid) links of
            None \<Rightarrow> (Err (NoSuchLink rid), file)
          | Some link \<Rightarrow>
              if revoked_at link \<noteq> None then (Err (AlreadyRevoked rid), file)
              else
                (let revoked = link\<lparr>revoked_at := Some now\<rparr> in
                 case save io now (update_first (\<lambda>l. link_id l = rid) (\<lambda>_. revoked) links) file of
                   (Inl e, file') \<Rightarrow> (Err (RevokeStore e), file')
                 | (Inr _, file') \<Rightarrow> (Ok revoked, file'))))"

definition hash_matches :: "bytes \<Rightarrow> string \<Rightarrow> bool" where
  "hash_matches presented hex =
     (case hex_decode_fixed 32 hex of Inr h \<Rightarrow> constant_time_eq h presented | Inl _ \<Rightarrow> False)"

definition link_matches :: "link_presentation \<Rightarrow> bytes \<Rightarrow> share_link \<Rightarrow> bool" where
  "link_matches via presented l =
     (case via of
        Query \<Rightarrow> hash_matches presented (token_hash l)
      | Cookie \<Rightarrow> list_ex (hash_matches presented) (session_hashes l))"

text \<open>A redemption of the URL: the first use is stamped, and a new session joins the last sixteen.\<close>

definition redeem_link :: "(bytes \<Rightarrow> bytes) \<Rightarrow> nat \<Rightarrow> string \<Rightarrow> share_link \<Rightarrow> share_link" where
  "redeem_link sha256 now session l =
     (let hs = session_hashes l @ [hex_encode (hash_link_token sha256 session)];
          excess = length hs - MAX_SESSIONS_PER_LINK in
      l\<lparr>used_at := (if used_at l = None then Some now else used_at l), session_hashes := drop excess hs\<rparr>)"

definition redeem_at ::
  "(bytes \<Rightarrow> bytes) \<Rightarrow> (bytes \<Rightarrow> string) \<Rightarrow> bytes \<Rightarrow> store_io \<Rightarrow> nat \<Rightarrow> string \<Rightarrow> link_presentation
     \<Rightarrow> share_link list \<Rightarrow> (link_rejection + redeemed_link) \<times> share_link list" where
  "redeem_at sha256 b64url secret io now token via file =
     (if \<not> looks_like_link_token token then (Err UnknownLink, file)
      else
        (let presented = hash_link_token sha256 token in
         case load io file of
           Inl e \<Rightarrow> (Err (LinkStoreError e), file)
         | Inr links \<Rightarrow>
            (case find (link_matches via presented) links of
               None \<Rightarrow> (Err UnknownLink, file)
             | Some link \<Rightarrow>
                 if revoked_at link \<noteq> None then (Err RevokedLink, file)
                 else if expires_at link \<le> now then (Err ExpiredLink, file)
                 else if single_use link \<and> used_at link \<noteq> None \<and> via = Query then (Err AlreadyUsed, file)
                 else
                   (let session = (if via = Query then Some (b64url secret) else None);
                        redeemed = \<lparr>red_id = link_id link, red_label = link_label link,
                          red_single_use = single_use link, remaining_secs = expires_at link - now,
                          first_use = (via = Query \<and> used_at link = None), red_session = session\<rparr> in
                    case via of
                      Cookie \<Rightarrow> (Ok redeemed, file)
                    | Query \<Rightarrow>
                        (case save io now (update_first (link_matches via presented)
                                (\<lambda>_. redeem_link sha256 now (b64url secret) link) links) file of
                           (Inl e, file') \<Rightarrow> (Err (LinkStoreError e), file')
                         | (Inr _, file') \<Rightarrow> (Ok redeemed, file'))))))"

section \<open>The request\<close>

record request_head =
  rh_method :: string
  rh_target :: string
  rh_headers :: "(string \<times> string) list"

definition parse_request_head :: "bytes \<Rightarrow> request_head option" where
  "parse_request_head buf =
     (case head_text buf of
        None \<Rightarrow> None
      | Some head \<Rightarrow>
         (case split_crlf head of
            [] \<Rightarrow> None
          | request_line # header_lines \<Rightarrow>
             (case filter (\<lambda>p. p \<noteq> []) (split_on (CHR '' '') request_line) of
                m # t # _ \<Rightarrow>
                  Some \<lparr>rh_method = m, rh_target = t,
                    rh_headers = map (\<lambda>(n, v). (trim n, trim v)) (List.map_filter (split_once (CHR '':'')) header_lines)\<rparr>
              | _ \<Rightarrow> None)))"

definition query_pair :: "string \<Rightarrow> string \<times> string" where
  "query_pair pair = (case split_once (CHR ''='') pair of Some kv \<Rightarrow> kv | None \<Rightarrow> (pair, []))"

fun scan_query :: "string list \<Rightarrow> string option \<Rightarrow> string list \<Rightarrow> string option \<times> string list" where
  "scan_query [] token rest = (token, rest)"
| "scan_query (pair # ps) token rest =
     (if fst (query_pair pair) = LINK_QUERY_PARAM then
        scan_query ps (if token = None then Some (snd (query_pair pair)) else token) rest
      else if pair \<noteq> [] then scan_query ps token (rest @ [pair])
      else scan_query ps token rest)"

definition link_token_in_target :: "string \<Rightarrow> (string \<times> string) option" where
  "link_token_in_target target =
     (case split_once (CHR ''?'') target of
        None \<Rightarrow> None
      | Some (path, query) \<Rightarrow>
         (case scan_query (split_on (CHR ''&'') query) None [] of
            (None, _) \<Rightarrow> None
          | (Some token, rest) \<Rightarrow>
              Some (token, if rest = [] then path else path @ ''?'' @ join ''&'' rest)))"

definition link_token_in_cookies :: "request_head \<Rightarrow> string option" where
  "link_token_in_cookies head =
     (let headers = filter (\<lambda>(n, v). eq_ignore_ascii_case n ''cookie'') (rh_headers head);
          cookies = concat (map (\<lambda>(n, v). split_on (CHR '';'') v) headers);
          pairs = List.map_filter (\<lambda>c. split_once (CHR ''='') (trim c)) cookies in
      map_option (\<lambda>(n, v). trim v) (find (\<lambda>(n, v). trim n = LINK_COOKIE_NAME) pairs))"

definition safe_location :: "string \<Rightarrow> string" where
  "safe_location location =
     (let same_origin_path = starts_with ''/'' location \<and> \<not> starts_with ''//'' location
            \<and> \<not> starts_with [CHR 0x2F, CHR 0x5C] location in
      if \<not> same_origin_path \<or> list_ex (\<lambda>c. is_ascii_control c \<or> c = CHR '' '') location then ''/'' else location)"

definition http_302_link_redirect :: "string \<Rightarrow> string \<Rightarrow> nat \<Rightarrow> string" where
  "http_302_link_redirect location session max_age_secs =
     (let session' = (if looks_like_link_token session then session else []) in
      ''HTTP/1.1 302 Found'' @ CRLF
      @ ''Location: '' @ safe_location location @ CRLF
      @ ''Set-Cookie: '' @ LINK_COOKIE_NAME @ ''='' @ session' @ ''; Path=/; HttpOnly; Secure; SameSite=Lax; Max-Age=''
      @ show_nat max_age_secs @ CRLF
      @ ''Cache-Control: no-store'' @ CRLF
      @ ''Content-Length: 0'' @ CRLF
      @ ''Connection: close'' @ CRLF @ CRLF)"

datatype link_gate_verdict =
    NotPresented
  | Authenticated string
  | Redirect string string
  | LinkRejected link_rejection

record link_gate =
  has_links :: bool
  links_file :: "share_link list"
  link_limiter :: rate_limiter

text \<open>The limiter reads its own clock (\<open>limiter_now\<close>); only a URL token goes through it.\<close>

definition check_share_link_at ::
  "(bytes \<Rightarrow> bytes) \<Rightarrow> (bytes \<Rightarrow> string) \<Rightarrow> bytes \<Rightarrow> store_io \<Rightarrow> nat \<Rightarrow> nat \<Rightarrow> bytes \<Rightarrow> link_gate \<Rightarrow> link_gate_verdict \<times> link_gate" where
  "check_share_link_at sha256 b64url secret io limiter_now now request g =
     (if \<not> has_links g then (NotPresented, g)
      else (case parse_request_head request of
        None \<Rightarrow> (NotPresented, g)
      | Some head \<Rightarrow>
         (case (case link_token_in_target (rh_target head) of
                  Some (token, stripped) \<Rightarrow> Some (token, Query, Some stripped)
                | None \<Rightarrow> map_option (\<lambda>token. (token, Cookie, None)) (link_token_in_cookies head)) of
            None \<Rightarrow> (NotPresented, g)
          | Some (token, via, stripped) \<Rightarrow>
             (case (if via = Query then limiter_check limiter_now (link_limiter g) else Allowed) of
                Locked s \<Rightarrow> (LinkRejected (LinkRateLimited s), g)
              | Allowed \<Rightarrow>
                 (case redeem_at sha256 b64url secret io now token via (links_file g) of
                    (Inl e, file') \<Rightarrow>
                      (LinkRejected e,
                       g\<lparr>links_file := file',
                         link_limiter := (if via = Query then limiter_record limiter_now False (link_limiter g)
                                          else link_limiter g)\<rparr>)
                  | (Inr r, file') \<Rightarrow>
                      ((case (stripped, red_session r) of
                          (Some location, Some session) \<Rightarrow>
                            Redirect (http_302_link_redirect location session (remaining_secs r)) (red_id r)
                        | _ \<Rightarrow> Authenticated (red_id r)),
                       g\<lparr>links_file := file'\<rparr>))))))"

section \<open>Times to live\<close>

lemma takeWhile_digits_stop: "takeWhile is_ascii_digit (show_nat n @ [u]) = show_nat n
    \<and> dropWhile is_ascii_digit (show_nat n @ [u]) = [u]" if "\<not> is_ascii_digit u"
  using show_nat_digits [of n] that
  by (simp add: takeWhile_append2 dropWhile_append2 list_all_iff)

lemma show_nat_hd_graphic: "graphic (hd (show_nat n))"
  using show_nat_digits [of n] show_nat_nonempty [of n]
  by (cases "show_nat n") (auto simp: is_ascii_digit_def graphic_def)

lemma parse_ttl_show:
  assumes "n < Suc U64_MAX" and "u \<in> {CHR ''s'', CHR ''m'', CHR ''h'', CHR ''d''}"
    and "m = (if u = CHR ''s'' then 1 else if u = CHR ''m'' then 60 else if u = CHR ''h'' then 3600 else 86400)"
    and "0 < n * m" and "n * m \<le> MAX_LINK_TTL"
  shows "parse_ttl (show_nat n @ [u]) = Ok (n * m)"
proof -
  have u: "\<not> is_ascii_digit u" "graphic u" using assms(2) by (auto simp: is_ascii_digit_def graphic_def)
  have t: "trim (show_nat n @ [u]) = show_nat n @ [u]"
    using show_nat_hd_graphic [of n] u by (intro trim_graphic) simp
  have t1: "trim [u] = [u]" using u by (intro trim_graphic) simp
  have "n * m \<le> U64_MAX" using assms(5) by (simp add: MAX_LINK_TTL_def U64_MAX_def)
  then show ?thesis using assms t t1 takeWhile_digits_stop [OF u(1), of n] parse_uint_show_nat [OF assms(1)]
    by (auto simp: parse_ttl_def Let_def)
qed

text \<open>
  A time to live that is printed is read back: every time that may be given to a link is
  formatted with the largest unit that divides it, and parsing that text gives the time again.
\<close>

theorem ttl_roundtrip:
  assumes "0 < s" and "s \<le> MAX_LINK_TTL"
  shows "parse_ttl (format_ttl s) = Ok s"
proof -
  have lt: "s div k < Suc U64_MAX" for k
    using assms(2) div_le_dividend [of s k] unfolding MAX_LINK_TTL_def U64_MAX_def by linarith
  consider "s mod 86400 = 0" | "s mod 86400 \<noteq> 0" "s mod 3600 = 0"
    | "s mod 86400 \<noteq> 0" "s mod 3600 \<noteq> 0" "s mod 60 = 0"
    | "s mod 86400 \<noteq> 0" "s mod 3600 \<noteq> 0" "s mod 60 \<noteq> 0" by blast
  then show ?thesis
  proof cases
    case 1
    then have e: "s div 86400 * 86400 = s" by (simp add: mod_eq_0_iff_dvd)
    show ?thesis using parse_ttl_show [OF lt [of 86400], of "CHR ''d''"] assms 1 e by (simp add: format_ttl_def)
  next
    case 2
    then have e: "s div 3600 * 3600 = s" by (simp add: mod_eq_0_iff_dvd)
    show ?thesis using parse_ttl_show [OF lt [of 3600], of "CHR ''h''"] assms 2 e by (simp add: format_ttl_def)
  next
    case 3
    then have e: "s div 60 * 60 = s" by (simp add: mod_eq_0_iff_dvd)
    show ?thesis using parse_ttl_show [OF lt [of 60], of "CHR ''m''"] assms 3 e by (simp add: format_ttl_def)
  next
    case 4
    then show ?thesis using parse_ttl_show [OF lt [of 1], of "CHR ''s''"] assms by (simp add: format_ttl_def)
  qed
qed

theorem ttl_roundtrip_witness: "parse_ttl (format_ttl 5400) = Ok 5400"
  by (rule ttl_roundtrip) (simp_all add: MAX_LINK_TTL_def)

section \<open>Redemption refines a pass\<close>

text \<open>
  What a guest sees of a link: until when it is good, whether it is for one visit, whether it was
  used, whether it was revoked.
\<close>

record pass =
  good_until :: nat
  once :: bool
  used :: bool
  revoked :: bool

definition pass_of :: "share_link \<Rightarrow> pass" where
  "pass_of l = \<lparr>good_until = expires_at l, once = single_use l, used = (used_at l \<noteq> None),
     revoked = (revoked_at l \<noteq> None)\<rparr>"

definition show_pass :: "nat \<Rightarrow> pass option \<Rightarrow> (link_rejection + nat) \<times> pass option" where
  "show_pass now p =
     (case p of
        None \<Rightarrow> (Err UnknownLink, None)
      | Some s \<Rightarrow>
          if revoked s then (Err RevokedLink, p)
          else if good_until s \<le> now then (Err ExpiredLink, p)
          else if once s \<and> used s then (Err AlreadyUsed, p)
          else (Ok (good_until s - now), Some (s\<lparr>used := True\<rparr>)))"

definition pass_for :: "bytes \<Rightarrow> share_link list \<Rightarrow> pass option" where
  "pass_for h links = map_option pass_of (find (link_matches Query h) links)"

lemma find_update_first:
  "find P xs = Some x \<Longrightarrow> P (f x) \<Longrightarrow> find P (update_first P f xs) = Some (f x)"
  by (induction xs) (auto split: if_splits)

lemma find_filter: "find P xs = Some x \<Longrightarrow> Q x \<Longrightarrow> find P (filter Q xs) = Some x"
  by (induction xs) (auto split: if_splits)

lemma find_props: "find P xs = Some x \<Longrightarrow> P x \<and> x \<in> set xs"
  by (auto simp: find_Some_iff)

lemma redeem_link_fields [simp]:
  "token_hash (redeem_link sha256 now s l) = token_hash l" "link_id (redeem_link sha256 now s l) = link_id l"
  "expires_at (redeem_link sha256 now s l) = expires_at l" "single_use (redeem_link sha256 now s l) = single_use l"
  "revoked_at (redeem_link sha256 now s l) = revoked_at l"
  "used_at (redeem_link sha256 now s l) = (if used_at l = None then Some now else used_at l)"
  by (simp_all add: redeem_link_def Let_def)

lemma query_match_redeem [simp]:
  "link_matches Query h (redeem_link sha256 now s l) = link_matches Query h l"
  by (simp add: link_matches_def)

lemma not_pruned: "now < expires_at l \<Longrightarrow> expires_at l \<le> U64_MAX \<Longrightarrow> now < min U64_MAX (expires_at l + LINK_PRUNE_AFTER)"
  by (auto simp: LINK_PRUNE_AFTER_def)

text \<open>
  C11: redeeming a link's URL implements showing a pass. For every token and every content of the links
  file, the answer (unknown, revoked, expired, already used, or the seconds left) is the one of the
  pass the token stands for, and the pass afterwards is the pass of the file afterwards.
\<close>

theorem redeem_refines_pass:
  assumes "looks_like_link_token token" and "load_error io = None" and "save_error io = None"
    and "list_all (\<lambda>l. expires_at l \<le> U64_MAX) file"
    and "h = hash_link_token sha256 token"
  shows "(map_sum (\<lambda>e. e) remaining_secs (fst (redeem_at sha256 b64url secret io now token Query file)),
          pass_for h (snd (redeem_at sha256 b64url secret io now token Query file)))
     = show_pass now (pass_for h file)"
proof (cases "find (link_matches Query h) file")
  case None
  then show ?thesis using assms by (simp add: redeem_at_def load_def Let_def show_pass_def pass_for_def)
next
  case (Some l)
  then have l: "link_matches Query h l" "l \<in> set file" using find_props by metis+
  show ?thesis
  proof (cases "revoked_at l \<noteq> None \<or> expires_at l \<le> now \<or> single_use l \<and> used_at l \<noteq> None")
    case True
    then show ?thesis using assms Some
      by (auto simp: redeem_at_def load_def Let_def show_pass_def pass_for_def pass_of_def)
  next
    case False
    let ?l' = "redeem_link sha256 now (b64url secret) l"
    have "now < min U64_MAX (expires_at l + LINK_PRUNE_AFTER)"
      using False l(2) assms(4) by (intro not_pruned) (auto simp: list_all_iff)
    then have "find (link_matches Query h) (prune now (update_first (link_matches Query h) (\<lambda>_. ?l') file)) = Some ?l'"
      unfolding prune_def by (intro find_filter find_update_first [OF Some, of "\<lambda>_. ?l'"]) (use l in simp_all)
    then have "pass_for h (prune now (update_first (link_matches Query h) (\<lambda>_. ?l') file))
        = Some ((pass_of l)\<lparr>used := True\<rparr>)"
      by (simp add: pass_for_def pass_of_def)
    then show ?thesis using False assms Some
      by (auto simp: redeem_at_def load_def save_def Let_def show_pass_def pass_for_def pass_of_def)
  qed
qed

theorem redeem_refines_pass_witness:
  "\<exists>l. token_hash l = hex_encode (replicate 32 0) \<and>
     (map_sum (\<lambda>e. e) remaining_secs (fst (redeem_at (\<lambda>_. replicate 32 0) (\<lambda>_. []) []
          \<lparr>load_error = None, save_error = None\<rparr> 5 ''tok'' Query [l])),
      pass_for (replicate 32 0) (snd (redeem_at (\<lambda>_. replicate 32 0) (\<lambda>_. []) []
          \<lparr>load_error = None, save_error = None\<rparr> 5 ''tok'' Query [l])))
     = show_pass 5 (pass_for (replicate 32 0) [l])"
proof -
  let ?l = "\<lparr>link_id = [], token_hash = hex_encode (replicate 32 0), link_label = [], expires_at = 9, single_use = True,
     used_at = None, session_hashes = [], revoked_at = None\<rparr>"
  have "looks_like_link_token ''tok''" by (simp add: looks_like_link_token_def ascii_defs)
  from redeem_refines_pass [OF this, of "\<lparr>load_error = None, save_error = None\<rparr>" "[?l]" "replicate 32 0"
      "\<lambda>_. replicate 32 0" "\<lambda>_. []" "[]" 5]
  show ?thesis by (intro exI [of _ ?l]) (simp add: hash_link_token_def U64_MAX_def)
qed

section \<open>Histories of the store\<close>

datatype link_op =
    OpMint bytes bytes store_io nat nat bool string
  | OpRevoke store_io nat string
  | OpRedeem bytes store_io nat string link_presentation

fun link_op_step :: "(bytes \<Rightarrow> bytes) \<Rightarrow> (bytes \<Rightarrow> string) \<Rightarrow> share_link list \<Rightarrow> link_op \<Rightarrow> share_link list" where
  "link_op_step sha b64 file (OpMint tok idb io now ttl o' label) = snd (mint_at sha b64 tok idb io now ttl o' label file)"
| "link_op_step sha b64 file (OpRevoke io now rid) = snd (revoke_at io now rid file)"
| "link_op_step sha b64 file (OpRedeem sec io now token via) = snd (redeem_at sha b64 sec io now token via file)"

definition link_ops :: "(bytes \<Rightarrow> bytes) \<Rightarrow> (bytes \<Rightarrow> string) \<Rightarrow> share_link list \<Rightarrow> link_op list \<Rightarrow> share_link list" where
  "link_ops sha b64 = foldl (link_op_step sha b64)"

text \<open>What an operation can do to the file: nothing, or rewrite it with one link new or changed, pruned.\<close>

definition minted_by :: "(bytes \<Rightarrow> bytes) \<Rightarrow> (bytes \<Rightarrow> string) \<Rightarrow> link_op \<Rightarrow> share_link \<Rightarrow> bool" where
  "minted_by sha b64 op l \<longleftrightarrow>
     (\<exists>tok idb io now ttl o' label. op = OpMint tok idb io now ttl o' label
        \<and> link_id l = hex_encode idb \<and> token_hash l = hex_encode (hash_link_token sha (b64 tok))
        \<and> used_at l = None \<and> session_hashes l = [] \<and> revoked_at l = None)"

definition evolves :: "share_link \<Rightarrow> share_link \<Rightarrow> bool" where
  "evolves l l' \<longleftrightarrow> link_id l' = link_id l \<and> token_hash l' = token_hash l \<and> single_use l' = single_use l
     \<and> expires_at l' = expires_at l
     \<and> length (session_hashes l') \<le> max MAX_SESSIONS_PER_LINK (length (session_hashes l))
     \<and> (used_at l \<noteq> None \<longrightarrow> used_at l' \<noteq> None) \<and> (revoked_at l \<noteq> None \<longrightarrow> revoked_at l' \<noteq> None)"

lemma evolves_refl [simp]: "evolves l l"
  by (simp add: evolves_def)

lemma update_first_evolves:
  assumes "find P xs = Some x" and "evolves x y"
  shows "list_all2 evolves xs (update_first P (\<lambda>_. y) xs)"
  using assms by (induction xs) (auto simp: list_all2_refl split: if_splits)

text \<open>The links of the file after an operation: the links before, evolved, and a minted one, some dropped.\<close>

definition op_effect :: "(bytes \<Rightarrow> bytes) \<Rightarrow> (bytes \<Rightarrow> string) \<Rightarrow> link_op \<Rightarrow> share_link list \<Rightarrow> share_link list \<Rightarrow> bool" where
  "op_effect sha b64 op file file' \<longleftrightarrow>
     (\<exists>kept new Q. list_all2 evolves file kept \<and> (\<forall>l \<in> set new. minted_by sha b64 op l)
        \<and> file' = filter Q (kept @ new))"

lemma op_effect_same: "op_effect sha b64 op file file"
  unfolding op_effect_def
  by (rule exI [of _ "file"], rule exI [of _ "[]"], rule exI [of _ "\<lambda>_. True"]) (simp add: list_all2_refl)

lemma op_effect_update:
  "find P file = Some l \<Longrightarrow> evolves l l' \<Longrightarrow> op_effect sha b64 op file (prune now (update_first P (\<lambda>_. l') file))"
  unfolding op_effect_def prune_def
  using update_first_evolves by (fastforce intro: exI [of _ "[]"])

lemma op_effect_mint:
  "minted_by sha b64 op l \<Longrightarrow> op_effect sha b64 op file (prune now (file @ [l]))"
  unfolding op_effect_def prune_def
  by (rule exI [of _ "file"], rule exI [of _ "[l]"]) (auto simp: list_all2_refl simp del: filter_append)

lemma evolves_steps:
  "evolves l (l\<lparr>revoked_at := Some now\<rparr>)" "evolves l (redeem_link sha now s l)"
  by (simp_all add: evolves_def) (auto simp: redeem_link_def Let_def MAX_SESSIONS_PER_LINK_def max_def)

lemma link_op_effect: "op_effect sha b64 op file (link_op_step sha b64 file op)"
proof (cases op)
  case (OpMint tok idb io now ttl o' label)
  then show ?thesis
    by (auto simp: mint_at_def load_def save_def Let_def op_effect_same minted_by_def
        intro!: op_effect_mint split: option.splits)
next
  case (OpRevoke io now rid)
  then show ?thesis
    by (auto simp: revoke_at_def load_def save_def Let_def op_effect_same evolves_steps
        intro: op_effect_update split: option.splits)
next
  case (OpRedeem sec io now token via)
  then show ?thesis
    by (cases via) (auto simp: redeem_at_def load_def save_def Let_def op_effect_same evolves_steps
        intro: op_effect_update split: option.splits)
qed

text \<open>A link after an operation comes from a link before it, or was minted by it.\<close>

lemma op_effect_origin:
  assumes "op_effect sha b64 op file file'" and "l' \<in> set file'"
  shows "(\<exists>l \<in> set file. evolves l l') \<or> minted_by sha b64 op l'"
proof -
  obtain kept new Q where k: "list_all2 evolves file kept" "\<forall>l \<in> set new. minted_by sha b64 op l"
    "file' = filter Q (kept @ new)" using assms(1) by (auto simp: op_effect_def)
  with assms(2) consider "l' \<in> set kept" | "l' \<in> set new" by auto
  then show ?thesis
  proof cases
    case 1
    with k(1) show ?thesis by (metis in_set_conv_nth list_all2_conv_all_nth)
  qed (use k in blast)
qed

text \<open>
  A property of links that evolution keeps and no mint of the history breaks holds of every link in
  the file, as long as the history runs.
\<close>

lemma link_ops_keep:
  assumes "\<And>l l'. evolves l l' \<Longrightarrow> P l \<Longrightarrow> P l'"
    and "\<And>op l. op \<in> set ops \<Longrightarrow> minted_by sha b64 op l \<Longrightarrow> P l"
    and "\<forall>l \<in> set file. P l"
  shows "\<forall>l \<in> set (link_ops sha b64 file ops). P l"
  using assms(2,3)
proof (induction ops arbitrary: "file")
  case (Cons op ops)
  have "\<forall>l \<in> set (link_op_step sha b64 file op). P l"
    using op_effect_origin [OF link_op_effect] assms(1) Cons.prems by (metis list.set_intros(1))
  from Cons.IH [OF Cons.prems(1) [OF list.set_intros(2)] this] show ?case by (simp add: link_ops_def)
qed (simp add: link_ops_def)

subsection \<open>Revocation and single use\<close>

definition mints_token :: "(bytes \<Rightarrow> bytes) \<Rightarrow> (bytes \<Rightarrow> string) \<Rightarrow> bytes \<Rightarrow> link_op \<Rightarrow> bool" where
  "mints_token sha b64 h op \<longleftrightarrow>
     (case op of OpMint tok idb io now ttl o' label \<Rightarrow>
        hash_matches h (hex_encode (hash_link_token sha (b64 tok))) | _ \<Rightarrow> False)"

definition mints_id :: "string \<Rightarrow> link_op \<Rightarrow> bool" where
  "mints_id rid op \<longleftrightarrow>
     (case op of OpMint tok idb io now ttl o' label \<Rightarrow> hex_encode idb = rid | _ \<Rightarrow> False)"

lemma evolves_match: "evolves l l' \<Longrightarrow> link_matches Query h l' = link_matches Query h l"
  by (simp add: evolves_def link_matches_def)

lemma redeem_ok:
  assumes "redeem_at sha b64 sec io now token via file = (Ok r, file')"
  shows "\<exists>l. find (link_matches via (hash_link_token sha token)) file = Some l \<and> revoked_at l = None
     \<and> now < expires_at l \<and> red_id r = link_id l \<and> red_single_use r = single_use l
     \<and> \<not> (single_use l \<and> used_at l \<noteq> None \<and> via = Query)
     \<and> (via = Query \<longrightarrow> file' = prune now (update_first (link_matches via (hash_link_token sha token))
           (\<lambda>_. redeem_link sha now (b64 sec) l) file))"
  using assms
  by (cases via) (auto simp: redeem_at_def load_def save_def Let_def split: option.splits if_splits)

text \<open>
  C12: a link for one visit admits one visit. Once its URL was redeemed, no later redemption of the same
  token succeeds, whatever is minted, revoked and redeemed in between (a second mint of the same
  random token apart), as long as the token stood for one link.
\<close>

theorem single_use_redeems_once:
  assumes "redeem_at sha256 b64url sec io now token Query file = (Ok r, file')" and "red_single_use r"
    and "length (filter (link_matches Query (hash_link_token sha256 token)) file) = 1"
    and "list_all (\<lambda>op. \<not> mints_token sha256 b64url (hash_link_token sha256 token) op) ops"
  shows "\<nexists>r'. fst (redeem_at sha256 b64url sec' io' now' token Query (link_ops sha256 b64url file' ops)) = Ok r'"
proof
  let ?h = "hash_link_token sha256 token"
  let ?spent = "\<lambda>l. link_matches Query ?h l \<longrightarrow> single_use l \<and> used_at l \<noteq> None"
  obtain l where l: "find (link_matches Query ?h) file = Some l" "single_use l"
    and f': "file' = prune now (update_first (link_matches Query ?h) (\<lambda>_. redeem_link sha256 now (b64url sec) l) file)"
    using redeem_ok [OF assms(1)] assms(2) by auto
  have "\<forall>x \<in> set (update_first (link_matches Query ?h) (\<lambda>_. redeem_link sha256 now (b64url sec) l) file). ?spent x"
    using l assms(3)
  proof (induction "file")
    case (Cons y ys)
    then show ?case by (auto simp: filter_empty_conv split: if_splits)
  qed simp
  then have "\<forall>x \<in> set file'. ?spent x" by (auto simp: f' prune_def)
  then have spent: "\<forall>x \<in> set (link_ops sha256 b64url file' ops). ?spent x"
  proof (rule link_ops_keep [rotated 2])
    show "\<And>l l'. evolves l l' \<Longrightarrow> ?spent l \<Longrightarrow> ?spent l'" by (auto simp: evolves_match) (auto simp: evolves_def)
    show "?spent x" if "op \<in> set ops" "minted_by sha256 b64url op x" for op x
      using that assms(4) by (auto simp: list_all_iff minted_by_def mints_token_def link_matches_def)
  qed
  assume "\<exists>r'. fst (redeem_at sha256 b64url sec' io' now' token Query (link_ops sha256 b64url file' ops)) = Ok r'"
  then obtain r' f2 where "redeem_at sha256 b64url sec' io' now' token Query (link_ops sha256 b64url file' ops) = (Ok r', f2)"
    by (metis prod.collapse)
  from redeem_ok [OF this] spent find_props show False by metis
qed

text \<open>
  C13: a revoked link is dead. Once a link is revoked, neither its URL nor any cookie that came from it
  is accepted, whatever happens in between (a mint with the same random id apart), as long as the id
  stood for one link.
\<close>

theorem revoked_link_dead:
  assumes "revoke_at io now rid file = (Ok l, file')" and "length (filter (\<lambda>l. link_id l = rid) file) = 1"
    and "list_all (\<lambda>op. \<not> mints_id rid op) ops"
  shows "\<nexists>r. fst (redeem_at sha256 b64url sec io' now' token via (link_ops sha256 b64url file' ops)) = Ok r
     \<and> red_id r = rid"
proof
  let ?dead = "\<lambda>l. link_id l = rid \<longrightarrow> revoked_at l \<noteq> None"
  obtain k where k: "find (\<lambda>l. link_id l = rid) file = Some k" "l = k\<lparr>revoked_at := Some now\<rparr>"
    and f': "file' = prune now (update_first (\<lambda>l. link_id l = rid) (\<lambda>_. l) file)"
    using assms(1) by (auto simp: revoke_at_def load_def save_def Let_def split: option.splits if_splits)
  have "\<forall>x \<in> set (update_first (\<lambda>l. link_id l = rid) (\<lambda>_. l) file). ?dead x"
    using k(1) assms(2) unfolding k(2)
  proof (induction "file")
    case (Cons y ys)
    then show ?case by (auto simp: filter_empty_conv split: if_splits)
  qed simp
  then have "\<forall>x \<in> set file'. ?dead x" by (auto simp: f' prune_def)
  then have dead: "\<forall>x \<in> set (link_ops sha256 b64url file' ops). ?dead x"
  proof (rule link_ops_keep [rotated 2])
    show "\<And>l l'. evolves l l' \<Longrightarrow> ?dead l \<Longrightarrow> ?dead l'" by (auto simp: evolves_def)
    show "?dead x" if "op \<in> set ops" "minted_by sha256 b64url op x" for op x
      using that assms(3) by (auto simp: list_all_iff minted_by_def mints_id_def)
  qed
  assume "\<exists>r. fst (redeem_at sha256 b64url sec io' now' token via (link_ops sha256 b64url file' ops)) = Ok r
     \<and> red_id r = rid"
  then obtain r f2 where "redeem_at sha256 b64url sec io' now' token via (link_ops sha256 b64url file' ops) = (Ok r, f2)"
    "red_id r = rid" by (metis prod.collapse)
  with redeem_ok [OF this(1)] dead find_props show False by metis
qed

text \<open>The store of the concrete histories below: one link with the hash of every token.\<close>

definition one_link :: share_link where
  "one_link = \<lparr>link_id = ''ab'', token_hash = hex_encode (replicate 32 0), link_label = [], expires_at = 9,
     single_use = True, used_at = None, session_hashes = [], revoked_at = None\<rparr>"

lemma one_link_matches: "link_matches Query (replicate 32 0) one_link"
  by (simp add: link_matches_def hash_matches_def hex_decode_fixed_def constant_time_eq_def one_link_def)

theorem single_use_redeems_once_witness:
  "\<exists>r file'. redeem_at (\<lambda>_. replicate 32 0) (\<lambda>_. []) [] \<lparr>load_error = None, save_error = None\<rparr> 5 ''tok'' Query [one_link]
       = (Ok r, file')
     \<and> (\<nexists>r'. fst (redeem_at (\<lambda>_. replicate 32 0) (\<lambda>_. []) [] \<lparr>load_error = None, save_error = None\<rparr> 6 ''tok'' Query
           (link_ops (\<lambda>_. replicate 32 0) (\<lambda>_. []) file' [])) = Ok r')"
proof -
  let ?io = "\<lparr>load_error = None, save_error = None\<rparr>"
  have tok: "looks_like_link_token ''tok''" by (simp add: looks_like_link_token_def ascii_defs)
  obtain r file' where r: "redeem_at (\<lambda>_. replicate 32 0) (\<lambda>_. []) [] ?io 5 ''tok'' Query [one_link] = (Ok r, file')"
    "red_single_use r"
    using tok one_link_matches
    by (simp add: redeem_at_def load_def save_def Let_def hash_link_token_def one_link_def)
  from single_use_redeems_once [OF r, of "[]" "[]" ?io 6] one_link_matches r(1) show ?thesis
    by (auto simp: hash_link_token_def)
qed

theorem revoked_link_dead_witness:
  "\<exists>l file'. revoke_at \<lparr>load_error = None, save_error = None\<rparr> 5 ''ab'' [one_link] = (Ok l, file')
     \<and> (\<nexists>r. fst (redeem_at (\<lambda>_. replicate 32 0) (\<lambda>_. []) [] \<lparr>load_error = None, save_error = None\<rparr> 6 ''tok'' Query
           (link_ops (\<lambda>_. replicate 32 0) (\<lambda>_. []) file' [])) = Ok r \<and> red_id r = ''ab'')"
proof -
  let ?io = "\<lparr>load_error = None, save_error = None\<rparr>"
  obtain l file' where r: "revoke_at ?io 5 ''ab'' [one_link] = (Ok l, file')"
    by (simp add: revoke_at_def load_def save_def Let_def one_link_def)
  from revoked_link_dead [OF r, of "[]" "\<lambda>_. replicate 32 0" "\<lambda>_. []" "[]" ?io 6 "''tok''" Query] r
  show ?thesis by (auto simp: one_link_def)
qed

subsection \<open>Bounds\<close>

definition op_time :: "link_op \<Rightarrow> nat" where
  "op_time op = (case op of OpMint _ _ _ now _ _ _ \<Rightarrow> now | OpRevoke _ now _ \<Rightarrow> now | OpRedeem _ _ now _ _ \<Rightarrow> now)"

definition active_bound :: "nat \<Rightarrow> share_link list \<Rightarrow> bool" where
  "active_bound t file \<longleftrightarrow> (\<forall>now \<ge> t. length (filter (is_active now) file) \<le> MAX_ACTIVE_LINKS)"

lemma active_later: "now \<le> now' \<Longrightarrow> length (filter (is_active now') f) \<le> length (filter (is_active now) f)"
  by (induction f) (auto simp: is_active_def)

lemma active_evolves:
  "list_all2 evolves f g \<Longrightarrow> length (filter (is_active now) g) \<le> length (filter (is_active now) f)"
  by (induction rule: list_all2_induct) (auto simp: is_active_def evolves_def)

lemma active_filter: "length (filter P (filter Q f)) \<le> length (filter P f)"
  by (induction f) auto

lemma op_effect_active:
  assumes "op_effect sha b64 op file file'" and "\<And>l. \<not> minted_by sha b64 op l"
  shows "length (filter (is_active now) file') \<le> length (filter (is_active now) file)"
proof -
  obtain kept new Q where k: "list_all2 evolves file kept" "\<forall>l \<in> set new. minted_by sha b64 op l"
    "file' = filter Q (kept @ new)" using assms(1) by (auto simp: op_effect_def)
  then have "new = []" using assms(2) by (cases new) auto
  with k active_filter [of "is_active now" Q kept] active_evolves [OF k(1), of now] show ?thesis by simp
qed

lemma active_bound_step:
  assumes "active_bound t file" and "t \<le> op_time op"
  shows "active_bound (op_time op) (link_op_step sha b64 file op)"
proof (cases "\<exists>tok idb io now ttl o' label. op = OpMint tok idb io now ttl o' label")
  case False
  then have "\<not> minted_by sha b64 op l" for l by (auto simp: minted_by_def)
  then show ?thesis using op_effect_active [OF link_op_effect] assms
    by (meson active_bound_def le_trans)
next
  case True
  then obtain tok idb io now ttl o' label where op: "op = OpMint tok idb io now ttl o' label" by blast
  have "link_op_step sha b64 file op = file
      \<or> length (filter (is_active now) file) < MAX_ACTIVE_LINKS
        \<and> (\<exists>l. link_op_step sha b64 file op = prune now (file @ [l]))"
    by (auto simp: op mint_at_def load_def save_def Let_def split: option.splits)
  then show ?thesis
  proof
    assume "length (filter (is_active now) file) < MAX_ACTIVE_LINKS
        \<and> (\<exists>l. link_op_step sha b64 file op = prune now (file @ [l]))"
    then obtain l where l: "length (filter (is_active now) file) < MAX_ACTIVE_LINKS"
      "link_op_step sha b64 file op = prune now (file @ [l])" by blast
    have "length (filter (is_active now') (prune now (file @ [l]))) \<le> MAX_ACTIVE_LINKS" if "now \<le> now'" for now'
    proof -
      have "length (filter (is_active now') (prune now (file @ [l]))) \<le> length (filter (is_active now') (file @ [l]))"
        unfolding prune_def by (rule active_filter)
      also have "\<dots> \<le> Suc (length (filter (is_active now') file))" by simp
      also have "\<dots> \<le> Suc (length (filter (is_active now) file))" using active_later [OF that] by simp
      finally show ?thesis using l(1) by simp
    qed
    then show ?thesis unfolding l(2) by (simp add: active_bound_def op_time_def op)
  qed (use assms in \<open>auto simp: active_bound_def\<close>)
qed

text \<open>
  The bounds of the links file. From an empty file on, whatever is minted, revoked and redeemed in
  the order of time, there are never more than 50 active links, and no link keeps more than 16
  sessions.
\<close>

theorem link_store_bounds:
  assumes "sorted (map op_time ops)" and "list_all (\<lambda>op. op_time op \<le> now) ops"
  shows "length (filter (is_active now) (link_ops sha256 b64url [] ops)) \<le> 50
     \<and> (\<forall>l \<in> set (link_ops sha256 b64url [] ops). length (session_hashes l) \<le> 16)"
proof
  have "active_bound t file \<Longrightarrow> sorted (t # map op_time ops) \<Longrightarrow>
      active_bound (foldl max t (map op_time ops)) (link_ops sha256 b64url file ops)" for t "file"
  proof (induction ops arbitrary: t "file")
    case (Cons op ops)
    then have "active_bound (op_time op) (link_op_step sha256 b64url file op)"
      by (intro active_bound_step) auto
    with Cons show ?case by (simp add: link_ops_def max_def)
  qed (simp add: link_ops_def)
  moreover have "active_bound 0 []" by (simp add: active_bound_def)
  ultimately have bound: "active_bound (foldl max 0 (map op_time ops)) (link_ops sha256 b64url [] ops)"
    using assms(1) by (metis le0 sorted_simps(2) empty_iff)
  have "foldl max t (map op_time ops) \<le> max t now" for t
    using assms(2)
  proof (induction ops arbitrary: t)
    case (Cons op ops)
    then have "foldl max (max t (op_time op)) (map op_time ops) \<le> max (max t (op_time op)) now" by simp
    moreover have "max (max t (op_time op)) now = max t now" using Cons.prems by (auto simp: max_def)
    ultimately show ?case by simp
  qed simp
  from this [of 0] bound show "length (filter (is_active now) (link_ops sha256 b64url [] ops)) \<le> 50"
    by (simp add: active_bound_def MAX_ACTIVE_LINKS_def)
  show "\<forall>l \<in> set (link_ops sha256 b64url [] ops). length (session_hashes l) \<le> 16"
    by (rule link_ops_keep) (auto simp: evolves_def minted_by_def MAX_SESSIONS_PER_LINK_def)
qed

theorem link_store_bounds_witness:
  "length (filter (is_active 9) (link_ops (\<lambda>_. []) (\<lambda>_. []) []
     [OpMint [] [] \<lparr>load_error = None, save_error = None\<rparr> 5 60 True [],
      OpRevoke \<lparr>load_error = None, save_error = None\<rparr> 7 []])) \<le> 50"
  by (rule link_store_bounds [THEN conjunct1]) (simp_all add: op_time_def)

subsection \<open>The redirect\<close>

text \<open>
  C38: the redirect stays on the tunnel's own origin and cannot be used to inject a header: whatever the
  request line and the session were, the location is a path of this origin without a control
  character or a space, and everything the response takes from them stands on its own line.
\<close>

theorem redirect_safe:
  "take 1 (safe_location location) = ''/'' \<and> take 2 (safe_location location) \<notin> {''//'', [CHR ''/'', CHR 0x5C]}
   \<and> list_all (\<lambda>c. \<not> is_ascii_control c \<and> c \<noteq> CHR '' '') (safe_location location)
   \<and> (\<exists>cookie. http_302_link_redirect location session age =
        ''HTTP/1.1 302 Found'' @ CRLF @ ''Location: '' @ safe_location location @ CRLF
        @ ''Set-Cookie: ct_link_session='' @ cookie @ ''; Path=/; HttpOnly; Secure; SameSite=Lax; Max-Age=''
        @ show_nat age @ CRLF @ ''Cache-Control: no-store'' @ CRLF @ ''Content-Length: 0'' @ CRLF
        @ ''Connection: close'' @ CRLF @ CRLF
        \<and> list_all (\<lambda>c. is_ascii_alphanumeric c \<or> c = CHR ''-'' \<or> c = CHR ''_'') cookie)"
proof (intro conjI)
  have "take 1 (safe_location location) = ''/'' \<and> take 2 (safe_location location) \<notin> {''//'', [CHR ''/'', CHR 0x5C]}"
  proof (cases "safe_location location = ''/''")
    case False
    then have "safe_location location = location" "starts_with ''/'' location" "\<not> starts_with ''//'' location"
      "\<not> starts_with [CHR 0x2F, CHR 0x5C] location"
      by (auto simp: safe_location_def Let_def split: if_splits)
    moreover have "take 1 r = [c] \<longleftrightarrow> (\<exists>ra. r = c # ra)" for r and c :: char by (cases r) auto
    ultimately show ?thesis by (auto simp: starts_with_iff numeral_2_eq_2)
  qed simp
  then show "take 1 (safe_location location) = ''/''" "take 2 (safe_location location) \<notin> {''//'', [CHR ''/'', CHR 0x5C]}"
    by simp_all
  show "list_all (\<lambda>c. \<not> is_ascii_control c \<and> c \<noteq> CHR '' '') (safe_location location)"
    by (auto simp: safe_location_def Let_def list_all_iff list_ex_iff is_ascii_control_def)
qed (auto simp: http_302_link_redirect_def looks_like_link_token_def LINK_COOKIE_NAME_def Let_def)

end
