(* ===== verification/Redact.thy ===== *)
theory Redact
  imports Rust_Text
begin

text \<open>
  \<^verbatim>\<open>channel_run/redact.rs\<close>: masking secret-shaped text before it leaves for a remote peer. A position
  \<open>i\<close> of the scan is the rest of the text from \<open>i\<close> on, with the byte before it where the code looks
  back; what a match writes and where the scan resumes is the result.
\<close>

section \<open>Definitions\<close>

definition MASK :: string where "MASK = ''[REDACTED]''"
definition HEX_RUN_MIN :: nat where "HEX_RUN_MIN = 64"

definition KEYWORDS :: "string list" where
  "KEYWORDS = [''authorization'', ''api_key'', ''api-key'', ''apikey'', ''password'', ''bearer'', ''secret'', ''token'']"

definition is_ws :: "char \<Rightarrow> bool" where
  "is_ws c = (byte_of c \<in> {32, 9, 13, 10, 11, 12 :: nat})"

definition is_ident :: "char \<Rightarrow> bool" where
  "is_ident c = (is_ascii_alphanumeric c \<or> c = CHR ''_'' \<or> c = CHR ''-'')"

definition is_b64url :: "char \<Rightarrow> bool" where
  "is_b64url c = (is_ascii_alphanumeric c \<or> c = CHR ''-'' \<or> c = CHR ''_'')"

fun keyword_among :: "string list \<Rightarrow> string \<Rightarrow> (string \<times> bool) option" where
  "keyword_among [] rest = None"
| "keyword_among (k # ks) rest =
     (if length k \<le> length rest \<and> eq_ignore_ascii_case (take (length k) rest) k
      then Some (drop (length k) rest, k = ''bearer'') else keyword_among ks rest)"

definition keyword_at :: "string \<Rightarrow> (string \<times> bool) option" where
  "keyword_at rest = keyword_among KEYWORDS rest"

definition value_end :: "string \<Rightarrow> string option" where
  "value_end rest =
     (let q = dropWhile (\<lambda>c. \<not> is_ws c) rest in if length q < length rest then Some q else None)"

text \<open>\<open>upto rest p\<close>: the bytes from the position of \<open>rest\<close> to the position of \<open>p\<close>.\<close>

definition upto_pos :: "string \<Rightarrow> string \<Rightarrow> string" where
  "upto_pos rest p = take (length rest - length p) rest"

text \<open>After the keyword: its identifier suffix and a closing quote, unless it was \<^verbatim>\<open>bearer\<close>.\<close>

definition after_key :: "string \<Rightarrow> bool \<Rightarrow> string" where
  "after_key p bearer =
     (if bearer then p
      else (case dropWhile is_ident p of
              c # r \<Rightarrow> if c = CHR 0x22 \<or> c = CHR 0x27 then r else c # r
            | [] \<Rightarrow> []))"

definition value_start :: "string \<Rightarrow> bool \<Rightarrow> string option" where
  "value_start ak bearer =
     (let p = dropWhile is_ws ak; had_ws = length p < length ak in
      case p of
        c # r \<Rightarrow>
          if c = CHR '':'' \<or> c = CHR ''='' then Some (dropWhile is_ws r)
          else if bearer \<and> had_ws then Some p else None
      | [] \<Rightarrow> if bearer \<and> had_ws then Some p else None)"

definition redact_keyword_value :: "string \<Rightarrow> (string \<times> string) option" where
  "redact_keyword_value rest =
     (case keyword_at rest of
        None \<Rightarrow> None
      | Some (p, bearer) \<Rightarrow>
         (case value_start (after_key p bearer) bearer of
            None \<Rightarrow> None
          | Some vs \<Rightarrow>
             (case value_end vs of
                None \<Rightarrow> None
              | Some e \<Rightarrow>
                 (let scheme = upto_pos vs e; r = dropWhile is_ws e in
                  if (eq_ignore_ascii_case scheme ''bearer'' \<or> eq_ignore_ascii_case scheme ''basic'')
                     \<and> value_end r \<noteq> None
                  then Some (upto_pos rest r @ MASK, the (value_end r))
                  else Some (upto_pos rest vs @ MASK, e)))))"

definition redact_jwt :: "char option \<Rightarrow> string \<Rightarrow> (string \<times> string) option" where
  "redact_jwt prev rest =
     (if \<not> starts_with ''eyJ'' rest \<or> (case prev of Some c \<Rightarrow> is_b64url c | None \<Rightarrow> False) then None
      else (case dropWhile is_b64url rest of
        [] \<Rightarrow> None
      | c # j \<Rightarrow>
          if c \<noteq> CHR ''.'' then None
          else (let k = dropWhile is_b64url j in
            if length k = length j then None
            else (case k of
              d # m0 \<Rightarrow>
                (let m = dropWhile is_b64url m0 in
                 if d = CHR ''.'' \<and> length m < length m0 then Some (MASK, m) else Some (MASK, k))
            | [] \<Rightarrow> Some (MASK, k)))))"

definition redact_hex_run :: "char option \<Rightarrow> string \<Rightarrow> (string \<times> string) option" where
  "redact_hex_run prev rest =
     (case rest of
        [] \<Rightarrow> None
      | c # _ \<Rightarrow>
          if \<not> is_ascii_hexdigit c \<or> (case prev of Some p \<Rightarrow> is_ascii_hexdigit p | None \<Rightarrow> False) then None
          else (let j = dropWhile is_ascii_hexdigit rest in
            if length rest - length j < HEX_RUN_MIN then None else Some (MASK, j)))"

definition redact_at :: "char option \<Rightarrow> string \<Rightarrow> (string \<times> string) option" where
  "redact_at prev rest =
     (case redact_keyword_value rest of
        Some r \<Rightarrow> Some r
      | None \<Rightarrow> (case redact_jwt prev rest of Some r \<Rightarrow> Some r | None \<Rightarrow> redact_hex_run prev rest))"

section \<open>What a match does\<close>

text \<open>
  A match copies an ASCII text, masks a span and resumes behind it; the span ends where the text does,
  before an ASCII byte, or it is ASCII itself.
\<close>

definition ascii_char :: "char \<Rightarrow> bool" where
  "ascii_char c = (byte_of c \<le> 127)"

definition clean_cut :: "string \<Rightarrow> string \<Rightarrow> string \<Rightarrow> string \<Rightarrow> bool" where
  "clean_cut rest pre span after \<longleftrightarrow>
     rest = pre @ span @ after \<and> span \<noteq> [] \<and> list_all ascii_char pre \<and> ascii_char (hd rest)
     \<and> (list_all ascii_char span \<or> after = [] \<or> ascii_char (hd after))"

definition is_match :: "string \<Rightarrow> (string \<times> string) option \<Rightarrow> bool" where
  "is_match rest m \<longleftrightarrow>
     (\<forall>out after. m = Some (out, after) \<longrightarrow>
        (\<exists>pre span. clean_cut rest pre span after \<and> out = pre @ MASK))"

lemma ascii_classes:
  "is_ws c \<Longrightarrow> ascii_char c" "is_ident c \<Longrightarrow> ascii_char c" "is_b64url c \<Longrightarrow> ascii_char c"
  "is_ascii_hexdigit c \<Longrightarrow> ascii_char c"
  by (auto simp: is_ws_def is_ident_def is_b64url_def is_ascii_hexdigit_def ascii_char_def ascii_defs)

text \<open>Skipping a class of ASCII bytes.\<close>

definition skips :: "string \<Rightarrow> string \<Rightarrow> bool" where
  "skips s t \<longleftrightarrow> (\<exists>p. s = p @ t \<and> list_all ascii_char p)"

lemma skips_refl [simp]: "skips s s"
  by (auto simp: skips_def intro: exI [of _ "[]"])

lemma skips_trans: "skips s t \<Longrightarrow> skips t u \<Longrightarrow> skips s u"
  unfolding skips_def by (metis append.assoc list_all_append)

lemma skips_Cons: "ascii_char c \<Longrightarrow> skips (c # s) s"
  by (auto simp: skips_def intro: exI [of _ "[c]"])

lemma skips_dropWhile: "(\<And>c. P c \<Longrightarrow> ascii_char c) \<Longrightarrow> skips s (dropWhile P s)"
  unfolding skips_def
  by (rule exI [of _ "takeWhile P s"]) (auto simp: list_all_iff dest: set_takeWhileD)

lemma skips_upto: "skips s t \<Longrightarrow> s = upto_pos s t @ t \<and> list_all ascii_char (upto_pos s t)"
  by (auto simp: skips_def upto_pos_def)

lemma value_end_split:
  "value_end r = Some e \<Longrightarrow> \<exists>v. v \<noteq> [] \<and> r = v @ e \<and> (e = [] \<or> is_ws (hd e)) \<and> v = upto_pos r e"
proof -
  assume "value_end r = Some e"
  then have e: "e = dropWhile (\<lambda>c. \<not> is_ws c) r" "length e < length r"
    by (auto simp: value_end_def Let_def split: if_splits)
  let ?v = "takeWhile (\<lambda>c. \<not> is_ws c) r"
  have r: "r = ?v @ e" by (simp add: e)
  then have "?v \<noteq> []" using e(2) by (metis append_Nil less_irrefl)
  moreover have "e = [] \<or> is_ws (hd e)" using e hd_dropWhile [of "\<lambda>c. \<not> is_ws c" r] by auto
  moreover have "?v = upto_pos r e" by (subst (2) r) (simp add: upto_pos_def)
  ultimately show ?thesis using r by blast
qed

lemma keyword_ascii:
  assumes "keyword_at rest = Some (p, b)"
  shows "skips rest p \<and> rest \<noteq> [] \<and> ascii_char (hd rest)"
proof -
  have low: "ascii_char (ascii_lower c) \<Longrightarrow> ascii_char c" for c
    by (auto simp: ascii_char_def ascii_lower_def is_ascii_upper_def split: if_splits)
  have kw: "list_all (\<lambda>k. k \<noteq> [] \<and> list_all ascii_char (map ascii_lower k)) KEYWORDS"
    by (simp add: KEYWORDS_def ascii_lower_def is_ascii_upper_def ascii_char_def)
  have "skips rest p \<and> rest \<noteq> [] \<and> ascii_char (hd rest)"
    if "list_all (\<lambda>k. k \<noteq> [] \<and> list_all ascii_char (map ascii_lower k)) ks" "keyword_among ks rest = Some (p, b)" for ks
    using that
  proof (induction ks)
    case (Cons k ks)
    show ?case
    proof (cases "length k \<le> length rest \<and> eq_ignore_ascii_case (take (length k) rest) k")
      case True
      then have p: "p = drop (length k) rest" using Cons by simp
      have "map ascii_lower (take (length k) rest) = map ascii_lower k"
        using True by (simp add: eq_ignore_ascii_case_def to_ascii_lowercase_def)
      then have "list_all ascii_char (map ascii_lower (take (length k) rest))" using Cons by simp
      then have a: "list_all ascii_char (take (length k) rest)" using low by (auto simp: list_all_iff)
      moreover have "take (length k) rest \<noteq> []" using True Cons by auto
      ultimately have "ascii_char (hd rest)" by (cases rest; cases k) auto
      moreover have "skips rest p" using a p by (auto simp: skips_def intro: exI [of _ "take (length k) rest"])
      ultimately show ?thesis using \<open>take (length k) rest \<noteq> []\<close> by auto
    qed (use Cons in auto)
  qed simp
  then show ?thesis using kw assms by (simp add: keyword_at_def)
qed

lemma after_key_skips: "skips p (after_key p b)"
proof -
  have "skips p (dropWhile is_ident p)" by (rule skips_dropWhile) (rule ascii_classes)
  moreover have "skips (c # r) r" if "c = CHR 0x22 \<or> c = CHR 0x27" for c r
    using that by (auto intro!: skips_Cons simp: ascii_char_def)
  ultimately show ?thesis
    by (cases "dropWhile is_ident p") (auto simp: after_key_def intro: skips_trans simp del: dropWhile_eq_Nil_conv)
qed

lemma value_start_skips: "value_start ak b = Some vs \<Longrightarrow> skips ak vs"
proof -
  assume vs: "value_start ak b = Some vs"
  have w: "skips s (dropWhile is_ws s)" for s by (rule skips_dropWhile) (rule ascii_classes)
  show ?thesis
  proof (cases "dropWhile is_ws ak")
    case Nil
    with vs w [of ak] show ?thesis by (auto simp: value_start_def Let_def split: if_splits)
  next
    case (Cons c r)
    have "skips (c # r) (dropWhile is_ws r)" if "c = CHR '':'' \<or> c = CHR ''=''"
      using skips_trans [OF skips_Cons [of c r] w [of r]] that by (auto simp: ascii_char_def)
    with vs Cons w [of ak] show ?thesis
      by (auto simp: value_start_def Let_def split: if_splits intro: skips_trans)
  qed
qed

lemma value_cut:
  assumes "skips rest vs" and "value_end vs = Some e" and "rest \<noteq> []" and "ascii_char (hd rest)"
  shows "\<exists>span. clean_cut rest (upto_pos rest vs) span e"
proof -
  obtain v where v: "v \<noteq> []" "vs = v @ e" "e = [] \<or> is_ws (hd e)" using value_end_split [OF assms(2)] by blast
  then have "clean_cut rest (upto_pos rest vs) v e"
    using skips_upto [OF assms(1)] assms(4) ascii_classes(1) by (auto simp: clean_cut_def)
  then show ?thesis ..
qed

lemma keyword_value_match: "is_match rest (redact_keyword_value rest)"
  unfolding is_match_def
proof (intro allI impI)
  fix out after
  assume m: "redact_keyword_value rest = Some (out, after)"
  then obtain p b vs e where k: "keyword_at rest = Some (p, b)"
    and vs: "value_start (after_key p b) b = Some vs" and e: "value_end vs = Some e"
    by (auto simp: redact_keyword_value_def split: option.splits)
  note ka = keyword_ascii [OF k]
  have sv: "skips rest vs"
    using ka after_key_skips [of p b] value_start_skips [OF vs] skips_trans by blast
  let ?r = "dropWhile is_ws e"
  show "\<exists>pre span. clean_cut rest pre span after \<and> out = pre @ MASK"
  proof (cases "(eq_ignore_ascii_case (upto_pos vs e) ''bearer'' \<or> eq_ignore_ascii_case (upto_pos vs e) ''basic'')
      \<and> value_end ?r \<noteq> None")
    case True
    then obtain s where s: "value_end ?r = Some s" by blast
    then have o: "out = upto_pos rest ?r @ MASK" "after = s" using m k vs e True
      by (auto simp: redact_keyword_value_def Let_def)
    have "list_all ascii_char (upto_pos vs e)"
    proof -
      have "ascii_char (ascii_lower c) \<Longrightarrow> ascii_char c" for c
        by (auto simp: ascii_char_def ascii_lower_def is_ascii_upper_def split: if_splits)
      moreover have "map ascii_lower (upto_pos vs e) \<in> {map ascii_lower ''bearer'', map ascii_lower ''basic''}"
        using True by (auto simp: eq_ignore_ascii_case_def to_ascii_lowercase_def)
      then have "list_all ascii_char (map ascii_lower (upto_pos vs e))"
        by (auto simp: ascii_lower_def is_ascii_upper_def ascii_char_def)
      ultimately show ?thesis by (auto simp: list_all_iff)
    qed
    then have "skips vs e" using value_end_split [OF e] by (auto simp: skips_def)
    then have "skips rest ?r" using sv skips_dropWhile [of is_ws e] ascii_classes(1) skips_trans by blast
    from value_cut [OF this s] ka o show ?thesis by blast
  next
    case False
    then have "out = upto_pos rest vs @ MASK" "after = e" using m k vs e
      by (auto simp: redact_keyword_value_def Let_def split: if_splits)
    with value_cut [OF sv e] ka show ?thesis by blast
  qed
qed

lemma ascii_cut:
  assumes "skips rest after" and "length after < length rest"
  shows "\<exists>pre span. clean_cut rest pre span after \<and> MASK = pre @ MASK"
proof -
  obtain p where "rest = p @ after" "list_all ascii_char p" using assms(1) by (auto simp: skips_def)
  then have "clean_cut rest [] p after" using assms(2) by (cases p) (auto simp: clean_cut_def)
  then show ?thesis by fastforce
qed

lemma skips_b64: "skips s (dropWhile is_b64url s)"
  by (rule skips_dropWhile) (rule ascii_classes)

lemma skips_length: "skips s t \<Longrightarrow> length t \<le> length s"
  by (auto simp: skips_def)

lemma jwt_match: "is_match rest (redact_jwt prev rest)"
  unfolding is_match_def
proof (intro allI impI)
  fix out after
  assume m: "redact_jwt prev rest = Some (out, after)"
  then obtain j where j: "dropWhile is_b64url rest = CHR ''.'' # j"
    by (auto simp: redact_jwt_def starts_with_def split: if_splits list.splits)
  have out: "out = MASK" using m by (auto simp: redact_jwt_def Let_def split: if_splits list.splits)
  have sj: "skips rest j"
    using skips_b64 [of rest] j skips_Cons [of "CHR ''.''" j] by (auto simp: ascii_char_def intro: skips_trans)
  have lj: "length j < length rest" using skips_length [OF skips_b64 [of rest]] j by simp
  have "after = dropWhile is_b64url j \<or>
      (\<exists>m0. dropWhile is_b64url j = CHR ''.'' # m0 \<and> after = dropWhile is_b64url m0)"
    using m j by (auto simp: redact_jwt_def Let_def split: if_splits list.splits)
  then have "skips j after"
  proof
    assume "\<exists>m0. dropWhile is_b64url j = CHR ''.'' # m0 \<and> after = dropWhile is_b64url m0"
    then obtain m0 where "dropWhile is_b64url j = CHR ''.'' # m0" "after = dropWhile is_b64url m0" by blast
    then show ?thesis using skips_b64 [of j] skips_Cons [of "CHR ''.''" m0] skips_b64 [of m0]
      by (auto simp: ascii_char_def intro: skips_trans)
  qed (simp add: skips_b64)
  then have "skips rest after" "length after < length rest"
    using sj skips_trans skips_length [of j after] lj by auto
  from ascii_cut [OF this] show "\<exists>pre span. clean_cut rest pre span after \<and> out = pre @ MASK"
    by (simp add: out)
qed

lemma hex_match: "is_match rest (redact_hex_run prev rest)"
  unfolding is_match_def
proof (intro allI impI)
  fix out after
  assume m: "redact_hex_run prev rest = Some (out, after)"
  then have o: "out = MASK" "after = dropWhile is_ascii_hexdigit rest" "rest \<noteq> []" "is_ascii_hexdigit (hd rest)"
    by (auto simp: redact_hex_run_def Let_def split: list.splits if_splits)
  then have "skips rest after" by (auto intro: skips_dropWhile ascii_classes)
  moreover have "length after < length rest"
    using o by (cases rest) (auto simp: less_Suc_eq_le length_dropWhile_le)
  ultimately show "\<exists>pre span. clean_cut rest pre span after \<and> out = pre @ MASK"
    using ascii_cut o(1) by blast
qed

lemma redact_at_match: "is_match rest (redact_at prev rest)"
  using keyword_value_match [of rest] jwt_match [of rest prev] hex_match [of rest prev]
  by (auto simp: redact_at_def is_match_def split: option.split)

lemma redact_at_shorter: "redact_at prev rest = Some (out, after) \<Longrightarrow> length after < length rest"
  using redact_at_match [of rest prev] unfolding is_match_def clean_cut_def by force

section \<open>The scan\<close>

text \<open>
  The loop of \<^verbatim>\<open>redact_secrets\<close>. Behind a match the byte before the position is the last one of the
  span: the last byte of the text before \<open>after\<close>.
\<close>

definition prev_of :: "string \<Rightarrow> string \<Rightarrow> char option" where
  "prev_of rest after = (if length after < length rest then Some (rest ! (length rest - length after - 1)) else None)"

function scan :: "char option \<Rightarrow> string \<Rightarrow> string" where
  "scan prev rest =
     (case redact_at prev rest of
        Some (out, after) \<Rightarrow> out @ scan (prev_of rest after) after
      | None \<Rightarrow> (case rest of [] \<Rightarrow> [] | c # r \<Rightarrow> c # scan (Some c) r))"
  by pat_completeness auto
termination by (relation "measure (length o snd)") (auto simp: redact_at_shorter)

declare scan.simps [simp del]

definition redact_secrets :: "string \<Rightarrow> string" where
  "redact_secrets input = scan None input"

subsection \<open>Only spans are replaced\<close>

inductive masks :: "string \<Rightarrow> string \<Rightarrow> bool" where
  masks_Nil: "masks [] []"
| masks_copy: "masks s out \<Longrightarrow> masks (c # s) (c # out)"
| masks_span: "masks s out \<Longrightarrow> clean_cut (pre @ span @ s) pre span s \<Longrightarrow> masks (pre @ span @ s) (pre @ MASK @ out)"

lemma scan_masks: "masks rest (scan prev rest)"
proof (induction prev rest rule: scan.induct)
  case (1 prev rest)
  show ?case
  proof (cases "redact_at prev rest")
    case None
    show ?thesis
    proof (cases rest)
      case Nil
      then show ?thesis using None by (subst scan.simps) (simp add: masks_Nil)
    next
      case (Cons c r)
      then show ?thesis using None 1(1) [OF None Cons] by (subst scan.simps) (simp add: masks_copy)
    qed
  next
    case (Some oa)
    obtain out after where oa: "oa = (out, after)" by fastforce
    then obtain pre span where c: "clean_cut rest pre span after" "out = pre @ MASK"
      using redact_at_match [of rest prev] Some by (auto simp: is_match_def)
    have r: "rest = pre @ span @ after" using c by (simp add: clean_cut_def)
    have "masks after (scan (prev_of rest after) after)" using 1(2) Some oa by blast
    then have "masks (pre @ span @ after) (pre @ MASK @ scan (prev_of rest after) after)"
      using masks_span c(1) unfolding r by blast
    then show ?thesis using Some oa c(2) r by (subst scan.simps) simp
  qed
qed

subsection \<open>UTF-8\<close>

lemma utf8_ascii_prefix: "list_all ascii_char p \<Longrightarrow> utf8_valid (p @ s) = utf8_valid s"
  by (induction p) (auto simp: ascii_char_def)


lemma utf8_split_ascii: "ascii_char c \<Longrightarrow> utf8_valid (p @ c # r) \<longleftrightarrow> utf8_valid p \<and> utf8_valid (c # r)"
  by (rule utf8_split) (simp add: ascii_char_def utf8_cont_def)

declare utf8_valid.simps(2) [simp del]

lemma masks_utf8: "masks s out \<Longrightarrow> utf8_valid (p @ s) \<Longrightarrow> utf8_valid (p @ out)"
proof (induction arbitrary: p rule: masks.induct)
  case (masks_copy s out c)
  then show ?case using masks_copy(2) [of "p @ [c]"] by simp
next
  case (masks_span s out pre span)
  obtain c x where cx: "pre @ span @ s = c # x" using masks_span(2) by (cases "pre @ span @ s") (auto simp: clean_cut_def)
  then have ac: "ascii_char c" and cut: "list_all ascii_char pre"
    "list_all ascii_char span \<or> s = [] \<or> ascii_char (hd s)"
    using masks_span(2) by (auto simp: clean_cut_def)
  have "utf8_valid p" "utf8_valid (pre @ span @ s)"
    using masks_span(4) utf8_split_ascii [OF ac, of p x] unfolding cx by auto
  then have "utf8_valid (span @ s)" using utf8_ascii_prefix [OF cut(1)] by simp
  then have "utf8_valid s"
    using cut(2) utf8_ascii_prefix [of span s] utf8_split_ascii [of "hd s" span "tl s"] by (cases s) auto
  then have "utf8_valid out" using masks_span(3) [of "[]"] by simp
  moreover have mask: "list_all ascii_char (pre @ MASK)" using cut(1) by (simp add: MASK_def ascii_char_def)
  then have "utf8_valid ((pre @ MASK) @ out)" using utf8_ascii_prefix [OF mask, of out] calculation by simp
  moreover obtain d y where dy: "(pre @ MASK) @ out = d # y" "ascii_char d"
    using cut(1) by (cases pre) (auto simp: MASK_def ascii_char_def)
  ultimately have "utf8_valid (p @ d # y)" using utf8_split_ascii [OF dy(2), of p y] \<open>utf8_valid p\<close> by simp
  then show ?case using dy(1) by simp
qed simp

text \<open>
  C39: redaction keeps the text's type and the rest of the text. Whatever the input, the scan ends, the
  output is the input with only some spans replaced by the mask, each of them after an ASCII text
  that is copied; and a valid UTF-8 text stays valid, so nothing is lost in the conversion back.
\<close>

theorem redact_well_formed:
  "masks input (redact_secrets input) \<and> (utf8_valid input \<longrightarrow> utf8_valid (redact_secrets input))"
  using scan_masks [of input None] masks_utf8 [of input _ "[]"] by (simp add: redact_secrets_def)

text \<open>A valid text with a two-byte letter before and inside the secret.\<close>

theorem redact_well_formed_witness:
  "utf8_valid ([CHR 0xC3, CHR 0xBC] @ '' secret='' @ [CHR 0xC3, CHR 0x9F])
   \<and> utf8_valid (redact_secrets ([CHR 0xC3, CHR 0xBC] @ '' secret='' @ [CHR 0xC3, CHR 0x9F]))"
proof -
  have "utf8_valid ([CHR 0xC3, CHR 0xBC] @ '' secret='' @ [CHR 0xC3, CHR 0x9F])"
    by (simp add: byte_in_def utf8_cont_def utf8_valid.simps)
  with redact_well_formed show ?thesis by blast
qed

subsection \<open>What is masked\<close>

lemma keyword_found:
  assumes k: "k \<in> set KEYWORDS" "k \<noteq> ''bearer''" and k': "eq_ignore_ascii_case k' k" and sep: "sep \<in> {CHR '':'', CHR ''=''}"
  shows "keyword_at (k' @ sep # r) = Some (sep # r, False)"
proof -
  let ?low = "map ascii_lower"
  have low: "?low k = k" if "k \<in> set KEYWORDS" for k
    using that by (auto simp: KEYWORDS_def ascii_lower_def is_ascii_upper_def)
  have lk: "?low k' = k" using k' low [OF k(1)] by (simp add: eq_ignore_ascii_case_def to_ascii_lowercase_def)
  then have len: "length k' = length k" by auto
  have lsep: "ascii_lower sep = sep" using sep by (auto simp: ascii_lower_def is_ascii_upper_def)
  have eq: "eq_ignore_ascii_case (take (length j) (k' @ sep # r)) j \<longleftrightarrow> take (length j) (k @ sep # ?low r) = j"
    if "j \<in> set KEYWORDS" for j
    using low [OF that] lk lsep len by (simp add: eq_ignore_ascii_case_def to_ascii_lowercase_def take_map [symmetric])
  have hit: "take (length j) (k @ sep # ?low r) = j \<longleftrightarrow> j = k" if "j \<in> set KEYWORDS" for j
  proof
    assume t: "take (length j) (k @ sep # ?low r) = j"
    have "list_all (\<lambda>j. CHR '':'' \<notin> set j \<and> CHR ''='' \<notin> set j \<and> list_all (\<lambda>k. take (length j) k = j \<longrightarrow> j = k) KEYWORDS) KEYWORDS"
      by code_simp
    then have j: "sep \<notin> set j" "take (length j) k = j \<longrightarrow> j = k" using that k(1) sep by (auto simp: list_all_iff)
    have "length j \<le> length k"
    proof (rule ccontr)
      assume "\<not> length j \<le> length k"
      then obtain m where m: "length j - length k = Suc m" by (metis Suc_diff_Suc not_le)
      then have "sep \<in> set (take (length j) (k @ sep # ?low r))" by simp
      with t j(1) show False by simp
    qed
    with t j(2) show "j = k" by simp
  qed simp
  have "keyword_among ks (k' @ sep # r) = Some (sep # r, False)"
    if "set ks \<subseteq> set KEYWORDS" "k \<in> set ks" for ks
    using that
  proof (induction ks)
    case (Cons j ks)
    have "eq_ignore_ascii_case (take (length j) (k' @ sep # r)) j \<longleftrightarrow> j = k" using eq [of j] hit [of j] Cons(2) by simp
    then show ?case using Cons len k(2) by (cases "j = k") (simp_all del: take_append)
  qed simp
  then show ?thesis using k(1) by (simp add: keyword_at_def)
qed

lemma value_end_stops:
  assumes "v \<noteq> []" and "list_all (\<lambda>c. \<not> is_ws c) v" and "r = [] \<or> is_ws (hd r)"
  shows "value_end (v @ r) = Some r"
proof -
  have "dropWhile (\<lambda>c. \<not> is_ws c) (v @ r) = r"
    using assms(2,3) by (cases r) (auto simp: dropWhile_append list_all_iff)
  then show ?thesis using assms(1) by (simp add: value_end_def)
qed

lemma redact_keyword_value_simple:
  assumes "k \<in> set KEYWORDS" "k \<noteq> ''bearer''" "eq_ignore_ascii_case k' k" "sep \<in> {CHR '':'', CHR ''=''}"
    and v: "v \<noteq> []" "list_all (\<lambda>c. \<not> is_ws c) v" "r = [] \<or> is_ws (hd r)"
    and scheme: "\<not> eq_ignore_ascii_case v ''bearer''" "\<not> eq_ignore_ascii_case v ''basic''"
  shows "redact_keyword_value (k' @ sep # v @ r) = Some (k' @ [sep] @ MASK, r)"
proof -
  have "value_start (after_key (sep # v @ r) False) False = Some (v @ r)"
  proof -
    have "\<not> is_ident sep" "\<not> is_ws sep" "sep \<noteq> CHR 0x22" "sep \<noteq> CHR 0x27"
      using assms(4) by (auto simp: is_ident_def is_ws_def ascii_defs)
    moreover have "dropWhile is_ws (v @ r) = v @ r" using v(1,2) by (cases v) auto
    ultimately show ?thesis using assms(4) by (auto simp: after_key_def value_start_def)
  qed
  moreover have "upto_pos (v @ r) r = v" "upto_pos (k' @ sep # v @ r) (v @ r) = k' @ [sep]"
    by (simp_all add: upto_pos_def)
  ultimately show ?thesis
    using keyword_found [OF assms(1-4), of "v @ r"] value_end_stops [OF v] scheme
    by (simp add: redact_keyword_value_def Let_def)
qed

text \<open>
  A secret written as a key and a value is masked. Whatever precedes it that the scan copies or
  masks, where the scan stands at a keyword in any case, followed by a colon or an equals sign and a
  value that is not the name of a scheme, the whole value becomes the mask, and the scan goes on behind it.
\<close>

theorem keyword_value_masked:
  assumes "k \<in> set KEYWORDS" "k \<noteq> ''bearer''" "eq_ignore_ascii_case k' k" "sep \<in> {CHR '':'', CHR ''=''}"
    and "v \<noteq> []" "list_all (\<lambda>c. \<not> is_ws c) v" "r = [] \<or> is_ws (hd r)"
    and "\<not> eq_ignore_ascii_case v ''bearer''" "\<not> eq_ignore_ascii_case v ''basic''"
  shows "scan prev (k' @ sep # v @ r) = k' @ [sep] @ MASK @ scan (Some (last v)) r"
proof -
  have "prev_of (k' @ sep # v @ r) r = Some (last v)"
    using assms(5) by (simp add: prev_of_def nth_append last_conv_nth nth_Cons')
  then show ?thesis
    using redact_keyword_value_simple [OF assms] by (subst scan.simps) (simp add: redact_at_def)
qed

text \<open>A password in a log line, in mixed case.\<close>

theorem keyword_value_masked_witness:
  "scan None ''Password=hunter2 next'' = ''Password='' @ MASK @ scan (Some (CHR ''2'')) '' next''"
proof -
  have "eq_ignore_ascii_case ''Password'' ''password''" "\<not> eq_ignore_ascii_case ''hunter2'' ''bearer''"
    "\<not> eq_ignore_ascii_case ''hunter2'' ''basic''" "list_all (\<lambda>c. \<not> is_ws c) ''hunter2''" "is_ws (CHR '' '')"
    by code_simp+
  then show ?thesis
    using keyword_value_masked [of "''password''" "''Password''" "CHR ''=''" "''hunter2''" "'' next''" None]
    by (simp add: KEYWORDS_def)
qed

text \<open>
  A run of 64 hex digits that is the suffix of a key is copied with the key: the identifier behind a
  keyword belongs to the text that is kept.
\<close>

lemma hex_run_in_key_survives:
  "redact_secrets (''token'' @ replicate 64 (CHR ''a'') @ ''=x'') = ''token'' @ replicate 64 (CHR ''a'') @ ''=[REDACTED]''"
  by code_simp

end
