(* ===== verification/Health.thy ===== *)
theory Health
  imports Net ServeLoop
begin

text \<open>
  \<^verbatim>\<open>channel_run/health.rs\<close>: what a running channel process counts, and what its probes answer. The
  atomics are the fields of one record; a \<^verbatim>\<open>Ticket\<close> is a pair of operations, one when it is made and
  one when it is dropped. The text of an answer is a value of a datatype.
\<close>

section \<open>The counters\<close>

definition READY_GRACE_SECS :: nat where "READY_GRACE_SECS = 15"

record channel_health =
  h_established :: nat
  h_parked :: nat
  h_serving :: nat
  h_streams :: nat
  h_tails :: nat
  session_ended_at :: nat
  park_ended_at :: nat
  stopping :: bool

definition health_new :: channel_health where
  "health_new = \<lparr>h_established = 0, h_parked = 0, h_serving = 0, h_streams = 0, h_tails = 0,
     session_ended_at = 0, park_ended_at = 0, stopping = False\<rparr>"

text \<open>\<^verbatim>\<open>Ticket::new\<close> on each counter, and its \<^verbatim>\<open>drop\<close>: the stamp first, then the count.\<close>

definition session_established :: "channel_health \<Rightarrow> channel_health" where
  "session_established h = h\<lparr>h_established := h_established h + 1\<rparr>"

definition session_ended :: "nat \<Rightarrow> channel_health \<Rightarrow> channel_health" where
  "session_ended now h = h\<lparr>session_ended_at := now, h_established := h_established h - 1\<rparr>"

definition park_begun :: "channel_health \<Rightarrow> channel_health" where
  "park_begun h = h\<lparr>h_parked := h_parked h + 1\<rparr>"

text \<open>
  \<^verbatim>\<open>parked\<close>: an answer that shows that the edge held the park stamps its end; a refusal, a failed leg
  and a dropped admission (\<^const>\<open>None\<close>) do not.
\<close>

definition park_held :: "('e + 'w join_outcome) option \<Rightarrow> bool" where
  "park_held outcome =
     (case outcome of Some (Inr (Admitted w)) \<Rightarrow> True | Some (Inr ParkExpired) \<Rightarrow> True | _ \<Rightarrow> False)"

definition park_ended :: "nat \<Rightarrow> ('e + 'w join_outcome) option \<Rightarrow> channel_health \<Rightarrow> channel_health" where
  "park_ended now outcome h =
     (if park_held outcome then h\<lparr>park_ended_at := now, h_parked := h_parked h - 1\<rparr>
      else h\<lparr>h_parked := h_parked h - 1\<rparr>)"

definition serving_begun :: "channel_health \<Rightarrow> channel_health" where
  "serving_begun h = h\<lparr>h_serving := h_serving h + 1\<rparr>"

definition serving_ended :: "channel_health \<Rightarrow> channel_health" where
  "serving_ended h = h\<lparr>h_serving := h_serving h - 1\<rparr>"

definition stream_begun :: "channel_health \<Rightarrow> channel_health" where
  "stream_begun h = h\<lparr>h_streams := h_streams h + 1\<rparr>"

definition stream_ended :: "channel_health \<Rightarrow> channel_health" where
  "stream_ended h = h\<lparr>h_streams := h_streams h - 1\<rparr>"

definition tail_begun :: "channel_health \<Rightarrow> channel_health" where
  "tail_begun h = h\<lparr>h_tails := h_tails h + 1\<rparr>"

definition tail_ended :: "channel_health \<Rightarrow> channel_health" where
  "tail_ended h = h\<lparr>h_tails := h_tails h - 1\<rparr>"

definition set_stopping :: "channel_health \<Rightarrow> channel_health" where
  "set_stopping h = h\<lparr>stopping := True\<rparr>"

lemmas health_defs = session_established_def session_ended_def park_begun_def park_ended_def
  serving_begun_def serving_ended_def stream_begun_def stream_ended_def tail_begun_def tail_ended_def
  set_stopping_def

section \<open>What is asked\<close>

definition in_flight :: "channel_health \<Rightarrow> bool \<Rightarrow> nat" where
  "in_flight h forward =
     (if forward then h_streams h else max (h_serving h) (h_established h + h_tails h))"

datatype liveness = AliveOk | AliveShuttingDown

definition liveness_of :: "channel_health \<Rightarrow> liveness" where
  "liveness_of h = (if stopping h then AliveShuttingDown else AliveOk)"

datatype ready_why = SessionsEstablished nat | ParkedAtEdge | BetweenSessions nat
datatype unready_why = ShuttingDown | NothingYet bool | NothingFor bool nat

definition readiness_at :: "channel_health \<Rightarrow> nat \<Rightarrow> bool \<Rightarrow> unready_why + ready_why" where
  "readiness_at h now accept =
     (if stopping h then Err ShuttingDown
      else if 0 < h_established h then Ok (SessionsEstablished (h_established h))
      else if accept \<and> 0 < h_parked h then Ok ParkedAtEdge
      else
        (let last_end = max (session_ended_at h) (if accept then park_ended_at h else 0) in
         if last_end = 0 then Err (NothingYet accept)
         else (let ago = now - last_end in
           if ago < READY_GRACE_SECS then Ok (BetweenSessions ago) else Err (NothingFor accept ago))))"

text \<open>The two routes: status code and answer.\<close>

definition healthz :: "channel_health \<Rightarrow> nat \<times> liveness" where
  "healthz h = (200, liveness_of h)"

definition readyz :: "channel_health \<Rightarrow> nat \<Rightarrow> bool \<Rightarrow> nat \<times> (unready_why + ready_why)" where
  "readyz h now accept =
     (let r = readiness_at h now accept in case r of Ok _ \<Rightarrow> (200, r) | Err _ \<Rightarrow> (503, r))"

section \<open>Settings and the probe\<close>

definition accept_role :: "string option \<Rightarrow> bool" where
  "accept_role raw =
     (case raw of None \<Rightarrow> False
      | Some r \<Rightarrow> to_ascii_lowercase (trim r) \<in> {''accept'', ''responder'', ''listen''})"

definition health_listen_from :: "string option \<Rightarrow> string + socket_addr option" where
  "health_listen_from raw =
     (case raw of None \<Rightarrow> Ok None
      | Some r \<Rightarrow>
         (let s = trim r in
          if s = [] then Ok None
          else (case parse_socket_addr s of Some a \<Rightarrow> Ok (Some a) | None \<Rightarrow> Err s)))"

definition probe_target :: "socket_addr \<Rightarrow> socket_addr" where
  "probe_target l =
     (case sa_ip l of
        V4 a b c d \<Rightarrow> if a = 0 \<and> b = 0 \<and> c = 0 \<and> d = 0 then l\<lparr>sa_ip := V4 127 0 0 1\<rparr> else l
      | V6 gs \<Rightarrow> if gs = replicate 8 0 then l\<lparr>sa_ip := V6 (replicate 7 0 @ [1])\<rparr> else l)"

text \<open>
  \<^verbatim>\<open>run_health_probe\<close>: the exit status. \<open>ask\<close> is the exchange with the listener: the status code it
  answered, or nothing.
\<close>

definition run_health_probe :: "(socket_addr \<Rightarrow> string \<Rightarrow> nat option) \<Rightarrow> string option \<Rightarrow> string option \<Rightarrow> nat" where
  "run_health_probe probe which listen_env =
     (case (case which of None \<Rightarrow> Some ''/readyz''
            | Some w \<Rightarrow> if w = ''readyz'' then Some ''/readyz''
                        else if w = ''healthz'' then Some ''/healthz'' else None) of
        None \<Rightarrow> 2
      | Some path \<Rightarrow>
         (case health_listen_from listen_env of
            Ok (Some l) \<Rightarrow> if probe (probe_target l) path = Some 200 then 0 else 1
          | _ \<Rightarrow> 2))"

section \<open>The life of a process\<close>

text \<open>
  Everything the process counts, in the order it happens. A ticket is dropped once, so an end comes
  after a begin of its kind.
\<close>

datatype health_event =
    SessionBegins | SessionEnds nat
  | ParkBegins | ParkEnds nat bool
  | ServingBegins | ServingEnds
  | StreamBegins | StreamEnds
  | TailBegins | TailEnds
  | StopSignal

fun health_step :: "health_event \<Rightarrow> channel_health \<Rightarrow> channel_health" where
  "health_step SessionBegins h = session_established h"
| "health_step (SessionEnds now) h = session_ended now h"
| "health_step ParkBegins h = park_begun h"
| "health_step (ParkEnds now held) h =
     park_ended now (if held then Some (Inr ParkExpired :: unit + unit join_outcome) else None) h"
| "health_step ServingBegins h = serving_begun h"
| "health_step ServingEnds h = serving_ended h"
| "health_step StreamBegins h = stream_begun h"
| "health_step StreamEnds h = stream_ended h"
| "health_step TailBegins h = tail_begun h"
| "health_step TailEnds h = tail_ended h"
| "health_step StopSignal h = set_stopping h"

definition health_run :: "health_event list \<Rightarrow> channel_health" where
  "health_run evs = fold health_step evs health_new"

text \<open>The tickets of a kind that are alive after a history.\<close>

definition alive :: "(health_event \<Rightarrow> bool) \<Rightarrow> (health_event \<Rightarrow> bool) \<Rightarrow> health_event list \<Rightarrow> nat" where
  "alive begins ends evs = length (filter begins evs) - length (filter ends evs)"

fun is_session_end :: "health_event \<Rightarrow> bool" where
  "is_session_end (SessionEnds _) = True" | "is_session_end _ = False"

fun is_park_end :: "health_event \<Rightarrow> bool" where
  "is_park_end (ParkEnds _ _) = True" | "is_park_end _ = False"

definition sessions_alive :: "health_event list \<Rightarrow> nat" where
  "sessions_alive evs = alive ((=) SessionBegins) is_session_end evs"

definition parks_alive :: "health_event list \<Rightarrow> nat" where
  "parks_alive evs = alive ((=) ParkBegins) is_park_end evs"

text \<open>The moments at which a member was last served, as far as the probe of its role counts them.\<close>

definition served_at :: "bool \<Rightarrow> health_event list \<Rightarrow> nat set" where
  "served_at accept evs =
     {t. SessionEnds t \<in> set evs \<or> accept \<and> ParkEnds t True \<in> set evs}"

text \<open>A history as a process makes one: an end follows a begin, and the clock does not go back.\<close>

fun event_time :: "health_event \<Rightarrow> nat option" where
  "event_time (SessionEnds t) = Some t"
| "event_time (ParkEnds t _) = Some t"
| "event_time _ = None"

inductive history :: "nat \<Rightarrow> health_event list \<Rightarrow> bool" where
  "history t0 []" if "0 < t0"
| "history t (evs @ [e])" if "history t0 evs" "t0 \<le> t"
    "event_time e = None \<or> event_time e = Some t"
    "is_session_end e \<Longrightarrow> 0 < sessions_alive evs"
    "is_park_end e \<Longrightarrow> 0 < parks_alive evs"

section \<open>Properties\<close>

text \<open>A stamp is the latest of the moments it stands for, or zero when there is none.\<close>

definition latest :: "nat \<Rightarrow> nat set \<Rightarrow> bool" where
  "latest stamp ts \<longleftrightarrow> (if ts = {} then stamp = 0 else stamp \<in> ts \<and> (\<forall>u \<in> ts. u \<le> stamp))"

lemma latest_insert: "\<forall>u \<in> ts. u \<le> t \<Longrightarrow> latest t (insert t ts)"
  by (auto simp: latest_def)

lemma latest_fresh:
  "latest stamp ts \<Longrightarrow> 0 \<notin> ts \<Longrightarrow>
     (\<exists>u \<in> ts. now - u < g) \<longleftrightarrow> stamp \<noteq> 0 \<and> now - stamp < g" for g :: nat
  by (cases "ts = {}") (auto simp: latest_def dest: diff_le_mono2 le_less_trans)

definition health_inv :: "nat \<Rightarrow> health_event list \<Rightarrow> channel_health \<Rightarrow> bool" where
  "health_inv t evs h \<longleftrightarrow>
     h_established h = sessions_alive evs \<and> h_parked h = parks_alive evs
     \<and> stopping h = (StopSignal \<in> set evs)
     \<and> latest (session_ended_at h) {u. SessionEnds u \<in> set evs}
     \<and> latest (park_ended_at h) {u. ParkEnds u True \<in> set evs}
     \<and> (\<forall>u b. SessionEnds u \<in> set evs \<or> ParkEnds u b \<in> set evs \<longrightarrow> 0 < u \<and> u \<le> t) \<and> 0 < t"

lemma alive_snoc:
  "\<not> (begins e \<and> ends e) \<Longrightarrow> (ends e \<Longrightarrow> 0 < alive begins ends evs) \<Longrightarrow>
   length (filter ends evs) \<le> length (filter begins evs) \<Longrightarrow>
   alive begins ends (evs @ [e]) =
     (if begins e then alive begins ends evs + 1 else if ends e then alive begins ends evs - 1 else alive begins ends evs)"
  by (auto simp: alive_def)

lemma ends_after_begins:
  "history t evs \<Longrightarrow> length (filter is_session_end evs) \<le> length (filter ((=) SessionBegins) evs)
     \<and> length (filter is_park_end evs) \<le> length (filter ((=) ParkBegins) evs)"
  by (induction rule: history.induct) (auto simp: sessions_alive_def parks_alive_def alive_def)

lemma alive_step:
  assumes "history t0 evs" and "is_session_end e \<Longrightarrow> 0 < sessions_alive evs" and "is_park_end e \<Longrightarrow> 0 < parks_alive evs"
  shows "sessions_alive (evs @ [e]) =
      (if e = SessionBegins then sessions_alive evs + 1 else if is_session_end e then sessions_alive evs - 1 else sessions_alive evs)"
    and "parks_alive (evs @ [e]) =
      (if e = ParkBegins then parks_alive evs + 1 else if is_park_end e then parks_alive evs - 1 else parks_alive evs)"
proof -
  show "sessions_alive (evs @ [e]) =
      (if e = SessionBegins then sessions_alive evs + 1 else if is_session_end e then sessions_alive evs - 1 else sessions_alive evs)"
    using assms(2) ends_after_begins [OF assms(1)] alive_snoc [of "(=) SessionBegins" e is_session_end evs]
    unfolding sessions_alive_def by (cases e) auto
  show "parks_alive (evs @ [e]) =
      (if e = ParkBegins then parks_alive evs + 1 else if is_park_end e then parks_alive evs - 1 else parks_alive evs)"
    using assms(3) ends_after_begins [OF assms(1)] alive_snoc [of "(=) ParkBegins" e is_park_end evs]
    unfolding parks_alive_def by (cases e) auto
qed

lemma health_run_inv: "history t evs \<Longrightarrow> health_inv t evs (health_run evs)"
proof (induction rule: history.induct)
  case (1 t0)
  then show ?case
    by (simp add: health_inv_def health_run_def health_new_def sessions_alive_def parks_alive_def alive_def latest_def)
next
  case (2 t0 evs t e)
  have old: "\<forall>u \<in> {u. SessionEnds u \<in> set evs}. u \<le> t" "\<forall>u \<in> {u. ParkEnds u True \<in> set evs}. u \<le> t"
    using 2 by (auto simp: health_inv_def intro: le_trans)
  have alive: "sessions_alive (evs @ [e]) =
      (if e = SessionBegins then sessions_alive evs + 1 else if is_session_end e then sessions_alive evs - 1 else sessions_alive evs)"
    "parks_alive (evs @ [e]) =
      (if e = ParkBegins then parks_alive evs + 1 else if is_park_end e then parks_alive evs - 1 else parks_alive evs)"
    using alive_step [of t0 evs e] 2(1,4,5) by blast+
  have [simp]: "health_run (evs @ [e]) = health_step e (health_run evs)" by (simp add: health_run_def)
  have set_simps: "{u. u = x \<or> SessionEnds u \<in> set evs} = insert x {u. SessionEnds u \<in> set evs}"
    "{u. u = x \<or> ParkEnds u True \<in> set evs} = insert x {u. ParkEnds u True \<in> set evs}" for x by auto
  have times: "\<forall>u b. SessionEnds u \<in> set (evs @ [e]) \<or> ParkEnds u b \<in> set (evs @ [e]) \<longrightarrow> 0 < u \<and> u \<le> t"
    using 2 by (cases e) (auto simp: health_inv_def intro: le_trans)
  moreover have "0 < t" using 2 by (simp add: health_inv_def)
  moreover have "latest (session_ended_at (health_step e (health_run evs))) {u. SessionEnds u \<in> set (evs @ [e])}"
    using 2(3,6) latest_insert [OF old(1)]
    by (cases e) (simp_all add: health_inv_def health_defs set_simps)
  moreover have "latest (park_ended_at (health_step e (health_run evs))) {u. ParkEnds u True \<in> set (evs @ [e])}"
    using 2(3,6) latest_insert [OF old(2)]
    by (cases e) (simp_all add: health_inv_def health_defs set_simps park_held_def)
  moreover have "h_established (health_step e (health_run evs)) = sessions_alive (evs @ [e])"
    using 2(6) unfolding alive by (cases e) (simp_all add: health_inv_def health_defs)
  moreover have "h_parked (health_step e (health_run evs)) = parks_alive (evs @ [e])"
    using 2(6) unfolding alive by (cases e) (simp_all add: health_inv_def health_defs)
  moreover have "stopping (health_step e (health_run evs)) = (StopSignal \<in> set (evs @ [e]))"
    using 2(6) by (cases e) (simp_all add: health_inv_def health_defs)
  ultimately show ?case by (simp only: health_inv_def \<open>health_run (evs @ [e]) = _\<close> simp_thms)
qed

text \<open>
  C40: what the readiness probe says is what happened. Whatever was counted before, the member answers
  ready exactly when no stop signal came and a session is up, or (on the accept side) an admission is
  parked, or a session (on the accept side also a park the edge held) ended within the last 15 seconds.
\<close>

theorem readiness_correct:
  assumes "history t evs"
  shows "fst (readyz (health_run evs) now accept) = 200 \<longleftrightarrow>
     StopSignal \<notin> set evs
     \<and> (0 < sessions_alive evs \<or> accept \<and> 0 < parks_alive evs \<or> (\<exists>u \<in> served_at accept evs. now - u < 15))"
proof -
  define h where "h = health_run evs"
  have inv: "health_inv t evs h" using health_run_inv [OF assms] by (simp add: h_def)
  have z: "0 \<notin> {u. SessionEnds u \<in> set evs}" "0 \<notin> {u. ParkEnds u True \<in> set evs}"
    using inv by (auto simp: health_inv_def)
  have "(\<exists>u \<in> served_at accept evs. now - u < 15) \<longleftrightarrow>
      (session_ended_at h \<noteq> 0 \<and> now - session_ended_at h < 15)
      \<or> accept \<and> park_ended_at h \<noteq> 0 \<and> now - park_ended_at h < 15"
    using latest_fresh [OF _ z(1), of "session_ended_at h" now 15] latest_fresh [OF _ z(2), of "park_ended_at h" now 15] inv
    unfolding served_at_def health_inv_def by blast
  then show ?thesis unfolding h_def [symmetric]
    using inv by (auto simp: readyz_def readiness_at_def health_inv_def Let_def READY_GRACE_SECS_def max_def)
qed

text \<open>An accept member whose park expired at 100: ready at 110, no longer at 115.\<close>

theorem readiness_correct_witness:
  "fst (readyz (health_run [ParkBegins, ParkEnds 100 True]) 110 True) = 200
   \<and> fst (readyz (health_run [ParkBegins, ParkEnds 100 True]) 115 True) \<noteq> 200"
proof -
  have "history 1 []" by (rule history.intros) simp
  then have "history 1 ([] @ [ParkBegins])" by (rule history.intros(2)) auto
  then have "history 100 (([] @ [ParkBegins]) @ [ParkEnds 100 True])"
    by (rule history.intros(2)) (auto simp: parks_alive_def alive_def)
  then have "history 100 [ParkBegins, ParkEnds 100 True]" by simp
  from readiness_correct [OF this, of 110 True] readiness_correct [OF this, of 115 True] show ?thesis
    by (simp add: served_at_def sessions_alive_def parks_alive_def alive_def)
qed

end
