(* ===== verification/Shutdown.thy ===== *)
theory Shutdown
  imports Health ForwardFlow
begin

text \<open>
  \<^verbatim>\<open>channel_run/shutdown.rs\<close>: a stop signal, the bounded drain after it, and the exit status.

  Time is explicit: \<open>flight t\<close> is what is in flight at the moment \<open>t\<close>, \<open>late t\<close> how much longer than
  asked a sleep that starts at \<open>t\<close> takes, and the stop signals are the moments at which they arrive.
  The drain a start accepts is at most an hour, so the deadline is always a moment of the clock.
\<close>

section \<open>Settings\<close>

definition DEFAULT_SHUTDOWN_DRAIN :: duration where "DEFAULT_SHUTDOWN_DRAIN = secs 5"
definition MAX_SHUTDOWN_DRAIN :: duration where "MAX_SHUTDOWN_DRAIN = secs 3600"
definition DRAIN_POLL :: duration where "DRAIN_POLL = millis 50"
definition REPEAT_DEBOUNCE :: duration where "REPEAT_DEBOUNCE = secs 1"

datatype drain_error = NotWholeSeconds string | OverTheLimit string

definition shutdown_drain_from :: "string option \<Rightarrow> drain_error + duration" where
  "shutdown_drain_from raw =
     (case raw of None \<Rightarrow> Ok DEFAULT_SHUTDOWN_DRAIN
      | Some r \<Rightarrow>
         (let s = trim r in
          if s = [] then Ok DEFAULT_SHUTDOWN_DRAIN
          else (case parse_uint (Suc U64_MAX) s of
              None \<Rightarrow> Err (NotWholeSeconds s)
            | Some n \<Rightarrow> if MAX_SHUTDOWN_DRAIN < secs n then Err (OverTheLimit s) else Ok (secs n))))"

record stop_member =
  is_forward :: bool
  is_persistent :: bool

definition persistent_member :: "bool \<Rightarrow> bool \<Rightarrow> string option \<Rightarrow> string option \<Rightarrow> bool" where
  "persistent_member forward accept serve_env broker =
     (let brokered = (case broker of Some b \<Rightarrow> b \<noteq> [] | None \<Rightarrow> False) in
      forward \<or> (accept \<and> brokered \<and> flag serve_env False))"

section \<open>The drain\<close>

datatype drain_end = DrainIdle | DrainTimedOut nat | DrainInterrupted nat

definition exit_status :: "drain_end \<Rightarrow> bool \<Rightarrow> string \<Rightarrow> nat" where
  "exit_status e persistent signal =
     (let cut = (case e of DrainIdle \<Rightarrow> 0 | DrainTimedOut n \<Rightarrow> n | DrainInterrupted n \<Rightarrow> n) in
      if persistent \<or> cut = 0 then 0
      else if signal = ''SIGTERM'' then 128 + 15 else 128 + 2)"

text \<open>
  The loop of \<^verbatim>\<open>drain_in_flight\<close>: how it ended, and when. \<open>again\<close> is the moment at which the second
  stop resolves; it is looked at before the sleep.
\<close>

function drain_from ::
  "(nat \<Rightarrow> nat) \<Rightarrow> (nat \<Rightarrow> duration) \<Rightarrow> nat option \<Rightarrow> nat \<Rightarrow> nat \<Rightarrow> nat \<Rightarrow> drain_end \<times> nat" where
  "drain_from flight late again deadline idle_looks now =
     (let n = flight now; idle = (if n = 0 then idle_looks + 1 else 0) in
      if 2 \<le> idle then (DrainIdle, now)
      else if deadline \<le> now then (if n = 0 then DrainIdle else DrainTimedOut n, now)
      else (let wake = now + min DRAIN_POLL (deadline - now) + late now in
        case again of
          Some t \<Rightarrow> if t \<le> wake then (DrainInterrupted (flight (max now t)), max now t)
                    else drain_from flight late again deadline idle wake
        | None \<Rightarrow> drain_from flight late again deadline idle wake))"
  by pat_completeness auto
termination
  by (relation "measure (\<lambda>(flight, late, again, deadline, idle, now). deadline - now)")
    (auto simp: DRAIN_POLL_def millis_def)

declare drain_from.simps [simp del]

definition drain_in_flight ::
  "(nat \<Rightarrow> nat) \<Rightarrow> (nat \<Rightarrow> duration) \<Rightarrow> duration \<Rightarrow> nat option \<Rightarrow> nat \<Rightarrow> drain_end \<times> nat" where
  "drain_in_flight flight late drain again now = drain_from flight late again (now + drain) 0 now"

text \<open>\<^verbatim>\<open>second_stop\<close>: the first stop signal a second or more after the first one.\<close>

fun second_stop :: "nat list \<Rightarrow> nat \<Rightarrow> nat option" where
  "second_stop [] first = None"
| "second_stop (t # signals) first =
     (if REPEAT_DEBOUNCE \<le> t - first then Some t else second_stop signals first)"

text \<open>
  \<^verbatim>\<open>drain_after_signal\<close>: the member is unready and the stop is cancelled before the first look; the
  counters it drains are those of \<open>health\<close> at each moment.
\<close>

record stop_result =
  stop_end :: drain_end
  stop_status :: nat
  stop_time :: nat
  health_then :: channel_health
  stop_cancelled :: bool

definition drain_after_signal ::
  "string \<Rightarrow> (nat \<Rightarrow> channel_health) \<Rightarrow> (nat \<Rightarrow> duration) \<Rightarrow> stop_member \<Rightarrow> duration \<Rightarrow> nat option \<Rightarrow> nat
     \<Rightarrow> stop_result" where
  "drain_after_signal name health late member drain again now =
     (case drain_in_flight (\<lambda>t. in_flight (health t) (is_forward member)) late drain again now of
        (e, t) \<Rightarrow>
          \<lparr>stop_end = e, stop_status = exit_status e (is_persistent member) name, stop_time = t,
           health_then = set_stopping (health t), stop_cancelled = True\<rparr>)"

text \<open>
  \<^verbatim>\<open>unless_stopped\<close>: a piece of work that would be done at \<open>done_at\<close> gives its result, unless the stop is
  cancelled by then; then it is dropped and never resolves.
\<close>

definition unless_stopped :: "nat option \<Rightarrow> nat \<Rightarrow> 'a \<Rightarrow> 'a option" where
  "unless_stopped stop_at done_at out =
     (case stop_at of Some t \<Rightarrow> if t \<le> done_at then None else Some out | None \<Rightarrow> Some out)"

section \<open>The start\<close>

datatype lifecycle_error =
    BadDrain drain_error
  | BadHealthListen string
  | BadSessionWindow string

record lifecycle =
  lc_drain :: duration
  lc_listen :: "socket_addr option"
  lc_accept :: bool
  lc_member :: stop_member

definition lifecycle_config ::
  "(string \<Rightarrow> string) \<Rightarrow> (string \<Rightarrow> string option) \<Rightarrow> bool \<Rightarrow> lifecycle_error + lifecycle" where
  "lifecycle_config dbg env forward =
     (case shutdown_drain_from (env ''CT_CHANNEL_SHUTDOWN_DRAIN_SECS'') of
        Err e \<Rightarrow> Err (BadDrain e)
      | Ok drain \<Rightarrow>
         (case health_listen_from (env ''CT_CHANNEL_HEALTH_LISTEN'') of
            Err e \<Rightarrow> Err (BadHealthListen e)
          | Ok listen \<Rightarrow>
             (case session_window_from dbg (env FORWARD_SESSION_WINDOW_ENV) of
                Err e \<Rightarrow> Err (BadSessionWindow e)
              | Ok _ \<Rightarrow>
                 (let accept = accept_role (env ''CT_CHANNEL_ROLE'') in
                  Ok \<lparr>lc_drain = drain, lc_listen = listen, lc_accept = accept,
                      lc_member = \<lparr>is_forward = forward,
                        is_persistent = persistent_member forward accept (env ''CT_CHANNEL_SERVE'')
                          (env ''CT_CHANNEL_BROKER'')\<rparr>\<rparr>))))"

text \<open>The task the start spawns: the first signal, then the drain with the later ones.\<close>

definition on_stop_signals ::
  "lifecycle \<Rightarrow> (nat \<Rightarrow> channel_health) \<Rightarrow> (nat \<Rightarrow> duration) \<Rightarrow> (string \<times> nat) list \<Rightarrow> stop_result option" where
  "on_stop_signals lc health late signals =
     (case signals of
        [] \<Rightarrow> None
      | (name, t) # later \<Rightarrow>
          Some (drain_after_signal name health late (lc_member lc) (lc_drain lc)
                  (second_stop (map snd later) t) t))"

section \<open>Properties\<close>

lemma second_stop_some: "second_stop ts first = Some t \<Longrightarrow> t \<in> set ts \<and> first + REPEAT_DEBOUNCE \<le> t"
  by (induction ts) (auto simp: REPEAT_DEBOUNCE_def secs_def split: if_splits)

lemma drain_from_end:
  assumes "drain_from flight late again deadline idle now = (e, t)" and "\<And>u. late u \<le> slack"
  shows "now \<le> t \<and> t \<le> max now (deadline + slack)
     \<and> (case e of
          DrainIdle \<Rightarrow> flight t = 0
        | DrainTimedOut n \<Rightarrow> flight t = n \<and> 0 < n \<and> deadline \<le> t
        | DrainInterrupted n \<Rightarrow> flight t = n \<and> (\<exists>s. again = Some s \<and> s \<le> t))"
  using assms
proof (induction flight late again deadline idle now rule: drain_from.induct)
  case (1 flight late again deadline idle now)
  define n where "n = flight now"
  define idle' where "idle' = (if n = 0 then idle + 1 else 0)"
  define wake where "wake = now + min DRAIN_POLL (deadline - now) + late now"
  note unfold = drain_from.simps [of flight late again deadline idle now, folded n_def, unfolded Let_def,
      folded idle'_def wake_def]
  consider "2 \<le> idle'" | "\<not> 2 \<le> idle'" "deadline \<le> now" | "\<not> 2 \<le> idle'" "now < deadline" by linarith
  then show ?case
  proof cases
    case 3
    have late: "late now \<le> slack" using 1(4) .
    then have wake: "now \<le> wake" "wake \<le> max now (deadline + slack)" using 3 by (auto simp: wake_def)
    show ?thesis
    proof (cases "\<exists>s. again = Some s \<and> s \<le> wake")
      case True
      then show ?thesis using 1(3) 3 wake unfolding unfold by auto
    next
      case False
      then have "drain_from flight late again deadline idle' wake = (e, t)"
        using 1(3) 3 unfolding unfold by (auto split: option.splits)
      moreover have "drain_from flight late again deadline idle' wake = (e, t) \<Longrightarrow> (\<And>u. late u \<le> slack) \<Longrightarrow>
          wake \<le> t \<and> t \<le> max wake (deadline + slack)
          \<and> (case e of DrainIdle \<Rightarrow> flight t = 0
             | DrainTimedOut n \<Rightarrow> flight t = n \<and> 0 < n \<and> deadline \<le> t
             | DrainInterrupted n \<Rightarrow> flight t = n \<and> (\<exists>s. again = Some s \<and> s \<le> t))"
        using 1(1,2) 3 False by (cases again) (simp_all add: n_def idle'_def wake_def)
      ultimately show ?thesis using 1(4) wake 3 by (auto simp: max_def)
    qed
  qed (use 1(3) n_def in \<open>auto simp: unfold idle'_def split: if_splits\<close>)
qed

lemma exit_status_zero:
  "exit_status e persistent signal = 0 \<longleftrightarrow>
     persistent \<or> (case e of DrainIdle \<Rightarrow> True | DrainTimedOut n \<Rightarrow> n = 0 | DrainInterrupted n \<Rightarrow> n = 0)"
  by (auto simp: exit_status_def Let_def split: drain_end.splits)

lemma shutdown_drain_le: "shutdown_drain_from raw = Ok d \<Longrightarrow> d \<le> secs 3600"
  by (auto simp: shutdown_drain_from_def Let_def DEFAULT_SHUTDOWN_DRAIN_def MAX_SHUTDOWN_DRAIN_def
      split: option.splits if_splits)

lemma lifecycle_config_Ok:
  "lifecycle_config dbg env fwd = Ok lc \<Longrightarrow> lc_drain lc \<le> secs 3600 \<and> is_forward (lc_member lc) = fwd"
  by (auto simp: lifecycle_config_def Let_def dest: shutdown_drain_le split: sum.splits)

text \<open>
  C19: a stop ends in bounded time, and its exit status is true. With the settings a start accepts, the
  process exits within the drain time (an hour at most) and what a sleep overruns; the status is 0
  exactly when the member runs for good or nothing was in flight at the moment of the exit, else 143
  for SIGTERM and 130 for another signal; the wait is cut short only by a stop signal that came a
  second or more after the first.
\<close>

theorem stop_exit_truthful:
  assumes "lifecycle_config dbg env fwd = Ok lc" and "\<forall>u. late u \<le> slack"
  shows "\<exists>r. on_stop_signals lc health late ((name, t0) # later) = Some r
     \<and> t0 \<le> stop_time r \<and> stop_time r \<le> t0 + lc_drain lc + slack \<and> lc_drain lc \<le> secs 3600
     \<and> stop_status r =
         (if is_persistent (lc_member lc) \<or> in_flight (health (stop_time r)) fwd = 0 then 0
          else if name = ''SIGTERM'' then 143 else 130)
     \<and> (stop_time r < t0 + lc_drain lc \<and> in_flight (health (stop_time r)) fwd \<noteq> 0 \<longrightarrow>
          (\<exists>s \<in> set (map snd later). t0 + secs 1 \<le> s \<and> s \<le> stop_time r))"
proof -
  note lc = lifecycle_config_Ok [OF assms(1)]
  let ?flight = "\<lambda>t. in_flight (health t) fwd"
  obtain e t where d: "drain_in_flight ?flight late (lc_drain lc) (second_stop (map snd later) t0) t0 = (e, t)"
    by fastforce
  note fin = drain_from_end [OF d [unfolded drain_in_flight_def], of slack]
  have r: "\<exists>r. on_stop_signals lc health late ((name, t0) # later) = Some r \<and> stop_time r = t
      \<and> stop_status r = exit_status e (is_persistent (lc_member lc)) name"
    using d lc by (simp add: on_stop_signals_def drain_after_signal_def)
  have "exit_status e (is_persistent (lc_member lc)) name =
      (if is_persistent (lc_member lc) \<or> ?flight t = 0 then 0 else if name = ''SIGTERM'' then 143 else 130)"
    using fin assms(2) by (cases e) (auto simp: exit_status_def)
  moreover have "\<exists>s \<in> set (map snd later). t0 + secs 1 \<le> s \<and> s \<le> t"
    if "t < t0 + lc_drain lc" "?flight t \<noteq> 0"
    using fin assms(2) that second_stop_some [of "map snd later" t0]
    by (cases e) (auto simp: REPEAT_DEBOUNCE_def)
  ultimately show ?thesis using r fin assms(2) lc by (auto simp: max_def split: if_splits)
qed

text \<open>A one-shot transfer that never ends, five seconds after SIGTERM.\<close>

theorem stop_exit_truthful_witness:
  "\<exists>lc r. lifecycle_config (\<lambda>s. s) (\<lambda>_. None) False = Ok lc
     \<and> on_stop_signals lc (\<lambda>_. session_established health_new) (\<lambda>_. 0) [(''SIGTERM'', 0)] = Some r
     \<and> stop_status r = 143 \<and> stop_time r \<le> secs 5"
proof -
  obtain lc where lc: "lifecycle_config (\<lambda>s. s) (\<lambda>_. None) False = Ok lc" "lc_drain lc = secs 5"
    "\<not> is_persistent (lc_member lc)"
    by (auto simp: lifecycle_config_def shutdown_drain_from_def health_listen_from_def session_window_from_def
        accept_role_def persistent_member_def flag_def parse_flag_def DEFAULT_SHUTDOWN_DRAIN_def)
  moreover have "in_flight (session_established health_new) False = 1"
    by (simp add: in_flight_def session_established_def health_new_def)
  ultimately show ?thesis
    using stop_exit_truthful [OF lc(1), of "\<lambda>_. 0" 0 "\<lambda>_. session_established health_new" "''SIGTERM''" 0 "[]"]
    by auto
qed

end
