(* ===== verification/DirectToken.thy ===== *)
theory DirectToken
  imports Codec
begin

text \<open>
  The routing-token check of the direct path (\<^verbatim>\<open>serve.rs\<close>): the handshake payload, the cached
  revocation status that the registration loops feed, the decision, and the check before message 2.

  The view is shared, every registration loop owns a counter: the state of all loops is the view and
  one counter for each loop. The payload's tag and length are those of the table at
  \<^verbatim>\<open>DirectHandshakePayload\<close>.
\<close>

section \<open>The handshake payload\<close>

definition DIRECT_HS_PAYLOAD_TOKEN_V1 :: byte where "DIRECT_HS_PAYLOAD_TOKEN_V1 = 1"
definition DIRECT_HS_PAYLOAD_TOKEN_V1_LEN :: nat where "DIRECT_HS_PAYLOAD_TOKEN_V1_LEN = 33"

datatype direct_handshake_payload = LegacyPayload | TokenPayload bytes | MalformedPayload

definition parse_direct_handshake_payload :: "bytes \<Rightarrow> direct_handshake_payload" where
  "parse_direct_handshake_payload payload =
     (case payload of
        [] \<Rightarrow> LegacyPayload
      | b # rest \<Rightarrow>
          if b = DIRECT_HS_PAYLOAD_TOKEN_V1
          then (if length payload \<noteq> DIRECT_HS_PAYLOAD_TOKEN_V1_LEN then MalformedPayload else TokenPayload rest)
          else LegacyPayload)"

section \<open>The revocation view\<close>

datatype registration_outcome = Succeeded | RefusedDefinitive | RefusedAmbiguous | Transient

datatype revocation_transition = ToRevoked | ToRestored

definition AMBIGUOUS_REFUSALS_BEFORE_REVOKED :: nat where "AMBIGUOUS_REFUSALS_BEFORE_REVOKED = 3"

text \<open>\<^verbatim>\<open>RevocationView::set\<close> and \<^verbatim>\<open>clear\<close>: whether the flag moved, and the flag.\<close>

definition view_set :: "bool \<Rightarrow> bool \<times> bool" where "view_set view = (\<not> view, True)"
definition view_clear :: "bool \<Rightarrow> bool \<times> bool" where "view_clear view = (view, False)"

text \<open>\<^verbatim>\<open>RevocationTracker::apply\<close> on the view and the counter of one loop.\<close>

definition apply_outcome ::
  "registration_outcome \<Rightarrow> bool \<Rightarrow> nat \<Rightarrow> revocation_transition option \<times> bool \<times> nat" where
  "apply_outcome outcome view count =
     (case outcome of
        Succeeded \<Rightarrow> (let (moved, v) = view_clear view in (if moved then Some ToRestored else None, v, 0))
      | RefusedDefinitive \<Rightarrow> (let (moved, v) = view_set view in (if moved then Some ToRevoked else None, v, 0))
      | RefusedAmbiguous \<Rightarrow>
          (let n = min U32_MAX (count + 1) in
           if AMBIGUOUS_REFUSALS_BEFORE_REVOKED \<le> n
           then (let (moved, v) = view_set view in (if moved then Some ToRevoked else None, v, n))
           else (None, view, n))
      | Transient \<Rightarrow> (None, view, count))"

definition classify_failure :: "bool \<Rightarrow> bool \<Rightarrow> registration_outcome" where
  "classify_failure registration_refusal definitive =
     (if \<not> registration_refusal then Transient
      else if definitive then RefusedDefinitive else RefusedAmbiguous)"

text \<open>All the loops of an agent: the view, the counters, and the lines \<^verbatim>\<open>note\<close> has logged.\<close>

record revocation =
  rv_revoked :: bool
  rv_counts :: "nat \<Rightarrow> nat"
  rv_log :: "revocation_transition list"

definition revocation_start :: revocation where
  "revocation_start = \<lparr>rv_revoked = False, rv_counts = (\<lambda>_. 0), rv_log = []\<rparr>"

definition note_outcome :: "nat \<Rightarrow> registration_outcome \<Rightarrow> revocation \<Rightarrow> revocation" where
  "note_outcome i outcome r =
     (case apply_outcome outcome (rv_revoked r) (rv_counts r i) of
        (t, v, n) \<Rightarrow>
          \<lparr>rv_revoked = v, rv_counts = (rv_counts r)(i := n),
           rv_log = rv_log r @ (case t of Some x \<Rightarrow> [x] | None \<Rightarrow> [])\<rparr>)"

definition note_all :: "(nat \<times> registration_outcome) list \<Rightarrow> revocation" where
  "note_all evs = fold (\<lambda>(i, outcome). note_outcome i outcome) evs revocation_start"

section \<open>The policy\<close>

record direct_token_policy =
  own_token :: bytes
  require_token :: bool
  policy_revoked :: bool

datatype direct_token_decision =
    Serve | ServeLegacy | RefuseMismatch | RefuseMissing | RefuseMalformed | RefuseRevoked

definition with_revocation :: "bytes \<Rightarrow> bool \<Rightarrow> revocation \<Rightarrow> direct_token_policy" where
  "with_revocation own require r = \<lparr>own_token = own, require_token = require, policy_revoked = rv_revoked r\<rparr>"

definition routing_token_eq_ct :: "bytes \<Rightarrow> bytes \<Rightarrow> bool" where
  "routing_token_eq_ct a b = ct_eq a b"

definition decide_direct :: "direct_token_policy \<Rightarrow> direct_handshake_payload \<Rightarrow> direct_token_decision" where
  "decide_direct p payload =
     (if policy_revoked p then RefuseRevoked
      else (case payload of
          TokenPayload t \<Rightarrow> if routing_token_eq_ct t (own_token p) then Serve else RefuseMismatch
        | LegacyPayload \<Rightarrow> if require_token p then RefuseMissing else ServeLegacy
        | MalformedPayload \<Rightarrow> RefuseMalformed))"

definition is_refusal :: "direct_token_decision \<Rightarrow> bool" where
  "is_refusal d = (d \<notin> {Serve, ServeLegacy})"

text \<open>\<^verbatim>\<open>check_direct_token\<close>: the result, and the event it emits (the event log limits their rate).\<close>

datatype direct_event = DirectRefusedEvent direct_token_decision | DirectLegacyServed

definition check_direct_token ::
  "direct_token_policy option \<Rightarrow> bytes \<Rightarrow> (direct_token_decision + unit) \<times> direct_event list" where
  "check_direct_token policy payload =
     (case policy of
        None \<Rightarrow> (Ok (), [])
      | Some p \<Rightarrow>
         (let decision = decide_direct p (parse_direct_handshake_payload payload) in
          if is_refusal decision then (Err decision, [DirectRefusedEvent decision])
          else (Ok (), if decision = ServeLegacy then [DirectLegacyServed] else [])))"

section \<open>What a history means\<close>

text \<open>
  A loop's run of ambiguous refusals: those since its last definite verdict, transients not counted.
\<close>

definition ambiguous_run :: "nat \<Rightarrow> (nat \<times> registration_outcome) list \<Rightarrow> nat" where
  "ambiguous_run i evs =
     length (takeWhile (\<lambda>x. x = RefusedAmbiguous)
       (rev (filter (\<lambda>x. x \<noteq> Transient) (map snd (filter (\<lambda>e. fst e = i) evs)))))"

text \<open>A verdict that speaks against the token: a definite refusal, or the third ambiguous one of a loop.\<close>

definition condemns :: "(nat \<times> registration_outcome) list \<Rightarrow> nat \<times> registration_outcome \<Rightarrow> bool" where
  "condemns before e \<longleftrightarrow>
     snd e = RefusedDefinitive \<or> snd e = RefusedAmbiguous \<and> 3 \<le> ambiguous_run (fst e) (before @ [e])"

definition believed_revoked :: "(nat \<times> registration_outcome) list \<Rightarrow> bool" where
  "believed_revoked evs \<longleftrightarrow>
     (\<exists>before e after. evs = before @ e # after \<and> condemns before e \<and> list_all (\<lambda>x. snd x \<noteq> Succeeded) after)"

section \<open>Properties\<close>

lemma note_all_snoc [simp]: "note_all (evs @ [(i, outcome)]) = note_outcome i outcome (note_all evs)"
  by (simp add: note_all_def)

lemma ambiguous_run_snoc:
  "ambiguous_run j (evs @ [(i, outcome)]) =
     (if i \<noteq> j \<or> outcome = Transient then ambiguous_run j evs
      else if outcome = RefusedAmbiguous then Suc (ambiguous_run j evs) else 0)"
  by (simp add: ambiguous_run_def)

lemma believed_revoked_snoc:
  "believed_revoked (evs @ [e]) \<longleftrightarrow> condemns evs e \<or> snd e \<noteq> Succeeded \<and> believed_revoked evs"
proof
  assume "believed_revoked (evs @ [e])"
  then obtain before x after where b: "evs @ [e] = before @ x # after" "condemns before x"
    "list_all (\<lambda>x. snd x \<noteq> Succeeded) after" by (auto simp: believed_revoked_def)
  then show "condemns evs e \<or> snd e \<noteq> Succeeded \<and> believed_revoked evs"
  proof (cases after rule: rev_cases)
    case (snoc ys y)
    then have "evs = before @ x # ys" "snd e \<noteq> Succeeded" "list_all (\<lambda>x. snd x \<noteq> Succeeded) ys" using b by auto
    then show ?thesis using b(2) unfolding believed_revoked_def by blast
  qed (use b in simp)
next
  assume r: "condemns evs e \<or> snd e \<noteq> Succeeded \<and> believed_revoked evs"
  have "condemns evs e \<Longrightarrow> believed_revoked (evs @ [e])"
    unfolding believed_revoked_def by (intro exI [of _ evs] exI [of _ e] exI [of _ "[]"]) simp
  moreover have "believed_revoked (evs @ [e])" if "snd e \<noteq> Succeeded" "believed_revoked evs"
  proof -
    obtain before x after where "evs = before @ x # after" "condemns before x"
      "list_all (\<lambda>x. snd x \<noteq> Succeeded) after" using \<open>believed_revoked evs\<close> by (auto simp: believed_revoked_def)
    then show ?thesis using that unfolding believed_revoked_def
      by (intro exI [of _ before] exI [of _ x] exI [of _ "after @ [e]"]) simp
  qed
  ultimately show "believed_revoked (evs @ [e])" using r by blast
qed

definition revocation_inv :: "(nat \<times> registration_outcome) list \<Rightarrow> revocation \<Rightarrow> bool" where
  "revocation_inv evs r \<longleftrightarrow>
     rv_revoked r = believed_revoked evs
     \<and> (\<forall>i. rv_counts r i = min U32_MAX (ambiguous_run i evs))
     \<and> (\<forall>k < length (rv_log r). rv_log r ! k = (if even k then ToRevoked else ToRestored))
     \<and> rv_revoked r = odd (length (rv_log r))"

lemma revocation_inv_step:
  assumes "revocation_inv evs r"
  shows "revocation_inv (evs @ [(i, outcome)]) (note_outcome i outcome r)"
proof -
  have "min U32_MAX (Suc (min U32_MAX n)) = min U32_MAX (Suc n)" for n by simp
  then show ?thesis using assms
    by (cases outcome)
      (auto simp: revocation_inv_def note_outcome_def apply_outcome_def view_set_def view_clear_def Let_def
        believed_revoked_snoc condemns_def ambiguous_run_snoc AMBIGUOUS_REFUSALS_BEFORE_REVOKED_def U32_MAX_def
        nth_append less_Suc_eq)
qed

lemma revocation_inv_all: "revocation_inv evs (note_all evs)"
proof (induction evs rule: rev_induct)
  case Nil
  show ?case by (simp add: revocation_inv_def note_all_def revocation_start_def believed_revoked_def ambiguous_run_def)
next
  case (snoc e evs)
  then show ?case by (cases e) (simp add: revocation_inv_step)
qed

text \<open>
  C20: who is served on the direct path. After any sequence of registration verdicts in any number of
  loops, a direct client is served exactly when no verdict against the token stands (a definite
  refusal, or the third ambiguous one in a row of one loop, with no accepted registration after it),
  and it presents this tunnel's token, or, only where the token is not required, a payload without
  the tag. Every refusal is reported once.
\<close>

theorem direct_served_iff:
  assumes "length own = 32"
  shows "check_direct_token (Some (with_revocation own require (note_all evs))) payload = (Ok (), lines) \<longleftrightarrow>
     \<not> believed_revoked evs
     \<and> (payload = 1 # own \<and> lines = [] \<or> \<not> require \<and> take 1 payload \<noteq> [1] \<and> lines = [DirectLegacyServed])"
proof -
  have rv: "rv_revoked (note_all evs) = believed_revoked evs"
    using revocation_inv_all by (simp add: revocation_inv_def)
  have "ct_eq rest own \<longleftrightarrow> rest = own" for rest by (simp add: ct_eq_iff)
  then show ?thesis using assms
    by (cases payload)
      (auto simp: check_direct_token_def with_revocation_def rv decide_direct_def is_refusal_def Let_def
        parse_direct_handshake_payload_def DIRECT_HS_PAYLOAD_TOKEN_V1_def DIRECT_HS_PAYLOAD_TOKEN_V1_LEN_def
        routing_token_eq_ct_def)
qed

text \<open>A definite refusal, and then the right token: refused; after an accepted registration: served.\<close>

theorem direct_served_iff_witness:
  "fst (check_direct_token (Some (with_revocation (replicate 32 7) True (note_all [(0, RefusedDefinitive), (1, Transient)])))
     (1 # replicate 32 7)) \<noteq> Ok ()
   \<and> check_direct_token (Some (with_revocation (replicate 32 7) True (note_all [(0, RefusedDefinitive), (1, Succeeded)])))
     (1 # replicate 32 7) = (Ok (), [])"
proof -
  have b: "believed_revoked [(0, RefusedDefinitive), (1, Transient)]"
    "\<not> believed_revoked [(0, RefusedDefinitive), (1, Succeeded)]"
    using believed_revoked_snoc [of "[(0, RefusedDefinitive)]" "(1, Transient)"]
      believed_revoked_snoc [of "[(0, RefusedDefinitive)]" "(1, Succeeded)"]
      believed_revoked_snoc [of "[]" "(0, RefusedDefinitive)"]
    by (simp_all add: condemns_def)
  have "check_direct_token (Some (with_revocation (replicate 32 7) True (note_all [(0, RefusedDefinitive), (1, Transient)])))
      (1 # replicate 32 7) \<noteq> (Ok (), lines)" for lines
    using direct_served_iff [of "replicate 32 7" True _ "1 # replicate 32 7" lines] b(1) by fastforce
  moreover have "check_direct_token (Some (with_revocation (replicate 32 7) True (note_all [(0, RefusedDefinitive), (1, Succeeded)])))
      (1 # replicate 32 7) = (Ok (), [])"
    using direct_served_iff [of "replicate 32 7" True _ "1 # replicate 32 7" "[]"] b(2) by simp
  ultimately show ?thesis by (metis prod.collapse)
qed

text \<open>
  The log. Whatever the registration loops report, the lines alternate between revoked and
  restored, starting with revoked, and the last one says what is believed.
\<close>

theorem revocation_log_alternates:
  "rv_log (note_all evs) = map (\<lambda>k. if even k then ToRevoked else ToRestored) [0..<length (rv_log (note_all evs))]
   \<and> (odd (length (rv_log (note_all evs))) \<longleftrightarrow> believed_revoked evs)"
proof
  show "rv_log (note_all evs) = map (\<lambda>k. if even k then ToRevoked else ToRestored) [0..<length (rv_log (note_all evs))]"
    using revocation_inv_all [of evs] by (intro nth_equalityI) (auto simp: revocation_inv_def)
qed (use revocation_inv_all [of evs] in \<open>auto simp: revocation_inv_def\<close>)

end
