(* ===== verification/TcpFallback.thy ===== *)
theory TcpFallback
  imports DirectToken Reconnect Net
begin

text \<open>
  The TLS-TCP fallback of a tunnel (\<^verbatim>\<open>serve.rs\<close>): the reconnect settings, the reprobe policy, one
  attempt to register and serve, the loop of a pool worker, and the pool. An attempt is a function of
  what its dials, registrations and the relay give; the worker of what its turns meet; the pool is a
  step relation over the branches of its select loop and what its workers do meanwhile.
\<close>

section \<open>Settings\<close>

definition RECONNECT_BASE :: duration where "RECONNECT_BASE = millis 500"
definition RECONNECT_MAX :: duration where "RECONNECT_MAX = secs 30"
definition RECONNECT_BASE_FLOOR :: duration where "RECONNECT_BASE_FLOOR = millis 100"
definition RECONNECT_MAX_ATTEMPTS :: nat where "RECONNECT_MAX_ATTEMPTS = U32_MAX"

definition parse_millis :: "string option \<Rightarrow> duration option" where
  "parse_millis raw =
     (case raw of None \<Rightarrow> None | Some s \<Rightarrow> map_option millis (parse_uint (Suc U64_MAX) (trim s)))"

definition parse_reconnect_backoff_bounds :: "string option \<Rightarrow> string option \<Rightarrow> duration \<times> duration" where
  "parse_reconnect_backoff_bounds base_raw max_raw =
     (let base = (case parse_millis base_raw of Some d \<Rightarrow> max d RECONNECT_BASE_FLOOR | None \<Rightarrow> RECONNECT_BASE);
          m = max (case parse_millis max_raw of Some d \<Rightarrow> d | None \<Rightarrow> RECONNECT_MAX) base in
      (base, m))"

definition parse_reconnect_max_attempts :: "string option \<Rightarrow> nat" where
  "parse_reconnect_max_attempts raw =
     (case (case raw of None \<Rightarrow> None | Some s \<Rightarrow> parse_uint (Suc U32_MAX) (trim s)) of
        Some n \<Rightarrow> if n = 0 then U32_MAX else n
      | None \<Rightarrow> RECONNECT_MAX_ATTEMPTS)"

record fallback_budget =
  fb_base :: duration
  fb_max :: duration
  fb_attempts :: nat

definition budget_from_env :: "(string \<Rightarrow> string option) \<Rightarrow> fallback_budget" where
  "budget_from_env env =
     (let (b, m) = parse_reconnect_backoff_bounds (env ''CT_AGENT_RECONNECT_BASE_MS'') (env ''CT_AGENT_RECONNECT_MAX_MS'') in
      \<lparr>fb_base = b, fb_max = m, fb_attempts = parse_reconnect_max_attempts (env ''CT_AGENT_RECONNECT_MAX_ATTEMPTS'')\<rparr>)"

section \<open>The reprobe policy\<close>

definition QUIC_REPROBE_INTERVAL :: duration where "QUIC_REPROBE_INTERVAL = secs 30"
definition QUIC_STABLE_AFTER :: duration where "QUIC_STABLE_AFTER = secs 120"
definition QUIC_REPROBE_MAX_DOUBLINGS :: nat where "QUIC_REPROBE_MAX_DOUBLINGS = 4"

record reprobe_policy =
  rp_interval :: duration
  rp_confirmations :: nat

definition reprobe_policy_after :: "nat \<Rightarrow> reprobe_policy" where
  "reprobe_policy_after flaps =
     \<lparr>rp_interval = QUIC_REPROBE_INTERVAL * 2 ^ min flaps QUIC_REPROBE_MAX_DOUBLINGS,
      rp_confirmations = (if flaps = 0 then 1 else 2)\<rparr>"

definition next_quic_flaps :: "nat \<Rightarrow> duration \<Rightarrow> nat" where
  "next_quic_flaps flaps session = (if session < QUIC_STABLE_AFTER then min U32_MAX (flaps + 1) else 0)"

section \<open>One attempt\<close>

datatype tcp_served = Consumed | Plain

datatype tcp_attempt_end =
    NotRegistered string
  | Registered duration bool string

text \<open>A registration on a stream: accepted, refused by the edge's \<^verbatim>\<open>NO\<close>, or failed some other way.\<close>

datatype reg_answer = RegAccepted | RegRefused | RegFailed

definition reg_outcome :: "reg_answer \<Rightarrow> registration_outcome" where
  "reg_outcome a = classify_failure (a = RegRefused) False"

text \<open>
  What an attempt meets: whether its first, second and third dial connect, the answers to the
  registrations it may send (\<^verbatim>\<open>F\<close>, \<^verbatim>\<open>L\<close>, \<^verbatim>\<open>B\<close>, \<^verbatim>\<open>K\<close>, \<^verbatim>\<open>A\<close>), how the park phase and the relay end, and how
  long after the registration the attempt ended.
\<close>

record attempt_io =
  dials :: "bool list"
  ans_F :: reg_answer
  ans_L :: reg_answer
  ans_B :: reg_answer
  ans_K :: reg_answer
  ans_A :: reg_answer
  park_ends_ok :: bool
  relay_ends_ok :: bool
  ended_after :: duration

record attempt_cfg =
  browser_host :: bool
  framed_fallback :: bool
  has_terminator :: bool

record attempt_out =
  at_result :: "tcp_attempt_end + tcp_served"
  at_verdict :: "registration_outcome option"
  at_fired :: bool

definition at_fail :: "registration_outcome option \<Rightarrow> string \<Rightarrow> attempt_out" where
  "at_fail v why = \<lparr>at_result = Err (NotRegistered why), at_verdict = v, at_fired = False\<rparr>"

text \<open>After an accepted registration: the park phase (with pings or without), then the relay.\<close>

definition serve_registered :: "attempt_io \<Rightarrow> bool \<Rightarrow> bool \<Rightarrow> attempt_out" where
  "serve_registered w pings waits =
     (if (pings \<or> waits) \<and> \<not> park_ends_ok w
      then \<lparr>at_result = Err (Registered (ended_after w) False ''park''), at_verdict = Some Succeeded, at_fired = False\<rparr>
      else \<lparr>at_result = (if relay_ends_ok w then Ok (if pings then Consumed else Plain)
                         else Err (Registered (ended_after w) pings ''relay'')),
            at_verdict = Some Succeeded, at_fired = pings\<rparr>)"

text \<open>
  The last rung of either path: a plain registration on a fresh connection, whose verdict counts. The
  browser path does not wait for a first byte; the Noise path does.
\<close>

definition plain_rung :: "attempt_io \<Rightarrow> bool \<Rightarrow> reg_answer \<Rightarrow> bool \<Rightarrow> attempt_out" where
  "plain_rung w dial_ok a waits =
     (if \<not> dial_ok then at_fail None ''dial''
      else if a \<noteq> RegAccepted then at_fail (Some (reg_outcome a)) ''registration''
      else serve_registered w False waits)"

definition dial_ok :: "attempt_io \<Rightarrow> nat \<Rightarrow> bool" where
  "dial_ok w k = (k < length (dials w) \<and> dials w ! k)"

definition tcp_connect_register_serve :: "attempt_cfg \<Rightarrow> attempt_io \<Rightarrow> attempt_out" where
  "tcp_connect_register_serve cfg w =
     (if \<not> dial_ok w 0 then at_fail None ''dial''
      else if browser_host cfg then
        (let try_framed = framed_fallback cfg \<and> \<not> has_terminator cfg; framed = try_framed \<and> ans_F w = RegAccepted in
         if framed then serve_registered w True False
         else if try_framed \<and> \<not> dial_ok w 1 then at_fail None ''dial''
         else if ans_L w = RegAccepted then serve_registered w True False
         else plain_rung w (dial_ok w (if try_framed then 2 else 1)) (ans_B w) False)
      else if ans_K w = RegAccepted then serve_registered w True False
      else plain_rung w (dial_ok w 1) (ans_A w) True)"

text \<open>
  The three results of an attempt agree: the pool is told exactly when a client was relayed, the
  registration is reported as accepted exactly when the edge accepted one, and a refusal on this path
  is never more than an ambiguous one.
\<close>

lemma attempt_consistent:
  "at_fired (tcp_connect_register_serve cfg w) \<longleftrightarrow>
     at_result (tcp_connect_register_serve cfg w) = Ok Consumed
     \<or> (\<exists>d why. at_result (tcp_connect_register_serve cfg w) = Err (Registered d True why))"
  "at_verdict (tcp_connect_register_serve cfg w) = Some Succeeded \<longleftrightarrow>
     (\<nexists>why. at_result (tcp_connect_register_serve cfg w) = Err (NotRegistered why))"
  "at_verdict (tcp_connect_register_serve cfg w) \<noteq> Some RefusedDefinitive"
  by (auto simp: tcp_connect_register_serve_def plain_rung_def serve_registered_def at_fail_def reg_outcome_def
      classify_failure_def Let_def)

section \<open>A worker\<close>

definition SHORT_REGISTRATION :: duration where "SHORT_REGISTRATION = secs 2"
definition SHORT_REGISTRATION_STRIKES :: nat where "SHORT_REGISTRATION_STRIKES = 3"
definition SHORT_REGISTRATION_PAUSE :: duration where "SHORT_REGISTRATION_PAUSE = millis 500"

record worker =
  wk_backoff :: backoff
  wk_short :: nat

definition worker_start :: "fallback_budget \<Rightarrow> worker" where
  "worker_start b = \<lparr>wk_backoff = backoff_new (fb_base b) (fb_max b) (fb_attempts b), wk_short = 0\<rparr>"

text \<open>How the walk over the rungs of one turn ends: the first rung that registers decides.\<close>

datatype walk_end = WalkDone | WalkServedPlain | WalkParkEnded duration | WalkAllFailed

fun walk_rungs :: "(tcp_attempt_end + tcp_served) list \<Rightarrow> walk_end" where
  "walk_rungs [] = WalkAllFailed"
| "walk_rungs (r # rs) =
     (case r of
        Inr Consumed \<Rightarrow> WalkDone
      | Inr Plain \<Rightarrow> WalkServedPlain
      | Inl (Registered d True _) \<Rightarrow> WalkDone
      | Inl (Registered d False _) \<Rightarrow> WalkParkEnded d
      | Inl (NotRegistered _) \<Rightarrow> walk_rungs rs)"

datatype worker_next = WorkerAgain duration worker | WorkerDone | WorkerGaveUp

definition worker_paces :: "real \<Rightarrow> worker \<Rightarrow> worker_next" where
  "worker_paces rnd k =
     (case next_delay_jittered rnd (wk_backoff k) of
        (Some d, b) \<Rightarrow> WorkerAgain d (k\<lparr>wk_backoff := b\<rparr>)
      | (None, b) \<Rightarrow> WorkerGaveUp)"

definition worker_turn :: "real \<Rightarrow> (tcp_attempt_end + tcp_served) list \<Rightarrow> worker \<Rightarrow> worker_next" where
  "worker_turn rnd rungs k =
     (case walk_rungs rungs of
        WalkDone \<Rightarrow> WorkerDone
      | WalkServedPlain \<Rightarrow> WorkerAgain 0 (k\<lparr>wk_backoff := backoff_reset (wk_backoff k), wk_short := 0\<rparr>)
      | WalkParkEnded d \<Rightarrow>
          if SHORT_REGISTRATION \<le> d
          then WorkerAgain 0 (k\<lparr>wk_backoff := backoff_reset (wk_backoff k), wk_short := 0\<rparr>)
          else (let k' = k\<lparr>wk_short := wk_short k + 1\<rparr> in
            if wk_short k' < SHORT_REGISTRATION_STRIKES then WorkerAgain SHORT_REGISTRATION_PAUSE k'
            else worker_paces rnd k')
      | WalkAllFailed \<Rightarrow> worker_paces rnd k)"

text \<open>\<^verbatim>\<open>run_agent_tcp_fallback_worker\<close> over its turns: its waits, and how it returned if it did.\<close>

fun run_worker ::
  "(real \<times> (tcp_attempt_end + tcp_served) list) list \<Rightarrow> worker \<Rightarrow> duration list \<times> (unit + unit) option" where
  "run_worker [] k = ([], None)"
| "run_worker ((rnd, rungs) # ts) k =
     (case worker_turn rnd rungs k of
        WorkerDone \<Rightarrow> ([], Some (Ok ()))
      | WorkerGaveUp \<Rightarrow> ([], Some (Err ()))
      | WorkerAgain d k' \<Rightarrow> (let (ds, e) = run_worker ts k' in (d # ds, e)))"

section \<open>The pool\<close>

datatype worker_result = WorkerOk | WorkerErr | WorkerPanicked
datatype fallback_exit = QuicRecovered | AllWorkersGaveUp
datatype reprobe_outcome = Unanswered | Answered | QuicRegistered | RegisterFailed

record pool_cfg =
  pc_size :: nat
  pc_max_serving :: nat
  pc_reprobe :: "reprobe_policy option"

definition pool_n :: "pool_cfg \<Rightarrow> nat" where "pool_n c = max (pc_size c) 1"
definition pool_ms :: "pool_cfg \<Rightarrow> nat" where "pool_ms c = max (pc_max_serving c) 1"

text \<open>
  The pool's state: the workers not yet joined, those known to relay a client, the signals in the
  channel, the workers that have finished and are not joined, and the probe in flight (whether it is
  to register). \<open>pl_fired\<close> and \<open>pl_probes\<close> record what happened: the workers that signalled, and whether
  each probe so far held.
\<close>

record pool =
  pl_handles :: "nat list"
  pl_serving :: "nat list"
  pl_next_id :: nat
  pl_given_up :: nat
  pl_queue :: "nat list"
  pl_finished :: "(nat \<times> worker_result) list"
  pl_streak :: nat
  pl_probe :: "bool option"
  pl_exit :: "fallback_exit option"
  pl_aborted :: "nat list"
  pl_fired :: "nat list"
  pl_probes :: "bool list"

function top_up :: "pool_cfg \<Rightarrow> pool \<Rightarrow> pool" where
  "top_up c s =
     (let target = pool_n c - pl_given_up s in
      if length (pl_handles s) - length (pl_serving s) < target \<and> length (pl_handles s) < target + pool_ms c
      then top_up c (s\<lparr>pl_handles := pl_handles s @ [pl_next_id s], pl_next_id := pl_next_id s + 1\<rparr>)
      else s)"
  by pat_completeness auto
termination
  by (relation "measure (\<lambda>(c, s). pool_n c - pl_given_up s + pool_ms c - length (pl_handles s))") auto

declare top_up.simps [simp del]

definition pool_start :: "pool_cfg \<Rightarrow> pool" where
  "pool_start c = top_up c \<lparr>pl_handles = [], pl_serving = [], pl_next_id = 0, pl_given_up = 0, pl_queue = [],
     pl_finished = [], pl_streak = 0, pl_probe = None, pl_exit = None, pl_aborted = [], pl_fired = [], pl_probes = []\<rparr>"

definition mark_serving :: "nat \<Rightarrow> pool \<Rightarrow> pool" where
  "mark_serving w s =
     (if w \<in> set (pl_handles s) \<and> w \<notin> set (pl_serving s) then s\<lparr>pl_serving := pl_serving s @ [w]\<rparr> else s)"

definition drain_consumed :: "pool \<Rightarrow> pool" where
  "drain_consumed s = (fold mark_serving (pl_queue s) s)\<lparr>pl_queue := []\<rparr>"

text \<open>A worker is joined: a panic carries no id, so every finished handle goes.\<close>

definition worker_joined :: "nat \<Rightarrow> worker_result \<Rightarrow> pool \<Rightarrow> pool" where
  "worker_joined w res s0 =
     (let s = drain_consumed s0; rest = removeAll (w, res) (pl_finished s) in
      case res of
        WorkerPanicked \<Rightarrow>
          (let hs = filter (\<lambda>h. h \<notin> fst ` set (pl_finished s)) (pl_handles s) in
           s\<lparr>pl_given_up := pl_given_up s + 1, pl_handles := hs,
             pl_serving := filter (\<lambda>h. h \<in> set hs) (pl_serving s), pl_finished := rest\<rparr>)
      | _ \<Rightarrow>
          s\<lparr>pl_serving := removeAll w (pl_serving s), pl_handles := removeAll w (pl_handles s),
            pl_given_up := pl_given_up s + (if res = WorkerErr then 1 else 0), pl_finished := rest\<rparr>)"

definition probe_launch :: "reprobe_policy \<Rightarrow> pool \<Rightarrow> pool" where
  "probe_launch p s = s\<lparr>pl_probe := Some (rp_confirmations p \<le> pl_streak s + 1)\<rparr>"

text \<open>The outcome of a probe; a registration over it ends the pool and aborts the parked workers.\<close>

definition probe_ended :: "reprobe_outcome \<Rightarrow> pool \<Rightarrow> pool" where
  "probe_ended x s0 =
     (let s = s0\<lparr>pl_probe := None, pl_probes := pl_probes s0 @ [x \<in> {Answered, QuicRegistered}]\<rparr> in
      case x of
        Answered \<Rightarrow> s\<lparr>pl_streak := pl_streak s + 1\<rparr>
      | QuicRegistered \<Rightarrow>
          (let d = drain_consumed s in
           d\<lparr>pl_aborted := filter (\<lambda>h. h \<notin> set (pl_serving d)) (pl_handles d), pl_exit := Some QuicRecovered\<rparr>)
      | _ \<Rightarrow> s\<lparr>pl_streak := 0\<rparr>)"

inductive pool_step :: "pool_cfg \<Rightarrow> pool \<Rightarrow> pool \<Rightarrow> bool" for c where
  worker_fires: "pl_exit s = None \<Longrightarrow> w \<in> set (pl_handles s) \<Longrightarrow> w \<notin> fst ` set (pl_finished s) \<Longrightarrow>
     w \<notin> set (pl_fired s) \<Longrightarrow>
     pool_step c s (s\<lparr>pl_queue := pl_queue s @ [w], pl_fired := pl_fired s @ [w]\<rparr>)"
| worker_finishes: "pl_exit s = None \<Longrightarrow> w \<in> set (pl_handles s) \<Longrightarrow> w \<notin> fst ` set (pl_finished s) \<Longrightarrow>
     pool_step c s (s\<lparr>pl_finished := pl_finished s @ [(w, res)]\<rparr>)"
| gave_up: "pl_exit s = None \<Longrightarrow> pl_handles s = [] \<Longrightarrow>
     pool_step c s (s\<lparr>pl_exit := Some AllWorkersGaveUp\<rparr>)"
| join_next: "pl_exit s = None \<Longrightarrow> pl_handles s \<noteq> [] \<Longrightarrow> (w, res) \<in> set (pl_finished s) \<Longrightarrow>
     pool_step c s (top_up c (worker_joined w res s))"
| consumed_recv: "pl_exit s = None \<Longrightarrow> pl_handles s \<noteq> [] \<Longrightarrow> pl_queue s = w # q \<Longrightarrow>
     pool_step c s (top_up c (mark_serving w (s\<lparr>pl_queue := q\<rparr>)))"
| reprobe_due: "pl_exit s = None \<Longrightarrow> pl_handles s \<noteq> [] \<Longrightarrow> pc_reprobe c = Some p \<Longrightarrow> pl_probe s = None \<Longrightarrow>
     pool_step c s (probe_launch p s)"
| probe_outcome: "pl_exit s = None \<Longrightarrow> pl_handles s \<noteq> [] \<Longrightarrow> pl_probe s = Some register \<Longrightarrow>
     (x \<in> {QuicRegistered, RegisterFailed} \<Longrightarrow> register) \<Longrightarrow> (x = Answered \<Longrightarrow> \<not> register) \<Longrightarrow>
     pool_step c s (probe_ended x s)"

definition pool_reachable :: "pool_cfg \<Rightarrow> pool \<Rightarrow> bool" where
  "pool_reachable c s = (pool_step c)\<^sup>*\<^sup>* (pool_start c) s"

section \<open>Properties of the pool\<close>

text \<open>Every worker that signalled is still in the channel, known to relay, or joined.\<close>

definition members_inv :: "pool \<Rightarrow> bool" where
  "members_inv s \<longleftrightarrow>
     distinct (pl_handles s) \<and> distinct (pl_serving s) \<and> set (pl_serving s) \<subseteq> set (pl_handles s)
     \<and> (\<forall>w \<in> set (pl_handles s). w < pl_next_id s)
     \<and> (\<forall>w \<in> set (pl_fired s). w \<in> set (pl_handles s) \<longrightarrow> w \<in> set (pl_queue s) \<union> set (pl_serving s))
     \<and> (\<forall>w \<in> set (pl_fired s). w < pl_next_id s)"

definition bounds_inv :: "pool_cfg \<Rightarrow> pool \<Rightarrow> bool" where
  "bounds_inv c s \<longleftrightarrow>
     length (pl_handles s) - length (pl_serving s) \<le> pool_n c
     \<and> length (pl_handles s) \<le> pool_n c + pool_ms c"

definition refilled :: "pool_cfg \<Rightarrow> pool \<Rightarrow> bool" where
  "refilled c s \<longleftrightarrow>
     pool_n c - pl_given_up s \<le> length (pl_handles s) - length (pl_serving s)
     \<or> pool_n c - pl_given_up s + pool_ms c \<le> length (pl_handles s)"

definition probe_inv :: "pool_cfg \<Rightarrow> pool \<Rightarrow> bool" where
  "probe_inv c s \<longleftrightarrow>
     pl_streak s = length (takeWhile (\<lambda>b. b) (rev (pl_probes s)))
     \<and> (\<forall>r. pl_probe s = Some r \<longrightarrow> (\<exists>p. pc_reprobe c = Some p \<and> r = (rp_confirmations p \<le> pl_streak s + 1)))"

lemma members_spawn:
  "members_inv s \<Longrightarrow> members_inv (s\<lparr>pl_handles := pl_handles s @ [pl_next_id s], pl_next_id := pl_next_id s + 1\<rparr>)"
  by (auto simp: members_inv_def less_Suc_eq)

lemma top_up_inv:
  "members_inv s \<Longrightarrow> bounds_inv c s \<Longrightarrow>
     members_inv (top_up c s) \<and> bounds_inv c (top_up c s) \<and> refilled c (top_up c s)
     \<and> pl_streak (top_up c s) = pl_streak s \<and> pl_probes (top_up c s) = pl_probes s
     \<and> pl_probe (top_up c s) = pl_probe s \<and> pl_exit (top_up c s) = pl_exit s
     \<and> pl_given_up (top_up c s) = pl_given_up s \<and> pl_aborted (top_up c s) = pl_aborted s"
proof (induction c s rule: top_up.induct)
  case (1 c s)
  show ?case
  proof (cases "length (pl_handles s) - length (pl_serving s) < pool_n c - pl_given_up s
      \<and> length (pl_handles s) < pool_n c - pl_given_up s + pool_ms c")
    case True
    then have "bounds_inv c (s\<lparr>pl_handles := pl_handles s @ [pl_next_id s], pl_next_id := pl_next_id s + 1\<rparr>)"
      using 1(3) by (auto simp: bounds_inv_def)
    then show ?thesis using 1(1) [OF refl True] members_spawn [OF 1(2)] True
      by (subst (1 2 3 4 5 6 7 8 9) top_up.simps) simp
  next
    case False
    then show ?thesis using 1(2,3) by (auto simp: top_up.simps [of c s] Let_def refilled_def)
  qed
qed

lemma parked_card:
  assumes "distinct hs" and "distinct sv" and "set sv \<subseteq> set hs"
  shows "length hs - length sv = card (set hs - set sv)"
  using assms by (simp add: card_Diff_subset distinct_card)

text \<open>Fewer handles, of which at least as many are not parked: the bounds stay.\<close>

lemma bounds_smaller:
  assumes "members_inv s" and "bounds_inv c s" and "members_inv s'"
    and "set (pl_handles s') \<subseteq> set (pl_handles s)"
    and "set (pl_handles s') - set (pl_serving s') \<subseteq> set (pl_handles s) - set (pl_serving s)"
  shows "bounds_inv c s'"
proof -
  have "length (pl_handles s') \<le> length (pl_handles s)"
    using assms(1,3,4) card_mono [of "set (pl_handles s)" "set (pl_handles s')"] by (auto simp: members_inv_def distinct_card)
  moreover have "length (pl_handles s') - length (pl_serving s') \<le> length (pl_handles s) - length (pl_serving s)"
    using assms(1,3) card_mono [OF _ assms(5)] by (simp add: parked_card members_inv_def)
  ultimately show ?thesis using assms(2) by (auto simp: bounds_inv_def)
qed

lemma fold_mark:
  "\<exists>sv. fold mark_serving q s = s\<lparr>pl_serving := sv\<rparr>
     \<and> set sv = set (pl_serving s) \<union> (set q \<inter> set (pl_handles s)) \<and> (distinct (pl_serving s) \<longrightarrow> distinct sv)"
proof (induction q arbitrary: s)
  case Nil
  show ?case by (intro exI [of _ "pl_serving s"]) simp
next
  case (Cons w q)
  define t where "t = mark_serving w s"
  have t: "\<exists>x. t = s\<lparr>pl_serving := x\<rparr> \<and> set x = set (pl_serving s) \<union> ({w} \<inter> set (pl_handles s))
      \<and> (distinct (pl_serving s) \<longrightarrow> distinct x)"
    by (cases "w \<in> set (pl_handles s) \<and> w \<notin> set (pl_serving s)")
      (auto simp: t_def mark_serving_def intro: exI [of _ "pl_serving s"])
  then obtain x where x: "t = s\<lparr>pl_serving := x\<rparr>" "set x = set (pl_serving s) \<union> ({w} \<inter> set (pl_handles s))"
    "distinct (pl_serving s) \<longrightarrow> distinct x" by blast
  obtain sv where "fold mark_serving q t = t\<lparr>pl_serving := sv\<rparr>"
    "set sv = set (pl_serving t) \<union> (set q \<inter> set (pl_handles t))" "distinct (pl_serving t) \<longrightarrow> distinct sv"
    using Cons [of t] by blast
  then show ?case using x t_def by (intro exI [of _ sv]) auto
qed

lemma drain_consumed_eq:
  "\<exists>sv. drain_consumed s = s\<lparr>pl_serving := sv, pl_queue := []\<rparr>
     \<and> set sv = set (pl_serving s) \<union> (set (pl_queue s) \<inter> set (pl_handles s))
     \<and> (distinct (pl_serving s) \<longrightarrow> distinct sv)"
  using fold_mark [of "pl_queue s" s] by (auto simp: drain_consumed_def)

lemma drain_members:
  assumes "members_inv s"
  shows "members_inv (drain_consumed s) \<and> pl_queue (drain_consumed s) = []"
  using drain_consumed_eq [of s] assms by (auto simp: members_inv_def)

lemma drain_fields:
  "pl_handles (drain_consumed s) = pl_handles s" "set (pl_serving s) \<subseteq> set (pl_serving (drain_consumed s))"
  "pl_finished (drain_consumed s) = pl_finished s" "pl_streak (drain_consumed s) = pl_streak s"
  "pl_probe (drain_consumed s) = pl_probe s" "pl_probes (drain_consumed s) = pl_probes s"
  "pl_exit (drain_consumed s) = pl_exit s" "pl_given_up (drain_consumed s) = pl_given_up s"
  "pl_fired (drain_consumed s) = pl_fired s" "pl_next_id (drain_consumed s) = pl_next_id s"
  "pl_aborted (drain_consumed s) = pl_aborted s"
  using drain_consumed_eq [of s] by auto

lemma joined_members:
  assumes "members_inv s"
  shows "members_inv (worker_joined w res s)"
proof -
  have "members_inv (drain_consumed s)" "pl_queue (drain_consumed s) = []" using drain_members [OF assms] by auto
  then show ?thesis
    by (cases res) (auto simp: members_inv_def worker_joined_def Let_def distinct_removeAll)
qed

lemma joined_fields [simp]:
  "pl_streak (worker_joined w res s) = pl_streak s" "pl_probe (worker_joined w res s) = pl_probe s"
  "pl_probes (worker_joined w res s) = pl_probes s" "pl_exit (worker_joined w res s) = pl_exit s"
  "pl_aborted (worker_joined w res s) = pl_aborted s"
  by (cases res; simp add: worker_joined_def Let_def drain_fields)+

lemma joined_bounds:
  assumes "members_inv s" and "bounds_inv c s"
  shows "bounds_inv c (worker_joined w res s)"
proof (rule bounds_smaller [OF assms joined_members [OF assms(1)]])
  show "set (pl_handles (worker_joined w res s)) \<subseteq> set (pl_handles s)"
    by (cases res) (auto simp: worker_joined_def Let_def drain_fields)
  show "set (pl_handles (worker_joined w res s)) - set (pl_serving (worker_joined w res s))
      \<subseteq> set (pl_handles s) - set (pl_serving s)"
    using drain_fields(2) [of s] by (cases res) (auto simp: worker_joined_def Let_def drain_fields(1,3))
qed

lemma mark_members:
  assumes "members_inv s" and "pl_queue s = w # q"
  shows "members_inv (mark_serving w (s\<lparr>pl_queue := q\<rparr>))"
  using assms by (auto simp: members_inv_def mark_serving_def)

lemma mark_fields [simp]:
  "pl_streak (mark_serving w s) = pl_streak s" "pl_probe (mark_serving w s) = pl_probe s"
  "pl_probes (mark_serving w s) = pl_probes s" "pl_exit (mark_serving w s) = pl_exit s"
  "pl_aborted (mark_serving w s) = pl_aborted s" "pl_handles (mark_serving w s) = pl_handles s"
  by (simp_all add: mark_serving_def)

definition pool_inv :: "pool_cfg \<Rightarrow> pool \<Rightarrow> bool" where
  "pool_inv c s \<longleftrightarrow> members_inv s \<and> bounds_inv c s
     \<and> (pl_exit s \<noteq> Some QuicRecovered \<longrightarrow> refilled c s \<and> probe_inv c s)
     \<and> (pl_exit s = Some AllWorkersGaveUp \<longrightarrow> pool_n c \<le> pl_given_up s)
     \<and> (pl_exit s = Some QuicRecovered \<longrightarrow>
          (\<exists>p. pc_reprobe c = Some p \<and> rp_confirmations p \<le> length (takeWhile (\<lambda>b. b) (rev (pl_probes s))))
          \<and> set (pl_aborted s) = set (pl_handles s) - set (pl_serving s)
          \<and> set (pl_aborted s) \<inter> set (pl_fired s) = {})"

lemma top_up_pool_inv:
  assumes "members_inv s" and "bounds_inv c s" and "probe_inv c s" and "pl_exit s = None"
  shows "pool_inv c (top_up c s)"
  using top_up_inv [OF assms(1,2)] assms(3,4) by (auto simp: pool_inv_def probe_inv_def)

lemma refilled_empty: "refilled c s \<Longrightarrow> pl_handles s = [] \<Longrightarrow> pool_n c \<le> pl_given_up s"
  by (auto simp: refilled_def pool_ms_def)

lemma handover_inv:
  assumes "pool_inv c s" and "pl_probe s = Some True" and "pl_exit s = None"
  shows "pool_inv c (probe_ended QuicRegistered s)"
proof -
  define t where "t = s\<lparr>pl_probe := None, pl_probes := pl_probes s @ [True]\<rparr>"
  have t: "members_inv t" "bounds_inv c t" using assms(1) by (simp_all add: t_def pool_inv_def members_inv_def bounds_inv_def)
  note d = drain_members [OF t(1)]
  have b: "bounds_inv c (drain_consumed t)"
    by (rule bounds_smaller [OF t]) (use d drain_fields [of t] in auto)
  have "set (pl_fired t) \<inter> (set (pl_handles t) - set (pl_serving (drain_consumed t))) = {}"
    using d by (auto simp: members_inv_def drain_fields)
  then show ?thesis using d b assms
    by (auto simp: probe_ended_def Let_def pool_inv_def probe_inv_def members_inv_def bounds_inv_def drain_fields t_def)
qed

lemma inv_other_fields [simp]:
  "members_inv (s\<lparr>pl_exit := e\<rparr>) = members_inv s" "bounds_inv c (s\<lparr>pl_exit := e\<rparr>) = bounds_inv c s"
  "refilled c (s\<lparr>pl_exit := e\<rparr>) = refilled c s" "probe_inv c (s\<lparr>pl_exit := e\<rparr>) = probe_inv c s"
  "members_inv (s\<lparr>pl_finished := f\<rparr>) = members_inv s" "bounds_inv c (s\<lparr>pl_finished := f\<rparr>) = bounds_inv c s"
  "refilled c (s\<lparr>pl_finished := f\<rparr>) = refilled c s" "probe_inv c (s\<lparr>pl_finished := f\<rparr>) = probe_inv c s"
  "members_inv (s\<lparr>pl_probe := p\<rparr>) = members_inv s" "bounds_inv c (s\<lparr>pl_probe := p\<rparr>) = bounds_inv c s"
  "refilled c (s\<lparr>pl_probe := p\<rparr>) = refilled c s"
  "members_inv (s\<lparr>pl_probes := b\<rparr>) = members_inv s" "bounds_inv c (s\<lparr>pl_probes := b\<rparr>) = bounds_inv c s"
  "refilled c (s\<lparr>pl_probes := b\<rparr>) = refilled c s"
  "members_inv (s\<lparr>pl_streak := k\<rparr>) = members_inv s" "bounds_inv c (s\<lparr>pl_streak := k\<rparr>) = bounds_inv c s"
  "refilled c (s\<lparr>pl_streak := k\<rparr>) = refilled c s"
  "bounds_inv c (s\<lparr>pl_queue := q, pl_fired := fs\<rparr>) = bounds_inv c s"
  "refilled c (s\<lparr>pl_queue := q, pl_fired := fs\<rparr>) = refilled c s"
  "probe_inv c (s\<lparr>pl_queue := q, pl_fired := fs\<rparr>) = probe_inv c s"
  by (simp_all add: members_inv_def bounds_inv_def refilled_def probe_inv_def)

lemma pool_step_inv: "pool_step c s s' \<Longrightarrow> pool_inv c s \<Longrightarrow> pool_inv c s'"
proof (induction rule: pool_step.induct)
  case (worker_fires s w)
  then have "members_inv (s\<lparr>pl_queue := pl_queue s @ [w], pl_fired := pl_fired s @ [w]\<rparr>)"
    by (auto simp: pool_inv_def members_inv_def)
  then show ?case using worker_fires by (simp add: pool_inv_def)
next
  case (worker_finishes s w res)
  then show ?case by (simp add: pool_inv_def)
next
  case (gave_up s)
  then show ?case using refilled_empty [of c s] by (simp add: pool_inv_def)
next
  case (join_next s w res)
  then show ?case using joined_members [of s] joined_bounds [of s c]
    by (intro top_up_pool_inv) (auto simp: pool_inv_def probe_inv_def)
next
  case (consumed_recv s w q)
  then have inv: "members_inv s" "bounds_inv c s" by (auto simp: pool_inv_def)
  note m = mark_members [OF inv(1) consumed_recv(3)]
  have "bounds_inv c (mark_serving w (s\<lparr>pl_queue := q\<rparr>))"
    by (rule bounds_smaller [OF inv m]) (auto simp: mark_serving_def)
  then show ?case using consumed_recv m by (intro top_up_pool_inv) (auto simp: pool_inv_def probe_inv_def)
next
  case (reprobe_due s p)
  then show ?case by (simp add: pool_inv_def probe_inv_def probe_launch_def)
next
  case (probe_outcome s register x)
  show ?case
  proof (cases "x = QuicRegistered")
    case True
    then show ?thesis using handover_inv probe_outcome by auto
  next
    case False
    then show ?thesis using probe_outcome
      by (cases x) (simp_all add: pool_inv_def probe_inv_def probe_ended_def Let_def)
  qed
qed

lemma pool_reachable_inv: "pool_reachable c s \<Longrightarrow> pool_inv c s"
  unfolding pool_reachable_def
proof (induction rule: rtranclp_induct)
  case base
  show ?case unfolding pool_start_def
    by (rule top_up_pool_inv) (simp_all add: members_inv_def bounds_inv_def probe_inv_def)
qed (blast intro: pool_step_inv)

text \<open>
  C21: the fallback pool's size. In every reachable state no more registrations are parked than
  configured, no more workers run than the parked and the serving ones may be, a worker counted as
  serving is a worker of the pool, and while the pool runs it is filled: unless the cap on relaying
  workers is reached, one registration is parked for every slot whose worker has not given up.
\<close>

theorem fallback_pool_bounded:
  assumes "pool_reachable c s"
  shows "length (pl_handles s) - length (pl_serving s) \<le> max (pc_size c) 1
     \<and> length (pl_handles s) \<le> max (pc_size c) 1 + max (pc_max_serving c) 1
     \<and> set (pl_serving s) \<subseteq> set (pl_handles s)
     \<and> (pl_exit s \<noteq> Some QuicRecovered \<longrightarrow>
          max (pc_size c) 1 - pl_given_up s \<le> length (pl_handles s) - length (pl_serving s)
          \<or> max (pc_size c) 1 - pl_given_up s + max (pc_max_serving c) 1 \<le> length (pl_handles s))"
  using pool_reachable_inv [OF assms]
  by (auto simp: pool_inv_def bounds_inv_def members_inv_def refilled_def pool_n_def pool_ms_def)


text \<open>
  Two slots: the first worker relays a client when QUIC answers; the second is parked and closed, with
  the one that was parked in place of the first.
\<close>

definition example_pool :: pool_cfg where
  "example_pool = \<lparr>pc_size = 2, pc_max_serving = 2, pc_reprobe = Some (reprobe_policy_after 0)\<rparr>"

lemma example_top_up:
  "pl_given_up s = 0 \<Longrightarrow> pl_handles s = [] \<Longrightarrow> pl_serving s = [] \<Longrightarrow> pl_next_id s = 0 \<Longrightarrow>
     top_up example_pool s = s\<lparr>pl_handles := [0, 1], pl_next_id := 2\<rparr>"
  by (subst top_up.simps, subst top_up.simps, subst top_up.simps)
    (simp add: example_pool_def pool_n_def pool_ms_def Let_def numeral_2_eq_2)

lemma example_handover:
  "\<exists>s. pool_reachable example_pool s \<and> pl_exit s = Some QuicRecovered \<and> pl_aborted s = [1] \<and> pl_fired s = [0]"
proof -
  define s0 where "s0 = pool_start example_pool"
  have s0: "pl_handles s0 = [0, 1]" "pl_exit s0 = None" "pl_finished s0 = []" "pl_fired s0 = []" "pl_queue s0 = []"
    "pl_probe s0 = None" "pl_serving s0 = []" "pl_streak s0 = 0"
    unfolding s0_def pool_start_def by (simp_all add: example_top_up)
  define s1 where "s1 = s0\<lparr>pl_queue := pl_queue s0 @ [0], pl_fired := pl_fired s0 @ [0]\<rparr>"
  define s2 where "s2 = probe_launch (reprobe_policy_after 0) s1"
  define s3 where "s3 = probe_ended QuicRegistered s2"
  have "pool_step example_pool s0 s1" unfolding s1_def by (rule pool_step.worker_fires) (simp_all add: s0)
  moreover have "pool_step example_pool s1 s2" unfolding s2_def
    by (rule pool_step.reprobe_due) (simp_all add: s1_def s0 example_pool_def)
  moreover have "pool_step example_pool s2 s3" unfolding s3_def
    by (rule pool_step.probe_outcome [where register = True])
      (simp_all add: s2_def s1_def s0 probe_launch_def reprobe_policy_after_def)
  ultimately have "(pool_step example_pool)\<^sup>*\<^sup>* s0 s3" by (meson rtranclp.rtrancl_into_rtrancl rtranclp.rtrancl_refl)
  then have "pool_reachable example_pool s3" by (simp add: pool_reachable_def s0_def)
  moreover have "pl_exit s3 = Some QuicRecovered" "pl_aborted s3 = [1]" "pl_fired s3 = [0]"
    by (simp_all add: s3_def s2_def s1_def s0 probe_ended_def probe_launch_def drain_consumed_def mark_serving_def Let_def)
  ultimately show ?thesis by blast
qed

theorem fallback_pool_bounded_witness:
  "\<exists>s. pool_reachable example_pool s \<and> length (pl_handles s) \<le> 4"
  using example_handover fallback_pool_bounded [of example_pool] by (fastforce simp: example_pool_def)


section \<open>Properties of a worker\<close>

text \<open>What a turn is for the backoff: a registration that held, one that did not, or a paced failure.\<close>

definition good_turn :: "real \<times> (tcp_attempt_end + tcp_served) list \<Rightarrow> bool" where
  "good_turn t =
     (case walk_rungs (snd t) of WalkServedPlain \<Rightarrow> True | WalkParkEnded d \<Rightarrow> SHORT_REGISTRATION \<le> d | _ \<Rightarrow> False)"

definition turns_since_good :: "(real \<times> (tcp_attempt_end + tcp_served) list) list \<Rightarrow> nat" where
  "turns_since_good ts = length (takeWhile (\<lambda>t. \<not> good_turn t) (rev ts))"

lemma turns_since_good_snoc [simp]:
  "turns_since_good (ts @ [t]) = (if good_turn t then 0 else Suc (turns_since_good ts))"
  by (simp add: turns_since_good_def)

lemma worker_paces_cases:
  "worker_paces rnd k =
     (if bo_attempt (wk_backoff k) < bo_max_attempts (wk_backoff k)
      then WorkerAgain (equal_jitter (the (fst (next_delay (wk_backoff k)))) rnd)
             (k\<lparr>wk_backoff := (wk_backoff k)\<lparr>bo_attempt := bo_attempt (wk_backoff k) + 1\<rparr>\<rparr>)
      else WorkerGaveUp)"
  by (simp add: worker_paces_def next_delay_jittered_def next_delay_def Let_def)

definition worker_inv :: "fallback_budget \<Rightarrow> nat \<Rightarrow> worker \<Rightarrow> bool" where
  "worker_inv b n k \<longleftrightarrow>
     bo_base (wk_backoff k) = fb_base b \<and> bo_max (wk_backoff k) = fb_max b
     \<and> bo_max_attempts (wk_backoff k) = fb_attempts b \<and> bo_attempt (wk_backoff k) \<le> n"

lemma worker_turn_inv:
  assumes "worker_inv b n k" and "worker_turn rnd rungs k = WorkerAgain d k'"
  shows "worker_inv b (if good_turn (rnd, rungs) then 0 else Suc n) k'"
  using assms
  by (auto simp: worker_turn_def good_turn_def worker_inv_def worker_paces_cases backoff_reset_def Let_def
      split: walk_end.splits if_splits)

lemma worker_gave_up:
  "worker_inv b n k \<Longrightarrow> worker_turn rnd rungs k = WorkerGaveUp \<Longrightarrow> fb_attempts b \<le> n \<and> \<not> good_turn (rnd, rungs)"
  by (auto simp: worker_turn_def worker_inv_def worker_paces_cases good_turn_def Let_def
      split: walk_end.splits if_splits)

lemma run_worker_gave_up:
  "worker_inv b (turns_since_good before) k \<Longrightarrow> snd (run_worker ts k) = Some (Err ()) \<Longrightarrow>
     \<exists>j < length ts. fb_attempts b < turns_since_good (before @ take (Suc j) ts)"
proof (induction ts arbitrary: before k)
  case (Cons t ts)
  obtain rnd rungs where t: "t = (rnd, rungs)" by fastforce
  show ?case
  proof (cases "worker_turn rnd rungs k")
    case (WorkerAgain d k')
    then have "worker_inv b (turns_since_good (before @ [t])) k'"
      using worker_turn_inv [OF Cons(2)] by (simp add: t split: if_splits)
    moreover have "snd (run_worker ts k') = Some (Err ())"
      using Cons(3) WorkerAgain by (simp add: t split: prod.splits)
    ultimately obtain j where "j < length ts" "fb_attempts b < turns_since_good ((before @ [t]) @ take (Suc j) ts)"
      using Cons(1) by blast
    then show ?thesis by (intro exI [of _ "Suc j"]) simp
  next
    case WorkerGaveUp
    then have "fb_attempts b \<le> turns_since_good before" "\<not> good_turn t" using worker_gave_up [OF Cons(2)] by (auto simp: t)
    then show ?thesis by (intro exI [of _ 0]) simp
  qed (use Cons(3) t in simp)
qed simp

text \<open>
  A worker gives up only when its budget is spent: it has then made more turns in a row than the
  budget has attempts without a registration that held. With the default budget that is more than
  four thousand million turns; a parked registration that ends after two seconds or more, or a tunnel
  that was served, starts the count again.
\<close>

theorem worker_gives_up_late:
  assumes "snd (run_worker ts (worker_start b)) = Some (Err ())"
  shows "\<exists>j < length ts. fb_attempts b < turns_since_good (take (Suc j) ts)"
  using run_worker_gave_up [of b "[]" "worker_start b" ts] assms
  by (simp add: worker_inv_def worker_start_def backoff_new_def turns_since_good_def)

theorem worker_gives_up_late_witness:
  "\<exists>j < 2. 1 < turns_since_good (take (Suc j) [(0, []), (0, [])])"
  using worker_gives_up_late [of "[(0, []), (0, [])]" "\<lparr>fb_base = 1, fb_max = 1, fb_attempts = 1\<rparr>"]
  by (simp add: worker_start_def worker_turn_def worker_paces_cases backoff_new_def numeral_2_eq_2)

end
