(* ===== verification/FramedRelay.thy ===== *)
theory FramedRelay
  imports Rust_Prelude
begin

text \<open>
  The framed relay of a fallback connection (\<^verbatim>\<open>serve.rs\<close>, \<^verbatim>\<open>serve_framed_duplex_to_origin\<close>): a half that unframes
  what the edge sends for the origin, a half that reads the origin, and the single writer towards the
  edge with its keepalives, as a step relation with a step for every await.

  The frame codec and the keepalive tracker are those of \<^verbatim>\<open>ct_common\<close>: the tracker and the three times are
  fields of \<open>relay_env\<close>; of the codec the relay uses that it gives no data after the peer's FIN. Time passes
  only while no timer of the writer is due: a timer that is due fires before the clock goes on. The drain before
  the dead-peer verdict is one step: work handed over meanwhile counts as handed over before or after it.
\<close>

section \<open>Frames and work for the writer\<close>


datatype in_frame = InData bytes | InKeepalive nat bool | InKeepaliveAck nat | InFin

datatype out_frame = OutData bytes | OutKeepalive nat | OutAck nat | OutFin

datatype edge_write = WData bytes bool | WAck nat | WAckReceived nat | WFin | WPeerFin

record 't relay_env =
  tk_new :: 't
  tk_sent :: "nat \<Rightarrow> nat \<Rightarrow> 't \<Rightarrow> 't"
  tk_ack :: "nat \<Rightarrow> 't \<Rightarrow> 't"
  tk_oldest_age :: "nat \<Rightarrow> 't \<Rightarrow> nat option"
  KEEPALIVE_INTERVAL :: nat
  KEEPALIVE_DEAD_AFTER :: nat
  POST_PEER_FIN_IDLE_BOUND :: nat

text \<open>
  The writer-owner's state: what it has put on the wire, which frames it has flushed up to, whether its
  own FIN is sent, the tracker, the counter and the clocks (in milliseconds since the start).
\<close>

record 't writer =
  wr_wire :: "out_frame list"
  wr_flushed :: nat
  wr_fin_sent :: bool
  wr_tracker :: 't
  wr_counter :: nat
  wr_peer_fin :: bool
  wr_last_write :: nat
  wr_last_data :: nat

definition put :: "out_frame \<Rightarrow> 't writer \<Rightarrow> 't writer" where
  "put f w = w\<lparr>wr_wire := wr_wire w @ [f]\<rparr>"

definition flush :: "'t writer \<Rightarrow> 't writer" where
  "flush w = w\<lparr>wr_flushed := length (wr_wire w)\<rparr>"

definition apply_edge_write :: "'t relay_env \<Rightarrow> nat \<Rightarrow> edge_write \<Rightarrow> 't writer \<Rightarrow> 't writer" where
  "apply_edge_write E now ev w =
     (case ev of
        WData payload fl \<Rightarrow>
          (let w1 = put (OutData payload) w; w2 = (if fl then flush w1 else w1) in
           w2\<lparr>wr_last_write := now, wr_last_data := now\<rparr>)
      | WAck c \<Rightarrow> (flush (put (OutAck c) w))\<lparr>wr_last_write := now\<rparr>
      | WAckReceived c \<Rightarrow> w\<lparr>wr_tracker := tk_ack E c (wr_tracker w)\<rparr>
      | WFin \<Rightarrow> (flush (put OutFin w))\<lparr>wr_fin_sent := True, wr_last_write := now\<rparr>
      | WPeerFin \<Rightarrow>
          (let w1 = (if \<not> wr_peer_fin w then w\<lparr>wr_last_data := now\<rparr> else w) in
           w1\<lparr>wr_peer_fin := True, wr_tracker := tk_new E\<rparr>))"

section \<open>The relay\<close>

text \<open>
  The edge half: the frames it has taken, whether the origin is dialled, its write half, the dial
  channel, and the work it waits to hand over; the origin half likewise. \<open>rl_read\<close> is what was read of
  the origin, \<open>rl_written\<close> what was written to it.
\<close>

datatype up_state = UpReading | UpEnding | UpDone
datatype down_state = DownWaiting | DownReading | DownEnding | DownDone
datatype relay_result = RelayOk | RelayDead nat | RelayError

record 't relay =
  rl_now :: nat
  rl_taken :: "in_frame list"
  rl_dialed :: bool
  rl_origin_w :: bool
  rl_dial_tx :: bool
  rl_up :: up_state
  rl_up_send :: "edge_write option"
  rl_down :: down_state
  rl_down_send :: "edge_write option"
  rl_read :: bytes
  rl_written :: bytes
  rl_origin_eof :: bool
  rl_queue :: "edge_write list"
  rl_writer :: "'t writer"
  rl_result :: "relay_result option"


















section \<open>Properties\<close>

definition in_data :: "in_frame list \<Rightarrow> bytes" where
  "in_data fs = concat (map (\<lambda>f. case f of InData d \<Rightarrow> d | _ \<Rightarrow> []) fs)"

definition wire_data :: "out_frame list \<Rightarrow> bytes" where
  "wire_data fs = concat (map (\<lambda>f. case f of OutData d \<Rightarrow> d | _ \<Rightarrow> []) fs)"

definition work_data :: "edge_write list \<Rightarrow> bytes" where
  "work_data evs = concat (map (\<lambda>e. case e of WData d _ \<Rightarrow> d | _ \<Rightarrow> []) evs)"

text \<open>Work of the origin half, and that its FIN is the last of it.\<close>

definition from_origin :: "edge_write \<Rightarrow> bool" where
  "from_origin ev = (case ev of WData _ _ \<Rightarrow> True | WFin \<Rightarrow> True | _ \<Rightarrow> False)"

fun fin_last :: "edge_write list \<Rightarrow> bool" where
  "fin_last [] = True"
| "fin_last (e # es) = (if e = WFin then list_all (\<lambda>x. \<not> from_origin x) es else fin_last es)"

text \<open>On the wire: one FIN at most, and no data after it.\<close>

fun fin_ends :: "out_frame list \<Rightarrow> bool" where
  "fin_ends [] = True"
| "fin_ends (f # fs) = (if f = OutFin then list_all (\<lambda>x. x \<noteq> OutFin \<and> (\<forall>d. x \<noteq> OutData d)) fs else fin_ends fs)"

lemma data_append [simp]:
  "in_data (a @ b) = in_data a @ in_data b" "wire_data (c @ d) = wire_data c @ wire_data d" "work_data (e @ f) = work_data e @ work_data f"
  by (simp_all add: in_data_def wire_data_def work_data_def)

lemma data_single [simp]:
  "in_data [] = []" "in_data [f] = (case f of InData d \<Rightarrow> d | _ \<Rightarrow> [])" "wire_data [] = []"
  "wire_data [g] = (case g of OutData d \<Rightarrow> d | _ \<Rightarrow> [])" "work_data [] = []"
  "work_data (e # es) = (case e of WData d _ \<Rightarrow> d | _ \<Rightarrow> []) @ work_data es"
  by (simp_all add: in_data_def wire_data_def work_data_def)





text \<open>The writer: what it does with one piece of work, and with a queue.\<close>

definition wire_ok :: "'t writer \<Rightarrow> bool" where
  "wire_ok w \<longleftrightarrow> fin_ends (wr_wire w) \<and> (wr_fin_sent w \<longleftrightarrow> OutFin \<in> set (wr_wire w))"



subsection \<open>Data\<close>

definition pending :: "'t relay \<Rightarrow> edge_write list" where
  "pending s = rl_queue s @ (case rl_down_send s of Some ev \<Rightarrow> [ev] | None \<Rightarrow> [])"

text \<open>The relay was cut: the peer was done, and the origin had been silent for the whole bound.\<close>

definition idle_over :: "'t relay_env \<Rightarrow> 't relay \<Rightarrow> bool" where
  "idle_over E s \<longleftrightarrow> wr_peer_fin (rl_writer s) \<and> wr_last_data (rl_writer s) + POST_PEER_FIN_IDLE_BOUND E \<le> rl_now s"

definition down_inv :: "'t relay_env \<Rightarrow> 't relay \<Rightarrow> bool" where
  "down_inv E s \<longleftrightarrow>
     wire_ok (rl_writer s) \<and> wire_data (wr_wire (rl_writer s)) @ work_data (pending s) = rl_read s
     \<and> fin_last (pending s)
     \<and> (WFin \<in> set (pending s) \<longrightarrow> rl_down s = DownEnding \<or> rl_down s = DownDone)
     \<and> (rl_down s = DownEnding \<longrightarrow> rl_down_send s = Some WFin)
     \<and> (rl_down s = DownDone \<or> rl_down s = DownWaiting \<longrightarrow> rl_down_send s = None)
     \<and> (\<forall>ev. rl_up_send s = Some ev \<longrightarrow> \<not> from_origin ev)
     \<and> (rl_down s = DownDone \<longrightarrow> WFin \<in> set (rl_queue s) \<or> wr_fin_sent (rl_writer s))
     \<and> (wr_fin_sent (rl_writer s) \<longrightarrow>
          rl_down s = DownDone \<and> list_all (\<lambda>x. \<not> from_origin x) (rl_queue s) \<or> idle_over E s)"







lemma down_inv_result [simp]: "down_inv E (s\<lparr>rl_result := r\<rparr>) = down_inv E s"
  by (simp add: down_inv_def pending_def idle_over_def)




lemma apply_peer_fin [simp]: "wr_peer_fin (apply_edge_write E now ev w) \<longleftrightarrow> wr_peer_fin w \<or> ev = WPeerFin"
  by (auto simp: apply_edge_write_def put_def flush_def Let_def split: edge_write.splits)

lemma drain_peer_fin [simp]: "wr_peer_fin (fold (apply_edge_write E now) q w) \<longleftrightarrow> wr_peer_fin w \<or> WPeerFin \<in> set q"
  by (induction q arbitrary: w) auto








subsection \<open>Time and verdicts\<close>





















end
