(* ===== verification/SecretFile.thy ===== *)
theory SecretFile
  imports Rust_Prelude
begin

unbundle bit_operations_syntax

text \<open>
  Writing files that must survive a crash (\<^verbatim>\<open>secret_file.rs\<close>, the Unix build), over a file system with
  what a power loss may undo.

  A path is its directory and its file name. Directory entries lead to inodes; an inode has its
  content, its mode and whether it is a symbolic link. \<open>fs_synced\<close> says whether the content has reached
  the disk, \<open>fs_maybe\<close> what a directory entry may be after a power loss: everything it has been since
  the directory was last synced. A fault may make any system call fail; a failing write leaves any
  prefix of its bytes.
\<close>

section \<open>The file system\<close>

type_synonym path = "string \<times> string"

datatype fs_error = NotFound | AlreadyExists | ELOOP | OtherError

record fs =
  fs_entry :: "path \<Rightarrow> nat option"
  fs_maybe :: "path \<Rightarrow> nat option set"
  fs_data :: "nat \<Rightarrow> bytes"
  fs_mode :: "nat \<Rightarrow> u32"
  fs_link :: "nat \<Rightarrow> bool"
  fs_synced :: "nat \<Rightarrow> bool"
  fs_next :: nat

definition set_entry :: "path \<Rightarrow> nat option \<Rightarrow> fs \<Rightarrow> fs" where
  "set_entry p e s = s\<lparr>fs_entry := (fs_entry s)(p := e), fs_maybe := (fs_maybe s)(p := insert e (fs_maybe s p))\<rparr>"

definition remove_file :: "bool \<Rightarrow> path \<Rightarrow> fs \<Rightarrow> fs_error option \<times> fs" where
  "remove_file fault p s =
     (if fs_entry s p = None then (Some NotFound, s)
      else if fault then (Some OtherError, s)
      else (None, set_entry p None s))"

definition create_new :: "bool \<Rightarrow> u32 \<Rightarrow> path \<Rightarrow> fs \<Rightarrow> fs_error option \<times> fs" where
  "create_new fault mode p s =
     (if fs_entry s p \<noteq> None then (Some AlreadyExists, s)
      else if fault then (Some OtherError, s)
      else (None, (set_entry p (Some (fs_next s)) s)
        \<lparr>fs_data := (fs_data s)(fs_next s := []), fs_mode := (fs_mode s)(fs_next s := mode),
         fs_link := (fs_link s)(fs_next s := False), fs_synced := (fs_synced s)(fs_next s := False),
         fs_next := Suc (fs_next s)\<rparr>))"

definition write_all :: "nat option \<Rightarrow> nat \<Rightarrow> bytes \<Rightarrow> fs \<Rightarrow> fs_error option \<times> fs" where
  "write_all fault i bytes s =
     (let put = (\<lambda>b. s\<lparr>fs_data := (fs_data s)(i := fs_data s i @ b), fs_synced := (fs_synced s)(i := False)\<rparr>) in
      case fault of Some k \<Rightarrow> (Some OtherError, put (take k bytes)) | None \<Rightarrow> (None, put bytes))"

definition sync_all :: "bool \<Rightarrow> nat \<Rightarrow> fs \<Rightarrow> fs_error option \<times> fs" where
  "sync_all fault i s =
     (if fault then (Some OtherError, s) else (None, s\<lparr>fs_synced := (fs_synced s)(i := True)\<rparr>))"

definition rename_file :: "bool \<Rightarrow> path \<Rightarrow> path \<Rightarrow> fs \<Rightarrow> fs_error option \<times> fs" where
  "rename_file fault p q s =
     (case fs_entry s p of
        None \<Rightarrow> (Some NotFound, s)
      | Some i \<Rightarrow>
          if fault then (Some OtherError, s)
          else (None, set_entry p None (set_entry q (Some i) s)))"

definition set_permissions :: "bool \<Rightarrow> u32 \<Rightarrow> path \<Rightarrow> fs \<Rightarrow> fs_error option \<times> fs" where
  "set_permissions fault mode p s =
     (case fs_entry s p of
        None \<Rightarrow> (Some NotFound, s)
      | Some i \<Rightarrow> if fault then (Some OtherError, s) else (None, s\<lparr>fs_mode := (fs_mode s)(i := mode)\<rparr>))"

definition is_symlink :: "path \<Rightarrow> fs \<Rightarrow> bool" where
  "is_symlink p s = (case fs_entry s p of None \<Rightarrow> False | Some i \<Rightarrow> fs_link s i)"

text \<open>Syncing the directory of a path: its entries are from now on what they are.\<close>

definition sync_parent_dir :: "bool \<Rightarrow> path \<Rightarrow> fs \<Rightarrow> fs_error option \<times> fs" where
  "sync_parent_dir fault p s =
     (if fault then (Some OtherError, s)
      else (None, s\<lparr>fs_maybe := (\<lambda>q. if fst q = fst p then {fs_entry s q} else fs_maybe s q)\<rparr>))"

text \<open>System calls chained with \<^verbatim>\<open>?\<close>: the first error ends the chain. The states after every call are kept.\<close>

fun run_steps :: "(fs \<Rightarrow> fs_error option \<times> fs) list \<Rightarrow> fs \<Rightarrow> fs_error option \<times> fs list" where
  "run_steps [] s = (None, [])"
| "run_steps (f # fs) s =
     (case f s of
        (Some e, t) \<Rightarrow> (Some e, [t])
      | (None, t) \<Rightarrow> (let (r, ts) = run_steps fs t in (r, t # ts)))"

section \<open>Atomic replacement\<close>

record write_faults =
  f_stale :: bool
  f_open :: bool
  f_write :: "nat option"
  f_sync :: bool
  f_rename :: bool
  f_dirsync :: bool
  f_cleanup :: bool

definition temp_sibling :: "path \<Rightarrow> path" where
  "temp_sibling p = (fst p, ''.'' @ snd p @ ''.tmp'')"

text \<open>
  \<^verbatim>\<open>replace_atomically\<close>: the result and the states from the first to the last system call. \<open>mode\<close> is what
  the umask leaves of the mode asked for.
\<close>

definition write_steps :: "write_faults \<Rightarrow> path \<Rightarrow> bytes \<Rightarrow> u32 \<Rightarrow> nat \<Rightarrow> (fs \<Rightarrow> fs_error option \<times> fs) list" where
  "write_steps flt path bytes mode i =
     [create_new (f_open flt) mode (temp_sibling path), write_all (f_write flt) i bytes, sync_all (f_sync flt) i,
      rename_file (f_rename flt) (temp_sibling path) path, sync_parent_dir (f_dirsync flt) path]"

definition replace_atomically ::
  "write_faults \<Rightarrow> path \<Rightarrow> bytes \<Rightarrow> u32 \<Rightarrow> fs \<Rightarrow> fs_error option \<times> fs list" where
  "replace_atomically flt path bytes mode s =
     (let tmp = temp_sibling path; (e, s1) = remove_file (f_stale flt) tmp s in
      if e \<noteq> None \<and> e \<noteq> Some NotFound then (e, [s1])
      else (let (written, ts) = run_steps (write_steps flt path bytes mode (fs_next s1)) s1 in
            if written \<noteq> None then (written, s1 # ts @ [snd (remove_file (f_cleanup flt) tmp (last ts))])
            else (written, s1 # ts)))"

definition write_private :: "write_faults \<Rightarrow> u32 \<Rightarrow> path \<Rightarrow> bytes \<Rightarrow> fs \<Rightarrow> fs_error option \<times> fs list" where
  "write_private flt umask path bytes s =
     (if is_symlink path s then (Some ELOOP, [s])
      else replace_atomically flt path bytes (384 AND NOT umask) s)"

definition write_durable :: "write_faults \<Rightarrow> u32 \<Rightarrow> path \<Rightarrow> bytes \<Rightarrow> fs \<Rightarrow> fs_error option \<times> fs list" where
  "write_durable flt umask path bytes s = replace_atomically flt path bytes (420 AND NOT umask) s"

section \<open>What a crash leaves\<close>

definition read_path :: "fs \<Rightarrow> path \<Rightarrow> bytes option" where
  "read_path s p = map_option (fs_data s) (fs_entry s p)"

text \<open>What may be read at a path after a power loss in this state.\<close>

definition crash_reads :: "fs \<Rightarrow> path \<Rightarrow> bytes option set" where
  "crash_reads s p =
     {c. \<exists>e \<in> fs_maybe s p. (case e of None \<Rightarrow> c = None | Some i \<Rightarrow> \<exists>d. c = Some d \<and> (fs_synced s i \<longrightarrow> d = fs_data s i))}"

text \<open>Inodes are below the next free one, and an entry may be what it is.\<close>

definition fs_wf :: "fs \<Rightarrow> bool" where
  "fs_wf s \<longleftrightarrow> (\<forall>p i. Some i \<in> fs_maybe s p \<longrightarrow> i < fs_next s) \<and> (\<forall>p. fs_entry s p \<in> fs_maybe s p)"

text \<open>A path that is safely on disk: its entry is certain and its content synced.\<close>

definition durable :: "path \<Rightarrow> fs \<Rightarrow> bool" where
  "durable p s \<longleftrightarrow> fs_maybe s p = {fs_entry s p} \<and> (\<forall>i. fs_entry s p = Some i \<longrightarrow> fs_synced s i)"

lemma durable_crash_reads: "durable p s \<Longrightarrow> crash_reads s p = {read_path s p}"
  by (cases "fs_entry s p") (auto simp: durable_def crash_reads_def read_path_def)

section \<open>Reasoning about chains of calls\<close>

text \<open>One call from \<open>P\<close>: to \<open>Q\<close> when it succeeds, to \<open>E\<close> when it fails. A chain: \<open>R\<close> after every call.\<close>

definition call :: "(fs \<Rightarrow> bool) \<Rightarrow> (fs \<Rightarrow> fs_error option \<times> fs) \<Rightarrow> (fs \<Rightarrow> bool) \<Rightarrow> (fs \<Rightarrow> bool) \<Rightarrow> bool" where
  "call P f Q E \<longleftrightarrow> (\<forall>s. P s \<longrightarrow> (if fst (f s) = None then Q (snd (f s)) else E (snd (f s))))"

definition chain ::
  "(fs \<Rightarrow> bool) \<Rightarrow> (fs \<Rightarrow> fs_error option \<times> fs) list \<Rightarrow> (fs \<Rightarrow> bool) \<Rightarrow> (fs \<Rightarrow> bool) \<Rightarrow> (fs \<Rightarrow> bool) \<Rightarrow> bool" where
  "chain P fs R Q E \<longleftrightarrow>
     (\<forall>s. P s \<longrightarrow>
        list_all R (snd (run_steps fs s))
        \<and> (if fst (run_steps fs s) = None then Q (last (s # snd (run_steps fs s)))
           else snd (run_steps fs s) \<noteq> [] \<and> E (last (snd (run_steps fs s)))))"

lemma chain_Nil: "(\<And>s. P s \<Longrightarrow> Q s) \<Longrightarrow> chain P [] R Q E"
  by (simp add: chain_def)

lemma chain_Cons:
  assumes "call P f P' E'" and "chain P' fs R Q E" and "\<And>t. P' t \<Longrightarrow> R t" and "\<And>t. E' t \<Longrightarrow> R t \<and> E t"
  shows "chain P (f # fs) R Q E"
  unfolding chain_def
proof (intro allI impI)
  fix s assume "P s"
  obtain e t where f: "f s = (e, t)" by fastforce
  show "list_all R (snd (run_steps (f # fs) s))
        \<and> (if fst (run_steps (f # fs) s) = None then Q (last (s # snd (run_steps (f # fs) s)))
           else snd (run_steps (f # fs) s) \<noteq> [] \<and> E (last (snd (run_steps (f # fs) s))))"
  proof (cases e)
    case None
    then have "P' t" using assms(1) \<open>P s\<close> f by (force simp: call_def)
    then show ?thesis using assms(2,3) f None by (auto simp: chain_def split: prod.splits if_splits)
  next
    case (Some x)
    then have "E' t" using assms(1) \<open>P s\<close> f by (force simp: call_def)
    then show ?thesis using assms(4) f Some by simp
  qed
qed

text \<open>
  Seen from the state \<open>s\<close> in which the work starts: the old inodes are as they were, the new ones have
  the mode asked for, and no path but \<open>ps\<close> has changed.
\<close>

definition beside :: "fs \<Rightarrow> path set \<Rightarrow> u32 set \<Rightarrow> fs \<Rightarrow> bool" where
  "beside s ps modes t \<longleftrightarrow> fs_wf t \<and> fs_next s \<le> fs_next t
     \<and> (\<forall>i < fs_next s. fs_data t i = fs_data s i \<and> fs_synced t i = fs_synced s i \<and> fs_mode t i = fs_mode s i)
     \<and> (\<forall>i. fs_next s \<le> i \<longrightarrow> i < fs_next t \<longrightarrow> fs_mode t i \<in> modes)
     \<and> (\<forall>p. p \<notin> ps \<longrightarrow> fs_entry t p = fs_entry s p \<and> fs_maybe t p \<subseteq> fs_maybe s p)"

definition holds_new :: "fs \<Rightarrow> path \<Rightarrow> nat \<Rightarrow> fs \<Rightarrow> bool" where
  "holds_new s p i t \<longleftrightarrow> fs_entry t p = Some i \<and> fs_next s \<le> i \<and> i < fs_next t"

lemma call_remove:
  assumes "p \<in> ps"
  shows "call (beside s ps ms) (remove_file fault p) (\<lambda>t. beside s ps ms t \<and> fs_entry t p = None) (beside s ps ms)"
  using assms by (auto simp: call_def remove_file_def beside_def set_entry_def fs_wf_def)

lemma call_create:
  assumes "p \<in> ps" and "mode \<in> ms"
  shows "call (\<lambda>t. beside s ps ms t \<and> fs_next t = i) (create_new fault mode p)
    (\<lambda>t. beside s ps ms t \<and> holds_new s p i t \<and> fs_data t i = []) (beside s ps ms)"
  using assms
  by (auto simp: call_def create_new_def beside_def holds_new_def set_entry_def fs_wf_def less_Suc_eq)

lemma call_write:
  "call (\<lambda>t. beside s ps ms t \<and> holds_new s p i t \<and> fs_data t i = []) (write_all fault i bytes)
    (\<lambda>t. beside s ps ms t \<and> holds_new s p i t \<and> fs_data t i = bytes) (beside s ps ms)"
  by (auto simp: call_def write_all_def Let_def beside_def holds_new_def fs_wf_def split: option.splits)

lemma call_sync:
  "call (\<lambda>t. beside s ps ms t \<and> holds_new s p i t \<and> fs_data t i = bytes) (sync_all fault i)
    (\<lambda>t. beside s ps ms t \<and> holds_new s p i t \<and> fs_data t i = bytes \<and> fs_synced t i) (beside s ps ms)"
  by (auto simp: call_def sync_all_def beside_def holds_new_def fs_wf_def)

text \<open>After the rename the path holds the new, synced content, or after a power loss what it may have held before.\<close>

definition renamed :: "fs \<Rightarrow> path \<Rightarrow> bytes \<Rightarrow> nat \<Rightarrow> fs \<Rightarrow> bool" where
  "renamed s q bytes i t \<longleftrightarrow> holds_new s q i t \<and> fs_data t i = bytes \<and> fs_synced t i
     \<and> fs_maybe t q \<subseteq> insert (Some i) (fs_maybe s q)"

lemma call_rename:
  assumes "p \<in> ps" and "q \<notin> ps"
  shows "call (\<lambda>t. beside s ps ms t \<and> holds_new s p i t \<and> fs_data t i = bytes \<and> fs_synced t i) (rename_file fault p q)
    (\<lambda>t. beside s (insert q ps) ms t \<and> renamed s q bytes i t \<and> fs_entry t p = None) (beside s ps ms)"
proof -
  have "p \<noteq> q" using assms by blast
  then show ?thesis using assms
    by (auto simp: call_def rename_file_def beside_def holds_new_def renamed_def set_entry_def fs_wf_def
        simp del: split_paired_All)
qed

lemma call_dirsync:
  assumes "fs_wf s"
  shows "call (\<lambda>t. beside s (insert q ps) ms t \<and> renamed s q bytes i t \<and> fs_entry t p = None) (sync_parent_dir fault q)
    (\<lambda>t. beside s (insert q ps) ms t \<and> renamed s q bytes i t \<and> fs_entry t p = None \<and> fs_maybe t q = {Some i}
       \<and> (fst p = fst q \<longrightarrow> fs_maybe t p = {None}))
    (\<lambda>t. fault \<and> beside s (insert q ps) ms t \<and> renamed s q bytes i t \<and> fs_entry t p = None)"
  using assms
  by (auto simp: call_def sync_parent_dir_def beside_def renamed_def holds_new_def fs_wf_def
      simp del: split_paired_All) (metis)+

section \<open>Properties\<close>

text \<open>Before and after the rename of a replacement.\<close>

definition not_yet :: "fs \<Rightarrow> path \<Rightarrow> u32 \<Rightarrow> fs \<Rightarrow> bool" where
  "not_yet s path mode t \<longleftrightarrow> beside s {temp_sibling path} {mode} t"

definition replaced :: "fs \<Rightarrow> path \<Rightarrow> bytes \<Rightarrow> u32 \<Rightarrow> fs \<Rightarrow> bool" where
  "replaced s path bytes mode t \<longleftrightarrow>
     (\<exists>i. beside s {path, temp_sibling path} {mode} t \<and> renamed s path bytes i t \<and> fs_entry t (temp_sibling path) = None)"

definition settled :: "fs \<Rightarrow> path \<Rightarrow> bytes \<Rightarrow> u32 \<Rightarrow> fs \<Rightarrow> bool" where
  "settled s path bytes mode t \<longleftrightarrow>
     replaced s path bytes mode t \<and> durable path t \<and> durable (temp_sibling path) t"

lemma temp_sibling_neq [simp]: "temp_sibling p \<noteq> p" "p \<noteq> temp_sibling p"
  by (auto simp: temp_sibling_def prod_eq_iff dest: arg_cong [where f = length])

lemma fst_temp_sibling [simp]: "fst (temp_sibling p) = fst p"
  by (simp add: temp_sibling_def)

lemma write_chain:
  assumes "fs_wf s"
  shows "chain (\<lambda>t. not_yet s path mode t \<and> fs_next t = i) (write_steps flt path bytes mode i)
    (\<lambda>t. not_yet s path mode t \<or> replaced s path bytes mode t) (settled s path bytes mode)
    (\<lambda>t. not_yet s path mode t \<or> f_dirsync flt \<and> replaced s path bytes mode t)"
proof -
  let ?tmp = "temp_sibling path" and ?R = "\<lambda>t. not_yet s path mode t \<or> replaced s path bytes mode t"
  let ?E = "\<lambda>t. not_yet s path mode t \<or> f_dirsync flt \<and> replaced s path bytes mode t"
  let ?b = "beside s {?tmp} {mode}"
  have early: "?b t \<Longrightarrow> ?R t \<and> ?E t" for t by (simp add: not_yet_def)
  have "chain (\<lambda>t. beside s {path, ?tmp} {mode} t \<and> renamed s path bytes i t \<and> fs_entry t ?tmp = None)
      [sync_parent_dir (f_dirsync flt) path] ?R (settled s path bytes mode) ?E"
    by (rule chain_Cons [OF call_dirsync [OF assms] chain_Nil])
      (auto simp: replaced_def settled_def durable_def renamed_def holds_new_def)
  then have "chain (\<lambda>t. ?b t \<and> holds_new s ?tmp i t \<and> fs_data t i = bytes \<and> fs_synced t i)
      [rename_file (f_rename flt) ?tmp path, sync_parent_dir (f_dirsync flt) path] ?R (settled s path bytes mode) ?E"
    by (rule chain_Cons [OF call_rename, rotated 2]) (use early in \<open>auto simp: replaced_def\<close>)
  from chain_Cons [OF call_sync this] early have "chain (\<lambda>t. ?b t \<and> holds_new s ?tmp i t \<and> fs_data t i = bytes)
      [sync_all (f_sync flt) i, rename_file (f_rename flt) ?tmp path, sync_parent_dir (f_dirsync flt) path]
      ?R (settled s path bytes mode) ?E" by blast
  from chain_Cons [OF call_write this] early have "chain (\<lambda>t. ?b t \<and> holds_new s ?tmp i t \<and> fs_data t i = [])
      [write_all (f_write flt) i bytes, sync_all (f_sync flt) i, rename_file (f_rename flt) ?tmp path,
       sync_parent_dir (f_dirsync flt) path] ?R (settled s path bytes mode) ?E" by blast
  from chain_Cons [OF call_create this] early show ?thesis unfolding write_steps_def not_yet_def by blast
qed

lemma beside_refl: "fs_wf s \<Longrightarrow> beside s ps ms s"
  by (simp add: beside_def)

lemma not_yet_cleanup:
  assumes "not_yet s path mode t"
  shows "not_yet s path mode (snd (remove_file fault (temp_sibling path) t))"
    "fault \<or> fs_entry (snd (remove_file fault (temp_sibling path) t)) (temp_sibling path) = None"
  using call_remove [of "temp_sibling path" "{temp_sibling path}" s "{mode}" fault] assms
  by (auto simp: not_yet_def call_def remove_file_def set_entry_def split: if_splits)

lemma replaced_cleanup:
  "replaced s path bytes mode t \<Longrightarrow> snd (remove_file fault (temp_sibling path) t) = t \<and> fs_entry t (temp_sibling path) = None"
  by (auto simp: replaced_def remove_file_def)

lemma replace_outcome:
  assumes "fs_wf s" and "replace_atomically flt path bytes mode s = (r, ts)"
  shows "ts \<noteq> [] \<and> list_all (\<lambda>t. not_yet s path mode t \<or> replaced s path bytes mode t) ts
     \<and> (r = None \<longrightarrow> settled s path bytes mode (last ts))
     \<and> (r \<noteq> None \<longrightarrow> (not_yet s path mode (last ts) \<or> f_dirsync flt \<and> replaced s path bytes mode (last ts))
          \<and> (f_stale flt \<or> f_cleanup flt \<or> fs_entry (last ts) (temp_sibling path) = None))"
proof -
  obtain e s1 where e: "remove_file (f_stale flt) (temp_sibling path) s = (e, s1)" by fastforce
  have s1: "not_yet s path mode s1"
    using not_yet_cleanup(1) [of s path mode s "f_stale flt"] beside_refl [OF assms(1)] e by (simp add: not_yet_def)
  show ?thesis
  proof (cases "e \<noteq> None \<and> e \<noteq> Some NotFound")
    case True
    then have "f_stale flt" using e by (auto simp: remove_file_def split: if_splits)
    then show ?thesis using True assms(2) e s1 by (auto simp: replace_atomically_def Let_def)
  next
    case False
    obtain w us where w: "run_steps (write_steps flt path bytes mode (fs_next s1)) s1 = (w, us)" by fastforce
    have c: "list_all (\<lambda>t. not_yet s path mode t \<or> replaced s path bytes mode t) us"
      "w = None \<Longrightarrow> settled s path bytes mode (last (s1 # us))"
      "w \<noteq> None \<Longrightarrow> us \<noteq> [] \<and> (not_yet s path mode (last us) \<or> f_dirsync flt \<and> replaced s path bytes mode (last us))"
      using write_chain [OF assms(1), of path mode "fs_next s1" flt bytes] s1 w by (fastforce simp: chain_def)+
    have r: "replace_atomically flt path bytes mode s =
        (if w \<noteq> None then (w, s1 # us @ [snd (remove_file (f_cleanup flt) (temp_sibling path) (last us))]) else (w, s1 # us))"
      using False e w unfolding replace_atomically_def Let_def by auto
    show ?thesis
    proof (cases w)
      case None
      then show ?thesis using r assms(2) c(1,2) s1 by simp
    next
      case (Some x)
      then show ?thesis using r assms(2) c(1,3) s1 not_yet_cleanup [of s path mode "last us" "f_cleanup flt"]
          replaced_cleanup [of s path bytes mode "last us" "f_cleanup flt"] by auto
    qed
  qed
qed

lemma beside_reads:
  assumes "beside s ps ms t" and "fs_wf s" and "p \<notin> ps"
  shows "read_path t p = read_path s p" "crash_reads t p \<subseteq> crash_reads s p"
proof -
  have b: "fs_entry t p = fs_entry s p" "fs_maybe t p \<subseteq> fs_maybe s p"
    "\<And>i. i < fs_next s \<Longrightarrow> fs_data t i = fs_data s i \<and> fs_synced t i = fs_synced s i"
    using assms by (auto simp: beside_def simp del: split_paired_All)
  have lt: "Some i \<in> fs_maybe s p \<Longrightarrow> i < fs_next s" "fs_entry s p = Some i \<Longrightarrow> i < fs_next s" for i
    using assms(2) unfolding fs_wf_def by metis+
  show "read_path t p = read_path s p" using b lt by (cases "fs_entry s p") (auto simp: read_path_def)
  show "crash_reads t p \<subseteq> crash_reads s p"
  proof
    fix c assume "c \<in> crash_reads t p"
    then obtain e where e: "e \<in> fs_maybe s p"
      "case e of None \<Rightarrow> c = None | Some i \<Rightarrow> \<exists>d. c = Some d \<and> (fs_synced t i \<longrightarrow> d = fs_data t i)"
      using b(2) by (auto simp: crash_reads_def)
    then show "c \<in> crash_reads s p" using b(3) lt(1) unfolding crash_reads_def by (cases e) force+
  qed
qed

lemma renamed_reads:
  assumes b: "beside s ps ms t" and r: "renamed s q bytes i t" and "fs_wf s"
  shows "read_path t q = Some bytes" "crash_reads t q \<subseteq> insert (Some bytes) (crash_reads s q)"
proof -
  show "read_path t q = Some bytes" using r by (auto simp: renamed_def holds_new_def read_path_def)
  have old: "fs_synced t j = fs_synced s j \<and> fs_data t j = fs_data s j" if "Some j \<in> fs_maybe s q" for j
    using b assms(3) that unfolding beside_def fs_wf_def by metis
  show "crash_reads t q \<subseteq> insert (Some bytes) (crash_reads s q)"
  proof
    fix c assume "c \<in> crash_reads t q"
    then obtain e where e: "e = Some i \<or> e \<in> fs_maybe s q"
      "case e of None \<Rightarrow> c = None | Some i \<Rightarrow> \<exists>d. c = Some d \<and> (fs_synced t i \<longrightarrow> d = fs_data t i)"
      using r by (auto simp: crash_reads_def renamed_def)
    show "c \<in> insert (Some bytes) (crash_reads s q)"
    proof (cases "e = Some i")
      case True
      then show ?thesis using e(2) r by (auto simp: renamed_def)
    next
      case False
      then have "e \<in> fs_maybe s q" using e(1) by simp
      then show ?thesis using e(2) old unfolding crash_reads_def by (cases e) force+
    qed
  qed
qed

lemma replaced_reads:
  assumes "replaced s path bytes mode t" and "fs_wf s"
  shows "read_path t path = Some bytes" "crash_reads t path \<subseteq> insert (Some bytes) (crash_reads s path)"
  using assms(1) renamed_reads [OF _ _ assms(2)] unfolding replaced_def by blast+

lemma replace_beside:
  assumes "fs_wf s" and "replace_atomically flt path bytes mode s = (r, ts)" and "t \<in> set ts"
  shows "\<exists>ps \<subseteq> {path, temp_sibling path}. beside s ps {mode} t"
proof -
  have "not_yet s path mode t \<or> replaced s path bytes mode t"
    using replace_outcome [OF assms(1,2)] assms(3) by (simp add: list_all_iff)
  then show ?thesis by (auto simp: not_yet_def replaced_def)
qed

text \<open>What is true of every state of a replacement, and of a single path.\<close>

lemma replace_states:
  assumes "fs_wf s" and "durable path s" and "replace_atomically flt path bytes mode s = (r, ts)" and "t \<in> set ts"
  shows "read_path t path \<in> {read_path s path, Some bytes}" "crash_reads t path \<subseteq> {read_path s path, Some bytes}"
    "p \<noteq> path \<Longrightarrow> p \<noteq> temp_sibling path \<Longrightarrow> read_path t p = read_path s p \<and> crash_reads t p \<subseteq> crash_reads s p"
    "fs_next s \<le> i \<Longrightarrow> i < fs_next t \<Longrightarrow> fs_mode t i = mode"
    "i < fs_next s \<Longrightarrow> fs_mode t i = fs_mode s i"
proof -
  have t: "not_yet s path mode t \<or> replaced s path bytes mode t"
    using replace_outcome [OF assms(1,3)] assms(4) by (simp add: list_all_iff)
  obtain ps where ps: "beside s ps {mode} t" "ps \<subseteq> {path, temp_sibling path}"
    using replace_beside [OF assms(1,3,4)] by blast
  have "path \<notin> {temp_sibling path}" by simp
  then show "read_path t path \<in> {read_path s path, Some bytes}" "crash_reads t path \<subseteq> {read_path s path, Some bytes}"
    using t replaced_reads [OF _ assms(1)] beside_reads [OF _ assms(1), of "{temp_sibling path}" "{mode}" t path]
      durable_crash_reads [OF assms(2)] unfolding not_yet_def by blast+
  show "p \<noteq> path \<Longrightarrow> p \<noteq> temp_sibling path \<Longrightarrow> read_path t p = read_path s p \<and> crash_reads t p \<subseteq> crash_reads s p"
    using beside_reads [OF ps(1) assms(1), of p] ps(2) by auto
  show "fs_next s \<le> i \<Longrightarrow> i < fs_next t \<Longrightarrow> fs_mode t i = mode" "i < fs_next s \<Longrightarrow> fs_mode t i = fs_mode s i"
    using ps(1) by (auto simp: beside_def)
qed

text \<open>
  C15: crash safety of a file write. Whatever call fails and wherever power is lost, the path holds the
  old content or the new content as a whole, and no other file is touched. When the write reports
  success the new content is on disk and the temporary file is gone; when it fails the old content
  is still there, unless only the sync of the directory failed.
\<close>

theorem replace_atomic:
  assumes "fs_wf s" and "durable path s" and "replace_atomically flt path bytes mode s = (r, ts)"
  shows "(\<forall>t \<in> set ts. crash_reads t path \<subseteq> {read_path s path, Some bytes}
            \<and> (\<forall>p. p \<noteq> path \<and> p \<noteq> temp_sibling path \<longrightarrow> read_path t p = read_path s p \<and> crash_reads t p \<subseteq> crash_reads s p))
     \<and> (r = None \<longrightarrow> crash_reads (last ts) path = {Some bytes} \<and> crash_reads (last ts) (temp_sibling path) = {None})
     \<and> (r \<noteq> None \<longrightarrow> (read_path (last ts) path = read_path s path \<or> f_dirsync flt)
          \<and> (read_path (last ts) (temp_sibling path) = None \<or> f_stale flt \<or> f_cleanup flt))"
proof (intro conjI ballI allI impI)
  note out = replace_outcome [OF assms(1,3)]
  show "crash_reads (last ts) path = {Some bytes}" "crash_reads (last ts) (temp_sibling path) = {None}" if "r = None"
    using out that durable_crash_reads replaced_reads(1) [OF _ assms(1), of path bytes mode "last ts"] replaced_cleanup [of s path bytes mode "last ts"]
    by (auto simp: settled_def read_path_def)
  show "read_path (last ts) path = read_path s path \<or> f_dirsync flt" if "r \<noteq> None"
    using out that beside_reads(1) [OF _ assms(1), of "{temp_sibling path}" "{mode}" "last ts" path]
    by (auto simp: not_yet_def)
  show "read_path (last ts) (temp_sibling path) = None \<or> f_stale flt \<or> f_cleanup flt" if "r \<noteq> None"
    using out that by (auto simp: read_path_def)
qed (use replace_states [OF assms] in blast)+

text \<open>A first write into an empty directory, undisturbed; and one whose directory sync fails.\<close>

definition empty_fs :: fs where
  "empty_fs = \<lparr>fs_entry = (\<lambda>_. None), fs_maybe = (\<lambda>_. {None}), fs_data = (\<lambda>_. []), fs_mode = (\<lambda>_. 0), fs_link = (\<lambda>_. False),
     fs_synced = (\<lambda>_. False), fs_next = 0\<rparr>"

definition no_faults :: write_faults where
  "no_faults = \<lparr>f_stale = False, f_open = False, f_write = None, f_sync = False, f_rename = False, f_dirsync = False, f_cleanup = False\<rparr>"

lemma empty_fs_ok: "fs_wf empty_fs" "durable p empty_fs" "read_path empty_fs p = None" "\<not> is_symlink p empty_fs"
  by (simp_all add: fs_wf_def durable_def read_path_def is_symlink_def empty_fs_def)

lemma no_faults_succeeds: "fst (replace_atomically no_faults (''d'', ''k'') [1, 2] 420 empty_fs) = None"
  by (simp add: replace_atomically_def write_steps_def remove_file_def create_new_def write_all_def sync_all_def
      rename_file_def sync_parent_dir_def set_entry_def empty_fs_def no_faults_def temp_sibling_def)

theorem replace_atomic_witness:
  "crash_reads (last (snd (replace_atomically no_faults (''d'', ''k'') [1, 2] 420 empty_fs))) (''d'', ''k'') = {Some [1, 2]}
   \<and> list_all (\<lambda>t. Some [1] \<notin> crash_reads t (''d'', ''k''))
        (snd (replace_atomically (no_faults\<lparr>f_write := Some 1\<rparr>) (''d'', ''k'') [1, 2] 420 empty_fs))"
proof -
  let ?a = "replace_atomically no_faults (''d'', ''k'') [1, 2] 420 empty_fs"
  let ?b = "replace_atomically (no_faults\<lparr>f_write := Some 1\<rparr>) (''d'', ''k'') [1, 2] 420 empty_fs"
  have "crash_reads (last (snd ?a)) (''d'', ''k'') = {Some [1, 2]}"
    using replace_atomic [OF empty_fs_ok(1,2) prod.collapse [symmetric, of ?a]] no_faults_succeeds by blast
  moreover have "crash_reads t (''d'', ''k'') \<subseteq> {None, Some [1, 2]}" if "t \<in> set (snd ?b)" for t
    using replace_atomic [OF empty_fs_ok(1,2) prod.collapse [symmetric, of ?b]] that by (simp add: empty_fs_ok(3))
  ultimately show ?thesis unfolding list_all_iff by fastforce
qed

text \<open>
  Secrets on disk. \<^verbatim>\<open>write_private\<close> refuses a symbolic link and changes nothing then; otherwise no inode
  it creates is ever readable or writable for anyone but the owner, in no state on the way, and no
  existing inode's mode or content is changed. When it succeeds the secret is in a file of mode 0600.
\<close>

theorem secret_never_wide:
  assumes "fs_wf s" and "durable path s" and "write_private flt umask path bytes s = (r, ts)"
  shows "(is_symlink path s \<longrightarrow> r = Some ELOOP \<and> ts = [s])
     \<and> (\<forall>t \<in> set ts. (\<forall>i. fs_next s \<le> i \<and> i < fs_next t \<longrightarrow> fs_mode t i AND NOT 384 = 0)
            \<and> (\<forall>i < fs_next s. fs_mode t i = fs_mode s i))
     \<and> (r = None \<longrightarrow> (\<exists>i. fs_entry (last ts) path = Some i \<and> fs_data (last ts) i = bytes \<and> fs_mode (last ts) i = 384 AND NOT umask))"
proof (cases "is_symlink path s")
  case True
  then show ?thesis using assms by (auto simp: write_private_def)
next
  case False
  then have w: "replace_atomically flt path bytes (384 AND NOT umask) s = (r, ts)" using assms(3) by (simp add: write_private_def)
  have m: "(384 AND NOT umask) AND NOT 384 = 0" by (simp add: bit_eq_iff bit_simps)
  have "\<exists>i. fs_entry (last ts) path = Some i \<and> fs_data (last ts) i = bytes \<and> fs_mode (last ts) i = 384 AND NOT umask" if "r = None"
    using replace_outcome [OF assms(1) w] that
    by (force simp: settled_def replaced_def renamed_def holds_new_def beside_def)
  then show ?thesis using False replace_states(4,5) [OF assms(1,2) w] m by auto
qed

theorem secret_never_wide_witness:
  "list_all (\<lambda>t. fs_mode t ` {..<fs_next t} \<subseteq> {m. m AND NOT 384 = 0})
     (snd (write_private (no_faults\<lparr>f_sync := True\<rparr>) 18 (''d'', ''k'') [1, 2] empty_fs))"
proof -
  let ?w = "write_private (no_faults\<lparr>f_sync := True\<rparr>) 18 (''d'', ''k'') [1, 2] empty_fs"
  have "fs_mode t i AND NOT 384 = 0" if "t \<in> set (snd ?w)" "i < fs_next t" for t i
    using secret_never_wide [OF empty_fs_ok(1,2) prod.collapse [symmetric, of ?w]] that by (simp add: empty_fs_def)
  then show ?thesis unfolding list_all_iff by blast
qed

end
