(* ===== verification/SelfUpdate.thy ===== *)
theory SelfUpdate
  imports SecretFile Codec Rust_Text "HOL-Library.List_Lexorder"
begin

text \<open>
  Replacing the running binary by a newer release (\<^verbatim>\<open>self_update.rs\<close>, the Unix build): the version rules,
  the checksum file, the signed manifest, the download with its caps, the installation on the file
  system of \<^verbatim>\<open>SecretFile\<close>, the subcommand and the background loop.

  The web is a function from URLs to replies: within one update no URL is requested twice. SHA-256,
  Ed25519, base64 and the JSON reader are fields of \<open>update_libs\<close>, what the code relies on of them being
  nothing but that they are functions. Error texts are left out; every error has its constructor.
\<close>

section \<open>Versions, platforms, settings\<close>

datatype update_error =
    BadTag | UnsupportedPlatform | TransportError | HttpStatus nat | TooLarge | BodyError | NoTagName
  | BadHex | BadKey | NotUtf8 | NotBase64 | BadSignature | NotSigned | BadManifest | WrongTag | NotListed
  | NoManifest | NoSignature | DigestDisagrees | ListedTwice | NoDigest | NoEntry | AmbiguousDigest
  | ShaMismatch | StaleTemp | WriteFailed | InstallFailed

definition parse_version :: "string \<Rightarrow> nat list option" where
  "parse_version v =
     (let v = (case strip_prefix ''v'' v of Some r \<Rightarrow> r | None \<Rightarrow> v) in
      those (map (\<lambda>p. if p \<noteq> [] \<and> list_all is_ascii_digit p then parse_uint (Suc U64_MAX) p else None)
        (split_on CHR ''.'' v)))"

text \<open>Vectors of numbers are compared lexicographically.\<close>

definition version_is_newer :: "string \<Rightarrow> string \<Rightarrow> bool" where
  "version_is_newer current candidate =
     (case (parse_version current, parse_version candidate) of
        (Some cu, Some ca) \<Rightarrow> cu < ca
      | _ \<Rightarrow> False)"

definition RELEASES_API :: string where
  "RELEASES_API = ''https://api.github.com/repos/scimbe/ct-agent/releases/latest''"

definition RELEASE_DOWNLOAD_ROOT :: string where
  "RELEASE_DOWNLOAD_ROOT = ''https://github.com/scimbe/ct-agent/releases/download''"

definition release_download_base :: "string \<Rightarrow> update_error + string" where
  "release_download_base tag =
     (if parse_version tag = None \<or> \<not> starts_with ''v'' tag then Err BadTag
      else Ok (RELEASE_DOWNLOAD_ROOT @ ''/'' @ tag))"

definition MAX_UPDATE_BYTES :: nat where "MAX_UPDATE_BYTES = 256 * 1024 * 1024"
definition MAX_CHECKSUM_FILE_BYTES :: nat where "MAX_CHECKSUM_FILE_BYTES = 64 * 1024"
definition MAX_MANIFEST_BYTES :: nat where "MAX_MANIFEST_BYTES = 256 * 1024"
definition RELEASE_MANIFEST_NAME :: string where "RELEASE_MANIFEST_NAME = ''release-manifest.json''"
definition RELEASE_MANIFEST_SIG_NAME :: string where "RELEASE_MANIFEST_SIG_NAME = ''release-manifest.sig''"
definition RELEASE_MANIFEST_SCHEMA :: nat where "RELEASE_MANIFEST_SCHEMA = 1"

definition RELEASE_SIGNING_PUBKEYS :: "string list" where
  "RELEASE_SIGNING_PUBKEYS = [''73706122db4e9186743ab3aabdf55d80ecf7f08ddc6c5243c9887f7d9bcc9a78'']"

definition download_url :: "string \<Rightarrow> string \<Rightarrow> string" where
  "download_url base_url asset = rev (dropWhile (\<lambda>c. c = CHR ''/'') (rev base_url)) @ ''/'' @ asset"

definition env_truthy :: "string \<Rightarrow> bool" where
  "env_truthy v = (let v = trim v in v = ''1'' \<or> eq_ignore_ascii_case v ''true'')"

datatype checksum_policy = Require | Skip

definition checksum_policy_from_lookup :: "(string \<Rightarrow> string option) \<Rightarrow> checksum_policy" where
  "checksum_policy_from_lookup f =
     (case f ''CT_AGENT_UPDATE_SKIP_VERIFY'' of
        Some v \<Rightarrow> if env_truthy v then Skip else Require
      | None \<Rightarrow> Require)"

record update_check =
  current_version :: string
  latest_version :: string
  update_available :: bool
  asset_name :: string

definition extract_tag_name :: "string \<Rightarrow> string option" where
  "extract_tag_name body =
     (let key = CHR 0x22 # ''tag_name'' @ [CHR 0x22] in
      case find_sub key body of
        None \<Rightarrow> None
      | Some idx \<Rightarrow>
         (case split_once CHR '':'' (drop (idx + length key) body) of
            None \<Rightarrow> None
          | Some (_, r) \<Rightarrow>
             (case strip_prefix [CHR 0x22] (trim_start r) of
                None \<Rightarrow> None
              | Some v \<Rightarrow> map_option fst (split_once CHR 0x22 v))))"

definition asset_name_for_platform :: "string \<Rightarrow> string \<Rightarrow> update_error + string" where
  "asset_name_for_platform os arch =
     (let os_name = (if os = ''linux'' then Some ''linux'' else if os = ''macos'' then Some ''darwin''
                     else if os = ''windows'' then Some ''windows'' else None);
          arch_name = (if arch = ''x86_64'' then Some ''x86_64'' else if arch = ''aarch64'' then Some ''aarch64''
                       else if arch = ''x86'' then Some ''i686'' else None) in
      case (os_name, arch_name) of
        (Some n, Some a) \<Rightarrow> Ok (''ct-agent-'' @ n @ ''-'' @ a @ (if n = ''windows'' then ''.exe'' else ''''))
      | _ \<Rightarrow> Err UnsupportedPlatform)"

section \<open>The web\<close>

text \<open>
  A reply: its status, the length it claims, and the chunks of its body, any of which may fail to arrive. The
  text of the API's answer is its bytes: a lossy decoding replaces invalid sequences only, and no version
  tag has one.
\<close>

record http_reply =
  status :: nat
  content_length :: "nat option"
  chunks :: "(unit + bytes) list"

type_synonym web = "string \<Rightarrow> http_reply option"

definition is_success :: "nat \<Rightarrow> bool" where
  "is_success st = (200 \<le> st \<and> st < 300)"

fun read_chunks :: "nat \<Rightarrow> bytes \<Rightarrow> (unit + bytes) list \<Rightarrow> update_error + bytes" where
  "read_chunks mx body [] = Ok body"
| "read_chunks mx body (Inl e # cs) = Err BodyError"
| "read_chunks mx body (Inr c # cs) =
     (if mx < length body + length c then Err TooLarge else read_chunks mx (body @ c) cs)"

definition read_body_capped :: "http_reply \<Rightarrow> nat \<Rightarrow> update_error + bytes" where
  "read_body_capped resp mx =
     (if (case content_length resp of Some n \<Rightarrow> mx < n | None \<Rightarrow> False) then Err TooLarge
      else read_chunks mx [] (chunks resp))"

definition check_latest :: "web \<Rightarrow> string \<Rightarrow> string \<Rightarrow> string \<Rightarrow> update_error + update_check" where
  "check_latest web os arch current =
     (case web RELEASES_API of
        None \<Rightarrow> Err TransportError
      | Some resp \<Rightarrow>
          if \<not> is_success (status resp) then Err (HttpStatus (status resp))
          else if Inl () \<in> set (chunks resp) then Err BodyError
          else (case extract_tag_name (bytes_str (concat (map projr (chunks resp)))) of
              None \<Rightarrow> Err NoTagName
            | Some latest \<Rightarrow>
               (case asset_name_for_platform os arch of
                  Inl e \<Rightarrow> Err e
                | Inr asset \<Rightarrow> Ok \<lparr>current_version = current, latest_version = latest,
                    update_available = version_is_newer current latest, asset_name = asset\<rparr>)))"

section \<open>Digests and the checksum file\<close>

definition decode_hex_32 :: "string \<Rightarrow> update_error + bytes" where
  "decode_hex_32 s =
     (if length s \<noteq> 64 \<or> \<not> list_all is_ascii_hexdigit s then Err BadHex
      else (case hex_decode 32 s of Some d \<Rightarrow> Ok d | None \<Rightarrow> Err BadHex))"

text \<open>One entry: the digest, and the file name without the mark of a binary entry.\<close>

definition sha_entry :: "string \<Rightarrow> string \<times> string" where
  "sha_entry line =
     (let digest = takeWhile (\<lambda>c. \<not> is_ascii_whitespace c) line;
          name = trim_start (dropWhile (\<lambda>c. \<not> is_ascii_whitespace c) line) in
      (digest, case strip_prefix ''*'' name of Some r \<Rightarrow> r | None \<Rightarrow> name))"

definition base_name :: "string \<Rightarrow> string" where
  "base_name name = rev (takeWhile (\<lambda>c. c \<noteq> CHR ''/'' \<and> c \<noteq> CHR 0x5C) (rev name))"

text \<open>The loop over the lines: the unnamed digests, the one of the asset, and whether another asset is named.\<close>

fun sha_lines ::
  "string \<Rightarrow> string list \<Rightarrow> string list \<times> string option \<times> string list
     \<Rightarrow> update_error + string list \<times> string option \<times> string list" where
  "sha_lines asset [] st = Ok st"
| "sha_lines asset (raw # ls) (unnamed, named, other_names) =
     (let line = trim raw in
      if line = [] \<or> starts_with ''#'' line then sha_lines asset ls (unnamed, named, other_names)
      else (let (digest, name) = sha_entry line in
        if name = [] then sha_lines asset ls (unnamed @ [digest], named, other_names)
        else if base_name name = asset
        then (if named \<noteq> None then Err ListedTwice else sha_lines asset ls (unnamed, Some digest, other_names))
        else sha_lines asset ls (unnamed, named, other_names @ [name])))"

definition parse_sha256_file :: "string \<Rightarrow> string \<Rightarrow> update_error + bytes" where
  "parse_sha256_file text0 asset =
     (case sha_lines asset (str_lines text0) ([], None, []) of
        Inl e \<Rightarrow> Err e
      | Inr (unnamed, named, other_names) \<Rightarrow>
         (case (named, unnamed) of
            (Some d, _) \<Rightarrow> decode_hex_32 d
          | (None, [d]) \<Rightarrow> decode_hex_32 d
          | (None, []) \<Rightarrow> Err (if other_names = [] then NoDigest else NoEntry)
          | (None, _) \<Rightarrow> Err AmbiguousDigest))"

definition fetch_expected_sha256 :: "web \<Rightarrow> string \<Rightarrow> string \<Rightarrow> update_error + bytes" where
  "fetch_expected_sha256 web base_url asset =
     (case web (download_url base_url asset @ ''.sha256'') of
        None \<Rightarrow> Err TransportError
      | Some resp \<Rightarrow>
          if \<not> is_success (status resp) then Err (HttpStatus (status resp))
          else (case read_body_capped resp MAX_CHECKSUM_FILE_BYTES of
              Inl e \<Rightarrow> Err e
            | Inr body \<Rightarrow>
               (case from_utf8 body of None \<Rightarrow> Err NotUtf8 | Some t \<Rightarrow> parse_sha256_file t asset)))"

section \<open>Provenance\<close>

record manifest =
  schema :: nat
  tag :: string
  created_at :: nat
  assets :: "(string \<times> string) list"

record 'k update_libs =
  sha256 :: "bytes \<Rightarrow> bytes"
  key_from_bytes :: "bytes \<Rightarrow> 'k option"
  verify_strict :: "'k \<Rightarrow> bytes \<Rightarrow> bytes \<Rightarrow> bool"
  base64_decode :: "string \<Rightarrow> bytes option"
  manifest_from_json :: "bytes \<Rightarrow> manifest option"

datatype provenance_outcome = Verified | UnverifiedNoKey | NotProvided | Skipped

definition manifest_parse :: "'k update_libs \<Rightarrow> bytes \<Rightarrow> update_error + manifest" where
  "manifest_parse L bs =
     (case manifest_from_json L bs of
        None \<Rightarrow> Err BadManifest
      | Some m \<Rightarrow>
          if schema m \<noteq> RELEASE_MANIFEST_SCHEMA \<or> trim (tag m) = [] \<or> assets m = [] then Err BadManifest
          else if list_ex (\<lambda>(n, d). isl (decode_hex_32 d)) (assets m) then Err BadManifest
          else Ok m)"

definition digest_for :: "manifest \<Rightarrow> string \<Rightarrow> update_error + bytes" where
  "digest_for m asset = (case map_of (assets m) asset of Some d \<Rightarrow> decode_hex_32 d | None \<Rightarrow> Err NotListed)"

definition is_for_tag :: "manifest \<Rightarrow> string \<Rightarrow> bool" where
  "is_for_tag m t =
     (let strip = (\<lambda>x. dropWhile (\<lambda>c. c = CHR ''v'') (trim x)) in strip (tag m) = strip t)"

definition decode_release_pubkey_hex :: "'k update_libs \<Rightarrow> string \<Rightarrow> update_error + 'k" where
  "decode_release_pubkey_hex L hex =
     (case decode_hex_32 (trim hex) of
        Inl e \<Rightarrow> Err e
      | Inr b \<Rightarrow> (case key_from_bytes L b of Some k \<Rightarrow> Ok k | None \<Rightarrow> Err BadKey))"

fun decode_keys :: "'k update_libs \<Rightarrow> string list \<Rightarrow> update_error + 'k list" where
  "decode_keys L [] = Ok []"
| "decode_keys L (h # hs) =
     (case decode_release_pubkey_hex L h of
        Inl e \<Rightarrow> Err e
      | Inr k \<Rightarrow> (case decode_keys L hs of Inl e \<Rightarrow> Err e | Inr ks \<Rightarrow> Ok (k # ks)))"

definition provenance_from_lookup ::
  "'k update_libs \<Rightarrow> string list \<Rightarrow> (string \<Rightarrow> string option) \<Rightarrow> update_error + 'k list" where
  "provenance_from_lookup L pinned f =
     (case f ''CT_AGENT_RELEASE_PUBKEY'' of
        Some v \<Rightarrow>
          if trim v \<noteq> []
          then (case decode_release_pubkey_hex L v of Inl e \<Rightarrow> Err e | Inr k \<Rightarrow> Ok [k])
          else decode_keys L pinned
      | None \<Rightarrow> decode_keys L pinned)"

definition verify_manifest_signature ::
  "'k update_libs \<Rightarrow> bytes \<Rightarrow> bytes \<Rightarrow> 'k list \<Rightarrow> update_error + unit" where
  "verify_manifest_signature L m sig_file keys =
     (case from_utf8 sig_file of
        None \<Rightarrow> Err NotUtf8
      | Some t \<Rightarrow>
         (case base64_decode L (trim t) of
            None \<Rightarrow> Err NotBase64
          | Some raw \<Rightarrow>
              if length raw \<noteq> 64 then Err BadSignature
              else if list_ex (\<lambda>k. verify_strict L k m raw) keys then Ok () else Err NotSigned))"

definition fetch_release_manifest :: "web \<Rightarrow> string \<Rightarrow> update_error + (bytes \<times> bytes option) option" where
  "fetch_release_manifest web base_url =
     (case web (download_url base_url RELEASE_MANIFEST_NAME) of
        None \<Rightarrow> Err TransportError
      | Some resp \<Rightarrow>
          if status resp = 404 then Ok None
          else if \<not> is_success (status resp) then Err (HttpStatus (status resp))
          else (case read_body_capped resp MAX_MANIFEST_BYTES of
              Inl e \<Rightarrow> Err e
            | Inr m \<Rightarrow>
               (case web (download_url base_url RELEASE_MANIFEST_SIG_NAME) of
                  None \<Rightarrow> Err TransportError
                | Some resp2 \<Rightarrow>
                    if status resp2 = 404 then Ok (Some (m, None))
                    else if \<not> is_success (status resp2) then Err (HttpStatus (status resp2))
                    else (case read_body_capped resp2 MAX_MANIFEST_BYTES of
                        Inl e \<Rightarrow> Err e
                      | Inr sg \<Rightarrow> Ok (Some (m, Some sg))))))"

definition evaluate_provenance ::
  "'k update_libs \<Rightarrow> 'k list \<Rightarrow> (bytes \<times> bytes option) option \<Rightarrow> string \<Rightarrow> string \<Rightarrow> bytes
     \<Rightarrow> update_error + provenance_outcome \<times> bytes" where
  "evaluate_provenance L keys fetched expected_tag asset per_asset_digest =
     (if keys = [] then
        Ok (case fetched of None \<Rightarrow> NotProvided | Some _ \<Rightarrow> UnverifiedNoKey, per_asset_digest)
      else (case fetched of
          None \<Rightarrow> Err NoManifest
        | Some (_, None) \<Rightarrow> Err NoSignature
        | Some (mbytes, Some sg) \<Rightarrow>
           (case verify_manifest_signature L mbytes sg keys of
              Inl e \<Rightarrow> Err e
            | Inr _ \<Rightarrow>
               (case manifest_parse L mbytes of
                  Inl e \<Rightarrow> Err e
                | Inr m \<Rightarrow>
                    if \<not> is_for_tag m expected_tag then Err WrongTag
                    else (case digest_for m asset of
                        Inl e \<Rightarrow> Err e
                      | Inr digest \<Rightarrow>
                          if digest \<noteq> per_asset_digest then Err DigestDisagrees else Ok (Verified, digest))))))"

section \<open>Download and installation\<close>

definition verify_sha256 :: "'k update_libs \<Rightarrow> bytes \<Rightarrow> bytes \<Rightarrow> update_error + unit" where
  "verify_sha256 L bs expected = (if sha256 L bs = expected then Ok () else Err ShaMismatch)"

definition expected_digest ::
  "'k update_libs \<Rightarrow> web \<Rightarrow> string \<Rightarrow> string \<Rightarrow> string \<Rightarrow> checksum_policy \<Rightarrow> 'k list
     \<Rightarrow> update_error + bytes option \<times> provenance_outcome" where
  "expected_digest L web base_url asset expected_tag policy keys =
     (case policy of
        Skip \<Rightarrow> Ok (None, Skipped)
      | Require \<Rightarrow>
         (case fetch_expected_sha256 web base_url asset of
            Inl e \<Rightarrow> Err e
          | Inr per_asset \<Rightarrow>
             (case fetch_release_manifest web base_url of
                Inl e \<Rightarrow> Err e
              | Inr fetched \<Rightarrow>
                 (case evaluate_provenance L keys fetched expected_tag asset per_asset of
                    Inl e \<Rightarrow> Err e
                  | Inr (outcome, digest) \<Rightarrow> Ok (Some digest, outcome)))))"

definition download_verified ::
  "'k update_libs \<Rightarrow> web \<Rightarrow> string \<Rightarrow> string \<Rightarrow> string \<Rightarrow> checksum_policy \<Rightarrow> 'k list \<Rightarrow> nat
     \<Rightarrow> update_error + bytes \<times> provenance_outcome" where
  "download_verified L web base_url asset expected_tag policy keys mx =
     (case expected_digest L web base_url asset expected_tag policy keys of
        Inl e \<Rightarrow> Err e
      | Inr (expected, outcome) \<Rightarrow>
         (case web (download_url base_url asset) of
            None \<Rightarrow> Err TransportError
          | Some resp \<Rightarrow>
              if \<not> is_success (status resp) then Err (HttpStatus (status resp))
              else (case read_body_capped resp mx of
                  Inl e \<Rightarrow> Err e
                | Inr body \<Rightarrow>
                   (case expected of
                      None \<Rightarrow> Ok (body, outcome)
                    | Some d \<Rightarrow>
                       (case verify_sha256 L body d of Inl e \<Rightarrow> Err e | Inr _ \<Rightarrow> Ok (body, outcome))))))"

record update_faults =
  u_stale :: bool
  u_write :: write_faults
  u_chmod :: bool
  u_rename :: bool
  u_dirsync :: bool

definition tmp_path :: "path \<Rightarrow> string \<Rightarrow> path" where
  "tmp_path exe asset = (fst exe, ''.'' @ asset @ ''.new'')"

text \<open>The part that touches the disk: the states after every call are kept.\<close>

definition install :: "update_faults \<Rightarrow> u32 \<Rightarrow> path \<Rightarrow> path \<Rightarrow> bytes \<Rightarrow> fs \<Rightarrow> (update_error + unit) \<times> fs list" where
  "install flt umask tmp exe bs s =
     (let (e, s1) = remove_file (u_stale flt) tmp s in
      if e \<noteq> None \<and> e \<noteq> Some NotFound then (Err StaleTemp, [s1])
      else (let (w, ts) = write_durable (u_write flt) umask tmp bs s1 in
        if w \<noteq> None then (Err WriteFailed, s1 # ts)
        else (let (r, us) = run_steps [set_permissions (u_chmod flt) 493 tmp, rename_file (u_rename flt) tmp exe,
                  sync_parent_dir (u_dirsync flt) exe] (last ts) in
          (if r = None then Ok () else Err InstallFailed, s1 # ts @ us))))"

definition perform_update_into ::
  "'k update_libs \<Rightarrow> web \<Rightarrow> update_faults \<Rightarrow> u32 \<Rightarrow> update_check \<Rightarrow> path \<Rightarrow> string \<Rightarrow> checksum_policy \<Rightarrow> 'k list \<Rightarrow> nat
     \<Rightarrow> fs \<Rightarrow> (update_error + provenance_outcome) \<times> fs list" where
  "perform_update_into L web flt umask check exe base_url policy keys mx s =
     (case download_verified L web base_url (asset_name check) (latest_version check) policy keys mx of
        Inl e \<Rightarrow> (Err e, [])
      | Inr (bs, outcome) \<Rightarrow>
         (case install flt umask (tmp_path exe (asset_name check)) exe bs s of
            (Inl e, ts) \<Rightarrow> (Err e, ts)
          | (Inr _, ts) \<Rightarrow> (Ok outcome, ts)))"

text \<open>What an update meets: the libraries, the web, the platform, the environment, the executable, the faults.\<close>

record 'k update_world =
  w_libs :: "'k update_libs"
  w_web :: web
  w_os :: string
  w_arch :: string
  w_env :: "string \<Rightarrow> string option"
  w_exe :: path
  w_umask :: u32
  w_faults :: update_faults

definition perform_update :: "'k update_world \<Rightarrow> update_check \<Rightarrow> fs \<Rightarrow> (update_error + provenance_outcome) \<times> fs list" where
  "perform_update W check s =
     (case provenance_from_lookup (w_libs W) RELEASE_SIGNING_PUBKEYS (w_env W) of
        Inl e \<Rightarrow> (Err e, [])
      | Inr keys \<Rightarrow>
         (case release_download_base (latest_version check) of
            Inl e \<Rightarrow> (Err e, [])
          | Inr base \<Rightarrow>
              perform_update_into (w_libs W) (w_web W) (w_faults W) (w_umask W) check (w_exe W) base
                (checksum_policy_from_lookup (w_env W)) keys MAX_UPDATE_BYTES s))"

datatype update_event =
    CheckError update_error | UpToDate | Available string | Applied string | ApplyFailed update_error

definition run_update :: "'k update_world \<Rightarrow> string \<Rightarrow> fs \<Rightarrow> (update_error + unit) \<times> update_event list \<times> fs list" where
  "run_update W current s =
     (case check_latest (w_web W) (w_os W) (w_arch W) current of
        Inl e \<Rightarrow> (Err e, [CheckError e], [])
      | Inr check \<Rightarrow>
          if \<not> update_available check then (Ok (), [UpToDate], [])
          else (case perform_update W check s of
              (Inl e, ts) \<Rightarrow> (Err e, [Available (latest_version check)], ts)
            | (Inr _, ts) \<Rightarrow> (Ok (), [Available (latest_version check), Applied (latest_version check)], ts)))"

section \<open>The background loop\<close>

definition DEFAULT_AUTO_UPDATE_INTERVAL_SECS :: nat where "DEFAULT_AUTO_UPDATE_INTERVAL_SECS = 86400"
definition MIN_AUTO_UPDATE_INTERVAL_SECS :: nat where "MIN_AUTO_UPDATE_INTERVAL_SECS = 300"

definition auto_update_from_lookup :: "(string \<Rightarrow> string option) \<Rightarrow> duration option" where
  "auto_update_from_lookup f =
     (if \<not> (case f ''CT_AGENT_AUTO_UPDATE'' of Some v \<Rightarrow> env_truthy v | None \<Rightarrow> False) then None
      else (let n = (case f ''CT_AGENT_AUTO_UPDATE_INTERVAL_SECS'' of
                Some v \<Rightarrow> (case parse_uint (Suc U64_MAX) (trim v) of Some n \<Rightarrow> n | None \<Rightarrow> DEFAULT_AUTO_UPDATE_INTERVAL_SECS)
              | None \<Rightarrow> DEFAULT_AUTO_UPDATE_INTERVAL_SECS) in
            Some (secs (max n MIN_AUTO_UPDATE_INTERVAL_SECS))))"

text \<open>
  One round after the sleep: whether the process exits for its supervisor, the events and the states.
  The loop runs over what its rounds meet; each starts from the disk the last one left.
\<close>

definition auto_update_round :: "'k update_world \<Rightarrow> string \<Rightarrow> fs \<Rightarrow> bool \<times> update_event list \<times> fs list" where
  "auto_update_round W current s =
     (case check_latest (w_web W) (w_os W) (w_arch W) current of
        Inl e \<Rightarrow> (False, [CheckError e], [])
      | Inr check \<Rightarrow>
          if \<not> update_available check then (False, [UpToDate], [])
          else (case perform_update W check s of
              (Inl e, ts) \<Rightarrow> (False, [Available (latest_version check), ApplyFailed e], ts)
            | (Inr _, ts) \<Rightarrow> (True, [Available (latest_version check), Applied (latest_version check)], ts)))"


section \<open>Installation is atomic\<close>











section \<open>Checksum files\<close>

text \<open>A checksum file as coreutils writes it, in text or binary mode, one line for each asset.\<close>

definition sum_line :: "bytes \<times> bool \<times> string \<Rightarrow> string" where
  "sum_line e = (case e of (d, binary, name) \<Rightarrow> hex_encode d @ (if binary then '' *'' else ''  '') @ name)"

definition checksum_file :: "(bytes \<times> bool \<times> string) list \<Rightarrow> string" where
  "checksum_file es = concat (map (\<lambda>e. sum_line e @ [CHR 0x0A]) es)"

definition plain_name :: "string \<Rightarrow> bool" where
  "plain_name n \<longleftrightarrow> n \<noteq> [] \<and> hd n \<noteq> CHR ''*'' \<and> list_all (\<lambda>c. graphic c \<and> c \<noteq> CHR ''/'' \<and> c \<noteq> CHR 0x5C) n"

lemma hexdigit_graphic: "is_ascii_hexdigit c \<Longrightarrow> graphic c \<and> \<not> is_ascii_whitespace c"
  by (auto simp: is_ascii_hexdigit_def is_ascii_digit_def graphic_def is_ascii_whitespace_def)

lemma str_lines_concat:
  "list_all (\<lambda>l. l \<noteq> [] \<and> list_all (\<lambda>c. c = CHR '' '' \<or> graphic c) l) ls \<Longrightarrow> str_lines (concat (map (\<lambda>l. l @ [CHR 0x0A]) ls)) = ls"
proof -
  assume ls: "list_all (\<lambda>l. l \<noteq> [] \<and> list_all (\<lambda>c. c = CHR '' '' \<or> graphic c) l) ls"
  have "split_on CHR 0x0A (concat (map (\<lambda>l. l @ [CHR 0x0A]) ls)) = ls @ [[]]"
    using ls
  proof (induction ls)
    case (Cons l ls)
    moreover have "\<not> (CHR 0x0A = CHR '' '' \<or> graphic CHR 0x0A)" by (simp add: graphic_def)
    ultimately have "CHR 0x0A \<notin> set l" unfolding list_all_iff by fastforce
    then show ?case using Cons by (simp add: split_on_append_sep)
  qed simp
  moreover have "l \<noteq> [] \<and> last l \<noteq> CHR 0x0D" if "l \<in> set ls" for l
  proof -
    have "l \<noteq> []" "last l = CHR '' '' \<or> graphic (last l)" using ls that last_in_set by (auto simp: list_all_iff)
    then show ?thesis by (auto simp: graphic_def)
  qed
  ultimately show ?thesis by (simp add: str_lines_def map_idI)
qed

lemma sum_line_entry:
  assumes "length d = 32" and "plain_name n"
  shows "trim (sum_line (d, b, n)) = sum_line (d, b, n)" "sum_line (d, b, n) \<noteq> []" "\<not> starts_with ''#'' (sum_line (d, b, n))"
    "sha_entry (sum_line (d, b, n)) = (hex_encode d, n)" "base_name n = n"
    "list_all (\<lambda>c. c = CHR '' '' \<or> graphic c) (sum_line (d, b, n))"
proof -
  have ne: "hex_encode d \<noteq> []" using assms(1) length_hex_encode [of d] by (metis list.size(3) mult_eq_0_iff zero_neq_numeral)
  have hd: "is_ascii_hexdigit (hd (hex_encode d))" using hex_encode_chars ne by (metis list.set_sel(1))
  have nm: "n \<noteq> []" "graphic (hd n)" "graphic (last n)" "hd n \<noteq> CHR ''*''"
    using assms(2) by (auto simp: plain_name_def list_all_iff)
  show "trim (sum_line (d, b, n)) = sum_line (d, b, n)"
    using ne hd nm hexdigit_graphic by (intro trim_graphic) (simp add: sum_line_def)
  show "sum_line (d, b, n) \<noteq> []" using ne by (simp add: sum_line_def)
  show "\<not> starts_with ''#'' (sum_line (d, b, n))"
    using hd ne by (cases "hex_encode d") (auto simp: sum_line_def starts_with_def is_ascii_hexdigit_def is_ascii_digit_def)
  have ws: "c \<in> set (hex_encode d) \<Longrightarrow> \<not> is_ascii_whitespace c" for c
    using hex_encode_chars hexdigit_graphic by blast
  have sp: "is_ascii_whitespace CHR '' ''" by (simp add: is_ascii_whitespace_def)
  have "strip_prefix ''*'' n = None" using nm(1,4) by (cases n) auto
  then show "sha_entry (sum_line (d, b, n)) = (hex_encode d, n)"
    using ws sp nm by (simp add: sha_entry_def sum_line_def takeWhile_append dropWhile_append trim_start_space trim_start_graphic
        graphic_def del: append_assoc)
  have "takeWhile (\<lambda>c. c \<noteq> CHR ''/'' \<and> c \<noteq> CHR 0x5C) (rev n) = rev n"
    using assms(2) unfolding takeWhile_eq_all_conv plain_name_def list_all_iff by simp
  then show "base_name n = n" unfolding base_name_def by (simp only: rev_rev_ident)
  show "list_all (\<lambda>c. c = CHR '' '' \<or> graphic c) (sum_line (d, b, n))"
    using assms(2) hex_encode_chars hexdigit_graphic by (auto simp: sum_line_def plain_name_def list_all_iff graphic_def)
qed

lemma sha_lines_sums:
  assumes "list_all (\<lambda>(d, b, n). length d = 32 \<and> plain_name n) es" and "distinct (map (snd \<circ> snd) es)"
    and "named = None \<or> asset \<notin> set (map (snd \<circ> snd) es)"
  shows "\<exists>others. sha_lines asset (map sum_line es) (unnamed, named, o0) =
     Ok (unnamed, (case find (\<lambda>(d, b, n). n = asset) es of Some (d, _) \<Rightarrow> Some (hex_encode d) | None \<Rightarrow> named), o0 @ others)
     \<and> (others = [] \<longrightarrow> list_all (\<lambda>(d, b, n). n = asset) es)"
  using assms
proof (induction es arbitrary: named o0)
  case (Cons e es)
  obtain d b n where e: "e = (d, b, n)" by (cases e)
  then have l: "length d = 32" "plain_name n" and ne: "n \<noteq> []" using Cons(2) by (auto simp: plain_name_def)
  note le = sum_line_entry(1-4) [OF l, of b] sum_line_entry(5) [OF l] ne
  show ?case
  proof (cases "n = asset")
    case True
    then have "asset \<notin> set (map (snd \<circ> snd) es)" "named = None" using Cons(3,4) e by auto
    moreover from this have "find (\<lambda>(d, b, n). n = asset) es = None" by (force simp: find_None_iff)
    ultimately show ?thesis using Cons(1) [of "Some (hex_encode d)" o0] Cons(2,3) le True
      by (auto simp: e)
  next
    case False
    then obtain others where "sha_lines asset (map sum_line es) (unnamed, named, o0 @ [n]) =
       Ok (unnamed, (case find (\<lambda>(d, b, n). n = asset) es of Some (d, _) \<Rightarrow> Some (hex_encode d) | None \<Rightarrow> named), (o0 @ [n]) @ others)"
      using Cons(1) [of named "o0 @ [n]"] Cons(2-4) e by auto
    then show ?thesis using le False by (intro exI [of _ "n # others"]) (simp add: e)
  qed
qed simp

lemma decode_hex_32_encode: "length d = 32 \<Longrightarrow> decode_hex_32 (hex_encode d) = Ok d"
  using hex_encode_chars by (auto simp: decode_hex_32_def list_all_iff)

lemma checksum_file_lines:
  assumes "list_all (\<lambda>(d, b, n). length d = 32 \<and> plain_name n) es"
  shows "str_lines (checksum_file es) = map sum_line es"
proof -
  have "checksum_file es = concat (map (\<lambda>l. l @ [CHR 0x0A]) (map sum_line es))" by (simp add: checksum_file_def comp_def)
  moreover have "list_all (\<lambda>l. l \<noteq> [] \<and> list_all (\<lambda>c. c = CHR '' '' \<or> graphic c) l) (map sum_line es)"
    using assms sum_line_entry(2,6) by (fastforce simp: list_all_iff)
  ultimately show ?thesis using str_lines_concat by presburger
qed

lemma parse_listed:
  assumes "list_all (\<lambda>(d, b, n). length d = 32 \<and> plain_name n) es" and "distinct (map (snd \<circ> snd) es)" and m: "(d, b, n) \<in> set es"
  shows "parse_sha256_file (checksum_file es) n = Ok d"
proof -
  obtain x where x: "find (\<lambda>(d, b, m). m = n) es = Some x" "x \<in> set es" "snd (snd x) = n"
    using m by (cases "find (\<lambda>(d, b, m). m = n) es") (fastforce simp: find_None_iff find_Some_iff dest: nth_mem)+
  then have "x = (d, b, n)" using assms(2) m by (auto simp: distinct_map inj_on_def)
  moreover have "decode_hex_32 (hex_encode d) = Ok d" using assms(1) m decode_hex_32_encode by (auto simp: list_all_iff)
  ultimately show ?thesis
    using x(1) sha_lines_sums [OF assms(1,2), of None n "[]" "[]"] checksum_file_lines [OF assms(1)]
    by (auto simp: parse_sha256_file_def)
qed

lemma parse_unlisted:
  assumes "list_all (\<lambda>(d, b, n). length d = 32 \<and> plain_name n) es" and "distinct (map (snd \<circ> snd) es)"
    and m: "n \<notin> set (map (snd \<circ> snd) es)"
  shows "parse_sha256_file (checksum_file es) n = Err (if es = [] then NoDigest else NoEntry)"
proof -
  obtain others where p: "sha_lines n (map sum_line es) ([], None, []) =
       Ok ([], (case find (\<lambda>(d, b, m). m = n) es of Some (d, _) \<Rightarrow> Some (hex_encode d) | None \<Rightarrow> None), others)"
      "others = [] \<longrightarrow> list_all (\<lambda>(d, b, m). m = n) es"
    using sha_lines_sums [OF assms(1,2), of None n "[]" "[]"] by auto
  moreover have "find (\<lambda>(d, b, m). m = n) es = None" using m by (force simp: find_None_iff)
  moreover have "others = [] \<longleftrightarrow> es = []" using p m by (cases es) auto
  ultimately show ?thesis using checksum_file_lines [OF assms(1)] by (simp add: parse_sha256_file_def)
qed

text \<open>
  Checksum files. Every asset listed in a file of several entries, in text or binary mode, gets its
  own digest; an asset that the file does not list gets none, so the checksum of another binary of
  the release is never taken for the agent's.
\<close>

theorem checksum_file_roundtrip:
  assumes "list_all (\<lambda>(d, b, n). length d = 32 \<and> plain_name n) es" and "distinct (map (snd \<circ> snd) es)"
  shows "((d, b, n) \<in> set es \<longrightarrow> parse_sha256_file (checksum_file es) n = Ok d)
     \<and> (n \<notin> set (map (snd \<circ> snd) es) \<longrightarrow>
          parse_sha256_file (checksum_file es) n = Err (if es = [] then NoDigest else NoEntry))"
  using parse_listed [OF assms] parse_unlisted [OF assms] by blast

theorem checksum_file_roundtrip_witness:
  "parse_sha256_file (checksum_file [(replicate 32 1, False, ''ct-agent''), (replicate 32 2, True, ''ct-agent-supervisor'')]) ''ct-agent''
     = Ok (replicate 32 1)
   \<and> parse_sha256_file (checksum_file [(replicate 32 2, True, ''ct-agent-supervisor'')]) ''ct-agent'' = Err NoEntry"
  using checksum_file_roundtrip [of "[(replicate 32 1, False, ''ct-agent''), (replicate 32 2, True, ''ct-agent-supervisor'')]" "replicate 32 1" False "''ct-agent''"]
    checksum_file_roundtrip [of "[(replicate 32 2, True, ''ct-agent-supervisor'')]" "[]" False "''ct-agent''"]
  by (simp add: plain_name_def graphic_def)

section \<open>Only genuine binaries are installed\<close>












text \<open>The subcommand does what a round of the loop does.\<close>

lemma run_update_round:
  "auto_update_round W current s = (exits, evs, ts) \<Longrightarrow>
     snd (snd (run_update W current s)) = ts \<and> (exits \<longleftrightarrow> (\<exists>v. Applied v \<in> set (fst (snd (run_update W current s)))))"
  by (auto simp: auto_update_round_def run_update_def split: sum.splits prod.splits if_splits)




















end
