(* ===== verification/Supervisor.thy ===== *)
theory Supervisor
  imports AdmissionErrors Reconnect Codec Rust_Text
begin

text \<open>
  The supervisor (\<^verbatim>\<open>bin/ct-agent-supervisor.rs\<close>): the drain of the child's stderr with its ring of lines, the
  classification of an exit, the restart loop with its history, and the access to the status endpoint.

  The child's stderr is the list of what reads from the pipe give; a run of the child is how it ended
  and how long it ran. The environment and the clock are arguments.
\<close>

section \<open>The stderr pump\<close>

definition STDERR_RING_LINES :: nat where "STDERR_RING_LINES = 50"
definition STDERR_MAX_LINE :: nat where "STDERR_MAX_LINE = 16 * 1024"

datatype pipe_read = Data bytes | Interrupted | Broken

datatype line_read = Line bytes | Eof | Retry | Fail

definition NL :: byte where "NL = 10"

text \<open>
  One \<^verbatim>\<open>read_until\<close> on the reader limited to the longest line: what it gives and what is left. The bytes
  that arrived before an error are in the buffer, which is cleared before the next call.
\<close>

fun read_line :: "bytes \<Rightarrow> pipe_read list \<Rightarrow> line_read \<times> pipe_read list" where
  "read_line acc [] = (if acc = [] then Eof else Line acc, [])"
| "read_line acc (Interrupted # rs) = (Retry, rs)"
| "read_line acc (Broken # rs) = (Fail, rs)"
| "read_line acc (Data bs # rs) =
     (let room = STDERR_MAX_LINE - length acc;
          upto = takeWhile (\<lambda>b. b \<noteq> NL) (take room bs);
          got = (if length upto < length (take room bs) then upto @ [NL] else take room bs);
          left = Data (drop (length got) bs) # rs in
      if length upto < length (take room bs) \<or> room \<le> length bs then (Line (acc @ got), left)
      else read_line (acc @ bs) rs)"

text \<open>\<^verbatim>\<open>tokio::io::copy\<close> of what is left: up to the end or the next error.\<close>

fun copy_rest :: "pipe_read list \<Rightarrow> bytes" where
  "copy_rest (Data bs # rs) = bs @ copy_rest rs"
| "copy_rest _ = []"

definition pipe_size :: "pipe_read list \<Rightarrow> nat" where
  "pipe_size rs = sum_list (map (\<lambda>r. case r of Data bs \<Rightarrow> Suc (length bs) | _ \<Rightarrow> 1) rs)"

lemma pipe_size_simps [simp]:
  "pipe_size [] = 0" "pipe_size (Data bs # rs) = Suc (length bs) + pipe_size rs"
  "pipe_size (Interrupted # rs) = Suc (pipe_size rs)" "pipe_size (Broken # rs) = Suc (pipe_size rs)"
  by (simp_all add: pipe_size_def)

lemma read_line_shrinks:
  "length acc < STDERR_MAX_LINE \<Longrightarrow> rs \<noteq> [] \<Longrightarrow> pipe_size (snd (read_line acc rs)) < pipe_size rs"
proof (induction acc rs rule: read_line.induct)
  case (4 acc bs rs)
  let ?room = "STDERR_MAX_LINE - length acc"
  let ?upto = "takeWhile (\<lambda>b. b \<noteq> NL) (take ?room bs)"
  show ?case
  proof (cases "length ?upto < length (take ?room bs) \<or> ?room \<le> length bs")
    case True
    then have "bs \<noteq> []" using 4(2) by auto
    then show ?thesis using True 4(2) by (auto simp: Let_def)
  next
    case False
    then have "\<not> ?room \<le> length bs" by blast
    then have "length (acc @ bs) < STDERR_MAX_LINE" by simp
    then show ?thesis using 4(1) [OF refl refl refl refl False] False
      by (cases "rs = []") (auto simp: Let_def)
  qed
qed auto

definition ring_push :: "string list \<Rightarrow> bytes \<Rightarrow> string list" where
  "ring_push ring line =
     (if STDERR_RING_LINES \<le> length ring then tl ring else ring)
     @ [from_utf8_lossy (bytes_str (if line \<noteq> [] \<and> last line = NL then butlast line else line))]"

text \<open>The pump: what it has forwarded, and the ring at the end.\<close>

function pump_stderr :: "pipe_read list \<Rightarrow> string list \<Rightarrow> bytes \<times> string list" where
  "pump_stderr rs ring =
     (case read_line [] rs of
        (Eof, _) \<Rightarrow> ([], ring)
      | (Retry, rs') \<Rightarrow> pump_stderr rs' ring
      | (Fail, rs') \<Rightarrow> (copy_rest rs', ring)
      | (Line l, rs') \<Rightarrow> (let (out, r) = pump_stderr rs' (ring_push ring l) in (l @ out, r)))"
  by pat_completeness auto
termination
proof (relation "measure (\<lambda>(rs, ring). pipe_size rs)")
  fix rs ring x rs'
  assume "(x, rs') = read_line [] rs"
  then have "rs' = snd (read_line [] rs)" by (metis snd_conv)
  then have "rs \<noteq> [] \<Longrightarrow> pipe_size rs' < pipe_size rs" using read_line_shrinks [of "[]" rs] by (simp add: STDERR_MAX_LINE_def)
  moreover have "x = Retry \<Longrightarrow> rs \<noteq> []" "x = Line l \<Longrightarrow> rs \<noteq> []" for l using \<open>(x, rs') = read_line [] rs\<close> by auto
  ultimately show "x = Retry \<Longrightarrow> ((rs', ring), rs, ring) \<in> measure (\<lambda>(rs, ring). pipe_size rs)"
    "\<And>l. x = Line l \<Longrightarrow> ((rs', ring_push ring l), rs, ring) \<in> measure (\<lambda>(rs, ring). pipe_size rs)" by auto
qed simp

declare pump_stderr.simps [simp del]

section \<open>Why the child ended\<close>

datatype crash_reason = Signal int | Panic string | CleanExit int | CleanExitOk | GrantEnded

definition show_int :: "int \<Rightarrow> string" where
  "show_int n = (if n < 0 then ''-'' @ show_nat (nat (- n)) else show_nat (nat n))"

definition reason_text :: "crash_reason \<Rightarrow> string" where
  "reason_text r =
     (case r of
        Signal n \<Rightarrow> ''killed by signal '' @ show_int n
      | Panic msg \<Rightarrow> ''panic: '' @ msg
      | CleanExit code \<Rightarrow> ''clean exit code '' @ show_int code
      | CleanExitOk \<Rightarrow> ''exited 0''
      | GrantEnded \<Rightarrow> ''own channel grant ended (exit code '' @ show_int OWN_GRANT_ENDED_EXIT @ '')'')"

definition final_status :: "crash_reason \<Rightarrow> int option" where
  "final_status r = (if r = GrantEnded then Some OWN_GRANT_ENDED_EXIT else None)"

fun boundary_below :: "string \<Rightarrow> nat \<Rightarrow> nat" where
  "boundary_below s 0 = 0"
| "boundary_below s (Suc n) = (if is_char_boundary s (Suc n) then Suc n else boundary_below s n)"

definition PANIC_MAX_LEN :: nat where "PANIC_MAX_LEN = 300"

definition classify_exit :: "int option \<Rightarrow> int option \<Rightarrow> string list \<Rightarrow> crash_reason" where
  "classify_exit signal code ring =
     (case signal of
        Some sg \<Rightarrow> Signal sg
      | None \<Rightarrow>
         (let c = (case code of Some c \<Rightarrow> c | None \<Rightarrow> -1) in
          if c = 0 then CleanExitOk
          else if c = OWN_GRANT_ENDED_EXIT then GrantEnded
          else (case find (\<lambda>l. contains ''panicked at'' l) (rev ring) of
              Some l \<Rightarrow> Panic (take (boundary_below l (min PANIC_MAX_LEN (length l))) l)
            | None \<Rightarrow> CleanExit c)))"

text \<open>
  One run of the child: it could not be started, the supervisor was told to stop meanwhile, or it
  ended by itself; then the ring counts if the pump ended within two seconds.
\<close>

datatype child_run =
    SpawnFailed
  | StopAsked
  | ChildExit "int option" "int option" "pipe_read list" bool

datatype run_end = Exited crash_reason | Stopped

definition run_once :: "child_run \<Rightarrow> unit + run_end" where
  "run_once run =
     (case run of
        SpawnFailed \<Rightarrow> Err ()
      | StopAsked \<Rightarrow> Ok Stopped
      | ChildExit signal code pipe pump_done \<Rightarrow>
          Ok (Exited (classify_exit signal code (if pump_done then snd (pump_stderr pipe []) else []))))"

section \<open>The restart loop\<close>

definition HISTORY_LEN :: nat where "HISTORY_LEN = 10"
definition HEALTHY_UPTIME_THRESHOLD :: duration where "HEALTHY_UPTIME_THRESHOLD = secs 60"
definition BASE_DELAY :: duration where "BASE_DELAY = secs 1"
definition MAX_DELAY :: duration where "MAX_DELAY = secs 60"

record crash_record =
  cr_reason :: string
  cr_at_unix :: nat
  cr_uptime_secs :: nat

record supervisor =
  sp_backoff :: backoff
  sp_records :: "crash_record list"
  sp_restart_count :: nat

definition supervisor_start :: supervisor where
  "supervisor_start = \<lparr>sp_backoff = backoff_new BASE_DELAY MAX_DELAY U32_MAX, sp_records = [], sp_restart_count = 0\<rparr>"

definition note_crash :: "crash_record \<Rightarrow> supervisor \<Rightarrow> supervisor" where
  "note_crash rec s =
     s\<lparr>sp_restart_count := sp_restart_count s + 1,
       sp_records := (if HISTORY_LEN \<le> length (sp_records s) then tl (sp_records s) else sp_records s) @ [rec]\<rparr>"

definition restart_delay :: "duration \<Rightarrow> supervisor \<Rightarrow> duration \<times> supervisor" where
  "restart_delay uptime s =
     (let b = (if HEALTHY_UPTIME_THRESHOLD \<le> uptime then backoff_reset (sp_backoff s) else sp_backoff s);
          (d, b') = next_delay b in
      (case d of Some x \<Rightarrow> x | None \<Rightarrow> MAX_DELAY, s\<lparr>sp_backoff := b'\<rparr>))"

text \<open>What a turn meets: the run, its uptime, the wall clock, and a stop signal while waiting to restart.\<close>

record turn =
  tn_run :: child_run
  tn_uptime :: duration
  tn_clock :: nat
  tn_stop :: bool

datatype turn_end = Returned | ExitStatus int | Restarting duration

definition supervise_turn :: "turn \<Rightarrow> supervisor \<Rightarrow> turn_end \<times> supervisor" where
  "supervise_turn t s =
     (case run_once (tn_run t) of
        Inr Stopped \<Rightarrow> (Returned, s)
      | outcome \<Rightarrow>
         (let reason = (case outcome of Inr (Exited r) \<Rightarrow> r | _ \<Rightarrow> CleanExit (-1)) in
          case final_status reason of
            Some st \<Rightarrow> (ExitStatus st, s)
          | None \<Rightarrow>
             (let (d, s') = restart_delay (tn_uptime t)
                (note_crash \<lparr>cr_reason = reason_text reason, cr_at_unix = tn_clock t,
                   cr_uptime_secs = tn_uptime t div secs 1\<rparr> s) in
              if tn_stop t then (Returned, s') else (Restarting d, s'))))"

fun supervise :: "turn list \<Rightarrow> supervisor \<Rightarrow> duration list \<times> supervisor \<times> turn_end option" where
  "supervise [] s = ([], s, None)"
| "supervise (t # ts) s =
     (case supervise_turn t s of
        (Restarting d, s') \<Rightarrow> (let (ds, r) = supervise ts s' in (d # ds, r))
      | (e, s') \<Rightarrow> ([], s', Some e))"

section \<open>The status endpoint\<close>

definition is_valid_status_token :: "string \<Rightarrow> bool" where
  "is_valid_status_token s = (length s = 64 \<and> list_all is_ascii_hexdigit s)"

text \<open>Whether the endpoint starts, and where and with which token.\<close>

definition status_endpoint :: "(string \<Rightarrow> string option) \<Rightarrow> (string \<times> string) option" where
  "status_endpoint env =
     (case env ''CT_AGENT_SUPERVISOR_STATUS_LISTEN'' of
        None \<Rightarrow> None
      | Some listen \<Rightarrow>
         (case env ''CT_AGENT_SUPERVISOR_STATUS_TOKEN'' of
            Some token \<Rightarrow> if is_valid_status_token token then Some (listen, token) else None
          | None \<Rightarrow> None))"

text \<open>A header value reads as text when all its bytes are visible ASCII, blanks or tabs.\<close>

definition header_to_str :: "bytes \<Rightarrow> string option" where
  "header_to_str v =
     (let s = bytes_str v in
      if list_all (\<lambda>c. 32 \<le> byte_of c \<and> byte_of c < 127 \<or> byte_of c = 9) s then Some s else None)"

definition bearer_token_matches :: "bytes option \<Rightarrow> string \<Rightarrow> bool" where
  "bearer_token_matches auth expected =
     (case auth of
        None \<Rightarrow> False
      | Some v \<Rightarrow>
         (case header_to_str v of
            None \<Rightarrow> False
          | Some s \<Rightarrow>
             (case strip_prefix ''Bearer '' s of
                None \<Rightarrow> False
              | Some provided \<Rightarrow> ct_eq (str_bytes provided) (str_bytes expected))))"

definition crashes_handler :: "string \<Rightarrow> bytes option \<Rightarrow> supervisor \<Rightarrow> nat + nat \<times> crash_record list" where
  "crashes_handler token auth s =
     (if \<not> bearer_token_matches auth token then Err 401 else Ok (sp_restart_count s, sp_records s))"

section \<open>Properties of the pump\<close>

definition is_data :: "pipe_read \<Rightarrow> bool" where
  "is_data r = (case r of Data _ \<Rightarrow> True | _ \<Rightarrow> False)"

definition pipe_bytes :: "pipe_read list \<Rightarrow> bytes" where
  "pipe_bytes rs = concat (map (\<lambda>r. case r of Data bs \<Rightarrow> bs | _ \<Rightarrow> []) rs)"

lemma pipe_bytes_simps [simp]: "pipe_bytes [] = []" "pipe_bytes (Data bs # rs) = bs @ pipe_bytes rs"
  by (simp_all add: pipe_bytes_def)

definition one_line :: "bytes \<Rightarrow> bool" where
  "one_line l \<longleftrightarrow> l \<noteq> [] \<and> length l \<le> STDERR_MAX_LINE \<and> NL \<notin> set (butlast l)"

lemma takeWhile_short: "length (takeWhile P xs) < length xs \<Longrightarrow> takeWhile P xs @ [xs ! length (takeWhile P xs)] = take (Suc (length (takeWhile P xs))) xs"
  by (metis take_Suc_conv_app_nth takeWhile_eq_take)

lemma read_line_data:
  "list_all is_data rs \<Longrightarrow> NL \<notin> set acc \<Longrightarrow> length acc < STDERR_MAX_LINE \<Longrightarrow>
     (case read_line acc rs of
        (Line l, rs') \<Rightarrow> l @ pipe_bytes rs' = acc @ pipe_bytes rs \<and> one_line l \<and> list_all is_data rs'
      | (Eof, rs') \<Rightarrow> acc = [] \<and> pipe_bytes rs = []
      | _ \<Rightarrow> False)"
proof (induction acc rs rule: read_line.induct)
  case (4 acc bs rs)
  let ?room = "STDERR_MAX_LINE - length acc"
  let ?upto = "takeWhile (\<lambda>b. b \<noteq> NL) (take ?room bs)"
  have d: "list_all is_data rs" "length acc \<le> STDERR_MAX_LINE" using 4(2,4) by auto
  consider (nl) "length ?upto < length (take ?room bs)" | (full) "\<not> length ?upto < length (take ?room bs)" "?room \<le> length bs"
    | (more) "\<not> (length ?upto < length (take ?room bs) \<or> ?room \<le> length bs)" by blast
  then show ?case
  proof cases
    case nl
    then have x: "take ?room bs ! length ?upto = NL" using nth_length_takeWhile by fastforce
    then have "?upto @ [NL] = take (Suc (length ?upto)) bs"
      using takeWhile_short [OF nl] nl by (simp add: take_take min_absorb1)
    then have "?upto @ [NL] @ drop (Suc (length ?upto)) bs = bs" by (metis append.assoc append_take_drop_id)
    moreover have "NL \<notin> set ?upto" using set_takeWhileD by fastforce
    moreover have "length ?upto < ?room" using nl by simp
    then have "length acc + Suc (length ?upto) \<le> STDERR_MAX_LINE" by linarith
    ultimately show ?thesis using nl d(1) 4(3) by (simp add: Let_def one_line_def is_data_def butlast_append)
  next
    case full
    then have "?upto = take ?room bs" by (metis length_takeWhile_le linorder_neqE_nat not_less takeWhile_eq_take take_all)
    then have "NL \<notin> set (take ?room bs)" using set_takeWhileD by fastforce
    moreover have "bs \<noteq> []" using full(2) 4(4) by auto
    ultimately show ?thesis using full d 4(3,4)
      by (auto simp: Let_def one_line_def is_data_def butlast_append dest: in_set_butlastD)
  next
    case more
    then have up: "?upto = bs" by (metis leI length_takeWhile_le not_less_iff_gr_or_eq takeWhile_eq_take take_all)
    have "NL \<notin> set ?upto" using set_takeWhileD by fastforce
    then have "NL \<notin> set bs" unfolding up .
    moreover have "\<not> ?room \<le> length bs" using more by blast
    then have "length (acc @ bs) < STDERR_MAX_LINE" by simp
    ultimately have "case read_line (acc @ bs) rs of
        (Line l, rs') \<Rightarrow> l @ pipe_bytes rs' = (acc @ bs) @ pipe_bytes rs \<and> one_line l \<and> list_all is_data rs'
      | (Eof, rs') \<Rightarrow> acc @ bs = [] \<and> pipe_bytes rs = [] | _ \<Rightarrow> False"
      using 4(1) [OF refl refl refl refl more] d(1) 4(3) by simp
    moreover have "read_line acc (Data bs # rs) = read_line (acc @ bs) rs"
      unfolding read_line.simps(4) Let_def using more by (simp only: if_False)
    ultimately show ?thesis by (auto split: prod.splits line_read.splits)
  qed
qed (auto simp: is_data_def one_line_def dest: in_set_butlastD)

definition line_text :: "bytes \<Rightarrow> string" where
  "line_text l = from_utf8_lossy (bytes_str (if l \<noteq> [] \<and> last l = NL then butlast l else l))"

definition last_n :: "nat \<Rightarrow> 'a list \<Rightarrow> 'a list" where
  "last_n n xs = drop (length xs - n) xs"

lemma last_n_short: "length xs \<le> n \<Longrightarrow> last_n n xs = xs"
  by (simp add: last_n_def)

lemma last_n_idem: "last_n n (last_n n xs @ ys) = last_n n (xs @ ys)"
proof (cases "length xs \<le> n")
  case False
  then have "xs = take (length xs - n) xs @ last_n n xs" by (simp add: last_n_def)
  moreover have "length (last_n n xs) = n" using False by (simp add: last_n_def)
  ultimately show ?thesis using False
    by (simp add: last_n_def) (metis append.assoc drop_append length_append add_diff_cancel_left' drop_drop le_add2 add.commute diff_add_inverse2)
qed (simp add: last_n_short)

lemma push_last_n:
  assumes "length xs \<le> n" and "0 < n"
  shows "(if n \<le> length xs then tl xs else xs) @ [x] = last_n n (xs @ [x])"
  using assms by (cases xs) (auto simp: last_n_def Suc_diff_le)

lemma ring_push_last: "length ring \<le> STDERR_RING_LINES \<Longrightarrow> ring_push ring l = last_n STDERR_RING_LINES (ring @ [line_text l])"
  unfolding ring_push_def line_text_def by (rule push_last_n) (simp_all add: STDERR_RING_LINES_def)

lemma length_last_n: "length (last_n n xs) \<le> n"
  by (simp add: last_n_def)

lemma pump_data:
  "list_all is_data rs \<Longrightarrow> length ring \<le> STDERR_RING_LINES \<Longrightarrow>
     \<exists>ls. concat ls = pipe_bytes rs \<and> list_all one_line ls
       \<and> pump_stderr rs ring = (pipe_bytes rs, last_n STDERR_RING_LINES (ring @ map line_text ls))"
proof (induction rs ring rule: pump_stderr.induct)
  case (1 rs ring)
  obtain x rs' where r: "read_line [] rs = (x, rs')" by fastforce
  have d: "case x of Line l \<Rightarrow> l @ pipe_bytes rs' = pipe_bytes rs \<and> one_line l \<and> list_all is_data rs'
      | Eof \<Rightarrow> pipe_bytes rs = [] | _ \<Rightarrow> False"
    using read_line_data [OF 1(3), of "[]"] r by (simp add: STDERR_MAX_LINE_def split: line_read.splits)
  show ?case
  proof (cases x)
    case Eof
    then show ?thesis using d r 1(4) by (subst pump_stderr.simps) (auto intro: exI [of _ "[]"] simp: last_n_short)
  next
    case (Line l)
    have p: "length (ring_push ring l) \<le> STDERR_RING_LINES" using ring_push_last [OF 1(4)] length_last_n by metis
    obtain ls where ls: "concat ls = pipe_bytes rs'" "list_all one_line ls"
      "pump_stderr rs' (ring_push ring l) = (pipe_bytes rs', last_n STDERR_RING_LINES (ring_push ring l @ map line_text ls))"
      using 1(1) [OF r [symmetric] Line] d Line p by auto
    then show ?thesis using d r Line
      by (subst pump_stderr.simps) (auto intro!: exI [of _ "l # ls"] simp: ring_push_last [OF 1(4)] last_n_idem)
  qed (use d in auto)
qed

lemma pump_ring_valid: "list_all utf8_valid ring \<Longrightarrow> list_all utf8_valid (snd (pump_stderr rs ring))"
proof (induction rs ring rule: pump_stderr.induct)
  case (1 rs ring)
  have "list_all utf8_valid (ring_push ring l)" for l
    using 1(3) from_utf8_lossy_valid by (cases ring) (auto simp: ring_push_def)
  then show ?case using 1 by (subst pump_stderr.simps) (auto split: prod.splits line_read.splits)
qed

text \<open>
  The child's stderr. As long as no read fails, every byte is forwarded as it came, whatever the
  lines, their encoding and the cuts between the reads are, and the ring holds the last fifty lines,
  a line being at most 16 KiB.
\<close>

theorem stderr_forwarded:
  assumes "list_all is_data rs"
  shows "\<exists>ls. concat ls = pipe_bytes rs \<and> list_all one_line ls
     \<and> pump_stderr rs [] = (pipe_bytes rs, last_n 50 (map line_text ls))"
  using pump_data [OF assms, of "[]"] by (simp add: STDERR_RING_LINES_def)

theorem stderr_forwarded_witness:
  "fst (pump_stderr [Data [97, 10, 255], Data [98]] []) = [97, 10, 255, 98]"
  using stderr_forwarded [of "[Data [97, 10, 255], Data [98]]"] by (auto simp: is_data_def)

text \<open>What was read of a line before a failing read is not forwarded.\<close>

lemma bytes_before_error_lost: "fst (pump_stderr [Data [97], Broken, Data [98, 10]] []) = [98, 10]"
  by (subst pump_stderr.simps) (simp add: STDERR_MAX_LINE_def NL_def Let_def)

section \<open>Properties of the classification\<close>

lemma boundary_below_ok: "boundary_below s n \<le> n \<and> is_char_boundary s (boundary_below s n)"
  by (induction s n rule: boundary_below.induct) (auto simp: is_char_boundary_def)

lemma classify_panic:
  assumes "classify_exit signal code ring = Panic msg" and "list_all utf8_valid ring"
  shows "utf8_valid msg \<and> length msg \<le> 300 \<and> (\<exists>line \<in> set ring. contains ''panicked at'' line \<and> starts_with msg line)"
proof -
  obtain l where l: "find (\<lambda>l. contains ''panicked at'' l) (rev ring) = Some l"
    "msg = take (boundary_below l (min PANIC_MAX_LEN (length l))) l"
    using assms(1) by (auto simp: classify_exit_def Let_def split: option.splits if_splits)
  then have "l \<in> set ring" "contains ''panicked at'' l" by (auto simp: find_Some_iff) (metis length_rev nth_mem set_rev)
  moreover have "starts_with msg l" using l(2) by (metis append_take_drop_id starts_with_iff)
  moreover have "length msg \<le> 300"
    using l(2) boundary_below_ok [of l "min PANIC_MAX_LEN (length l)"] by (simp add: PANIC_MAX_LEN_def)
  moreover have "utf8_valid msg"
    using l(2) boundary_take boundary_below_ok \<open>l \<in> set ring\<close> assms(2) by (simp add: list_all_iff)
  ultimately show ?thesis by blast
qed

text \<open>
  C28: the classification. A signal, the status 0 and the status 77 decide by themselves, whatever is on
  stderr; otherwise the last line of the ring with a panic message is reported, cut to at most 300
  bytes but never inside a character, whatever bytes the child wrote and however reads failed.
\<close>

theorem exit_classified:
  assumes "run_once (ChildExit signal code pipe pump_done) = Ok (Exited r)"
  shows "(r = Signal n \<longleftrightarrow> signal = Some n)
     \<and> (r = CleanExitOk \<longleftrightarrow> signal = None \<and> code = Some 0)
     \<and> (r = GrantEnded \<longleftrightarrow> signal = None \<and> code = Some 77)
     \<and> (r = Panic msg \<longrightarrow> utf8_valid msg \<and> length msg \<le> 300
          \<and> (\<exists>line \<in> set (snd (pump_stderr pipe [])). contains ''panicked at'' line \<and> starts_with msg line))"
proof -
  define ring where "ring = (if pump_done then snd (pump_stderr pipe []) else [])"
  have r: "r = classify_exit signal code ring" using assms by (simp add: run_once_def ring_def)
  have "list_all utf8_valid ring" using pump_ring_valid [of "[]" pipe] by (simp add: ring_def)
  then have "r = Panic msg \<longrightarrow> utf8_valid msg \<and> length msg \<le> 300
      \<and> (\<exists>line \<in> set ring. contains ''panicked at'' line \<and> starts_with msg line)"
    using classify_panic [of signal code ring msg] r by metis
  moreover have "set ring \<subseteq> set (snd (pump_stderr pipe []))" by (auto simp: ring_def)
  moreover have "(r = Signal n \<longleftrightarrow> signal = Some n) \<and> (r = CleanExitOk \<longleftrightarrow> signal = None \<and> code = Some 0)
      \<and> (r = GrantEnded \<longleftrightarrow> signal = None \<and> code = Some 77)"
    by (cases signal; cases code) (auto simp: r classify_exit_def OWN_GRANT_ENDED_EXIT_def Let_def split: option.splits)
  ultimately show ?thesis by blast
qed

theorem exit_classified_witness:
  "run_once (ChildExit None (Some 77) [Data (str_bytes ''thread panicked at x'')] True) = Ok (Exited GrantEnded)"
  using exit_classified [of None "Some 77" "[Data (str_bytes ''thread panicked at x'')]" True
      "classify_exit None (Some 77) (snd (pump_stderr [Data (str_bytes ''thread panicked at x'')] []))"]
  by (simp add: run_once_def)

section \<open>Properties of the loop\<close>

text \<open>The reason a turn's run ended for, the record of it, and the turns that end the supervisor.\<close>

definition turn_reason :: "turn \<Rightarrow> crash_reason" where
  "turn_reason t = (case run_once (tn_run t) of Inr (Exited r) \<Rightarrow> r | _ \<Rightarrow> CleanExit (-1))"

definition turn_record :: "turn \<Rightarrow> crash_record" where
  "turn_record t = \<lparr>cr_reason = reason_text (turn_reason t), cr_at_unix = tn_clock t, cr_uptime_secs = tn_uptime t div secs 1\<rparr>"

definition asked_to_stop :: "turn \<Rightarrow> bool" where
  "asked_to_stop t \<longleftrightarrow> tn_run t = StopAsked"

definition grant_over :: "turn \<Rightarrow> bool" where
  "grant_over t \<longleftrightarrow> \<not> asked_to_stop t \<and> turn_reason t = GrantEnded"

definition goes_on :: "turn \<Rightarrow> bool" where
  "goes_on t \<longleftrightarrow> \<not> asked_to_stop t \<and> \<not> grant_over t \<and> \<not> tn_stop t"

text \<open>The waits that \<open>k\<close> quick exits in a row and then these uptimes lead to.\<close>

fun restart_waits :: "nat \<Rightarrow> duration list \<Rightarrow> duration list" where
  "restart_waits k [] = []"
| "restart_waits k (u # us) =
     (let j = (if secs 60 \<le> u then 0 else k) in min (secs 60) (secs 1 * 2 ^ min j 31) # restart_waits (Suc j) us)"

definition sup_inv :: "nat \<Rightarrow> crash_record list \<Rightarrow> supervisor \<Rightarrow> bool" where
  "sup_inv k recs s \<longleftrightarrow>
     sp_backoff s = \<lparr>bo_base = BASE_DELAY, bo_max = MAX_DELAY, bo_max_attempts = U32_MAX, bo_attempt = min U32_MAX k\<rparr>
     \<and> sp_records s = last_n HISTORY_LEN recs \<and> sp_restart_count s = length recs"

lemma note_crash_inv: "sup_inv k recs s \<Longrightarrow> sup_inv k (recs @ [r]) (note_crash r s)"
proof -
  assume inv: "sup_inv k recs s"
  have "length (last_n HISTORY_LEN recs) \<le> HISTORY_LEN" "0 < HISTORY_LEN" by (simp_all add: length_last_n HISTORY_LEN_def)
  from push_last_n [OF this, of r, unfolded last_n_idem] show ?thesis
    using inv by (auto simp: sup_inv_def note_crash_def split: if_splits)
qed

lemma restart_delay_inv:
  assumes "sup_inv k recs s"
  shows "fst (restart_delay u s) = min (secs 60) (secs 1 * 2 ^ min (if secs 60 \<le> u then 0 else k) 31)"
    "sup_inv (Suc (if secs 60 \<le> u then 0 else k)) recs (snd (restart_delay u s))"
proof -
  define j where "j = (if secs 60 \<le> u then 0 else k)"
  define b where "b = \<lparr>bo_base = BASE_DELAY, bo_max = MAX_DELAY, bo_max_attempts = U32_MAX, bo_attempt = min U32_MAX j\<rparr>"
  have s: "sp_records s = last_n HISTORY_LEN recs" "sp_restart_count s = length recs" using assms by (auto simp: sup_inv_def)
  have bs: "(if HEALTHY_UPTIME_THRESHOLD \<le> u then backoff_reset (sp_backoff s) else sp_backoff s) = b"
    using assms by (auto simp: sup_inv_def b_def j_def backoff_reset_def HEALTHY_UPTIME_THRESHOLD_def)
  have d: "(case fst (next_delay b) of Some x \<Rightarrow> x | None \<Rightarrow> MAX_DELAY) = min (secs 60) (secs 1 * 2 ^ min j 31)"
    "snd (next_delay b) = \<lparr>bo_base = BASE_DELAY, bo_max = MAX_DELAY, bo_max_attempts = U32_MAX, bo_attempt = min U32_MAX (Suc j)\<rparr>"
  proof -
    have m: "MAX_DELAY \<le> DURATION_MAX" by (simp add: MAX_DELAY_def DURATION_MAX_def U64_MAX_def secs_def)
    show "(case fst (next_delay b) of Some x \<Rightarrow> x | None \<Rightarrow> MAX_DELAY) = min (secs 60) (secs 1 * 2 ^ min j 31)"
    proof (cases "j < U32_MAX")
      case True
      then show ?thesis using next_delay_ideal [OF m True, of BASE_DELAY]
        by (simp add: b_def min_absorb2 ideal_delay_def BASE_DELAY_def MAX_DELAY_def)
    next
      case False
      then have "min j 31 = 31" by (simp add: U32_MAX_def)
      then show ?thesis using False by (simp add: next_delay_def b_def MAX_DELAY_def secs_def)
    qed
    show "snd (next_delay b) = \<lparr>bo_base = BASE_DELAY, bo_max = MAX_DELAY, bo_max_attempts = U32_MAX, bo_attempt = min U32_MAX (Suc j)\<rparr>"
      by (cases "j < U32_MAX") (simp_all add: next_delay_def b_def Let_def min_absorb1 min_absorb2)
  qed
  have r: "restart_delay u s = (case fst (next_delay b) of Some x \<Rightarrow> x | None \<Rightarrow> MAX_DELAY, s\<lparr>sp_backoff := snd (next_delay b)\<rparr>)"
    unfolding restart_delay_def bs Let_def by (simp split: prod.split)
  show "fst (restart_delay u s) = min (secs 60) (secs 1 * 2 ^ min (if secs 60 \<le> u then 0 else k) 31)"
    "sup_inv (Suc (if secs 60 \<le> u then 0 else k)) recs (snd (restart_delay u s))"
    using d s unfolding r by (simp_all add: j_def sup_inv_def)
qed

definition last_turn :: "turn list \<Rightarrow> turn option" where
  "last_turn ts = (case dropWhile goes_on ts of [] \<Rightarrow> None | t # _ \<Rightarrow> Some t)"

text \<open>The turns that are recorded: those that lead to a restart, and one interrupted while waiting for it.\<close>

definition recorded :: "turn list \<Rightarrow> turn list" where
  "recorded ts = takeWhile goes_on ts
     @ (case last_turn ts of Some t \<Rightarrow> if asked_to_stop t \<or> grant_over t then [] else [t] | None \<Rightarrow> [])"

lemma turn_cases:
  assumes "sup_inv k recs s"
  shows "asked_to_stop t \<Longrightarrow> supervise_turn t s = (Returned, s)"
    "grant_over t \<Longrightarrow> supervise_turn t s = (ExitStatus 77, s)"
    "\<not> asked_to_stop t \<Longrightarrow> \<not> grant_over t \<Longrightarrow>
       \<exists>s'. sup_inv (Suc (if secs 60 \<le> tn_uptime t then 0 else k)) (recs @ [turn_record t]) s'
         \<and> supervise_turn t s = (if tn_stop t then Returned
              else Restarting (min (secs 60) (secs 1 * 2 ^ min (if secs 60 \<le> tn_uptime t then 0 else k) 31)), s')"
proof -
  show "asked_to_stop t \<Longrightarrow> supervise_turn t s = (Returned, s)"
    by (simp add: supervise_turn_def asked_to_stop_def run_once_def)
  have unf: "supervise_turn t s = (case final_status (turn_reason t) of
            Some st \<Rightarrow> (ExitStatus st, s)
          | None \<Rightarrow>
             (let (d, s') = restart_delay (tn_uptime t) (note_crash (turn_record t) s) in
              if tn_stop t then (Returned, s') else (Restarting d, s')))" if "\<not> asked_to_stop t"
    using that unfolding supervise_turn_def turn_record_def turn_reason_def asked_to_stop_def run_once_def Let_def
    by (cases "tn_run t") (simp_all cong: option.case_cong)
  show "grant_over t \<Longrightarrow> supervise_turn t s = (ExitStatus 77, s)"
    using unf by (simp add: grant_over_def final_status_def OWN_GRANT_ENDED_EXIT_def)
  show "\<exists>s'. sup_inv (Suc (if secs 60 \<le> tn_uptime t then 0 else k)) (recs @ [turn_record t]) s'
         \<and> supervise_turn t s = (if tn_stop t then Returned
              else Restarting (min (secs 60) (secs 1 * 2 ^ min (if secs 60 \<le> tn_uptime t then 0 else k) 31)), s')"
    if "\<not> asked_to_stop t" "\<not> grant_over t"
    using restart_delay_inv [OF note_crash_inv [OF assms, of "turn_record t"], of "tn_uptime t"] that unf
    by (auto simp: grant_over_def final_status_def split: prod.splits)
qed

lemma supervise_loop:
  "sup_inv k recs s \<Longrightarrow> supervise ts s = (ds, s', e) \<Longrightarrow>
     ds = restart_waits k (map tn_uptime (takeWhile goes_on ts))
     \<and> (\<exists>k'. sup_inv k' (recs @ map turn_record (recorded ts)) s')
     \<and> e = map_option (\<lambda>t. if grant_over t then ExitStatus 77 else Returned) (last_turn ts)"
proof (induction ts arbitrary: k recs s ds)
  case Nil
  then show ?case by (auto simp: recorded_def last_turn_def)
next
  case (Cons t ts)
  note tc = turn_cases [OF Cons(2), of t]
  consider "asked_to_stop t" | "grant_over t" | (noted) "\<not> asked_to_stop t" "\<not> grant_over t" by blast
  then show ?case
  proof cases
    case noted
    then obtain s1 where s1: "sup_inv (Suc (if secs 60 \<le> tn_uptime t then 0 else k)) (recs @ [turn_record t]) s1"
      "supervise_turn t s = (if tn_stop t then Returned
              else Restarting (min (secs 60) (secs 1 * 2 ^ min (if secs 60 \<le> tn_uptime t then 0 else k) 31)), s1)"
      using tc(3) by blast
    show ?thesis
    proof (cases "tn_stop t")
      case True
      then show ?thesis using s1 Cons(3) noted by (auto simp: recorded_def last_turn_def goes_on_def)
    next
      case False
      then have g: "goes_on t" using noted by (simp add: goes_on_def)
      obtain es where es: "supervise ts s1 = (es, s', e)"
        "ds = min (secs 60) (secs 1 * 2 ^ min (if secs 60 \<le> tn_uptime t then 0 else k) 31) # es"
        using Cons(3) s1(2) False by (auto split: prod.splits)
      have "recorded (t # ts) = t # recorded ts" "last_turn (t # ts) = last_turn ts" using g by (simp_all add: recorded_def last_turn_def)
      then show ?thesis using Cons(1) [OF s1(1) es(1)] es(2) g by (auto simp: Let_def)
    qed
  qed (use tc Cons(2,3) in \<open>auto simp: recorded_def last_turn_def goes_on_def grant_over_def\<close>)
qed

text \<open>
  C27: the supervisor never gives up on its child: it ends only on a stop signal or, with the status 77,
  when the child's own grant is over. The wait before a restart doubles from one second to sixty
  over quick exits and starts again at one second after a run of a minute or more, for as many
  restarts as there are. The history is the last ten exits and the count is that of all.
\<close>

theorem supervisor_correct:
  "case supervise ts supervisor_start of (ds, s, e) \<Rightarrow>
     ds = restart_waits 0 (map tn_uptime (takeWhile goes_on ts))
     \<and> sp_records s = last_n 10 (map turn_record (recorded ts)) \<and> sp_restart_count s = length (recorded ts)
     \<and> e = map_option (\<lambda>t. if grant_over t then ExitStatus 77 else Returned) (last_turn ts)"
proof -
  have "sup_inv 0 [] supervisor_start"
    by (simp add: sup_inv_def supervisor_start_def backoff_new_def last_n_def)
  then show ?thesis using supervise_loop [of 0 "[]" supervisor_start ts]
    by (auto simp: sup_inv_def HISTORY_LEN_def split: prod.split)
qed

section \<open>Properties of the endpoint\<close>

text \<open>
  The crash history is served only where a token of 64 hex digits is configured, and only to a
  request whose header is exactly that token after the scheme.
\<close>

theorem status_needs_token:
  assumes "status_endpoint env = Some (listen, token)"
  shows "length token = 64 \<and> list_all is_ascii_hexdigit token \<and> env ''CT_AGENT_SUPERVISOR_STATUS_TOKEN'' = Some token
     \<and> (crashes_handler token auth s = Ok answer \<longleftrightarrow>
          auth = Some (str_bytes (''Bearer '' @ token)) \<and> answer = (sp_restart_count s, sp_records s))"
proof -
  have t: "length token = 64" "list_all is_ascii_hexdigit token" "env ''CT_AGENT_SUPERVISOR_STATUS_TOKEN'' = Some token"
    using assms by (auto simp: status_endpoint_def is_valid_status_token_def split: option.splits if_splits)
  have "bearer_token_matches auth token \<longleftrightarrow> auth = Some (str_bytes (''Bearer '' @ token))"
  proof
    assume "bearer_token_matches auth token"
    then obtain v where "auth = Some v" "strip_prefix ''Bearer '' (bytes_str v) = Some token"
      by (auto simp: bearer_token_matches_def header_to_str_def Let_def split: option.splits if_splits)
        (metis bytes_str_str_bytes)
    then show "auth = Some (str_bytes (''Bearer '' @ token))" by (metis strip_prefix_Some str_bytes_bytes_str)
  next
    have "list_all (\<lambda>c. 32 \<le> byte_of c \<and> byte_of c < 127 \<or> byte_of c = (9 :: nat)) (''Bearer '' @ token)"
      using t(2) by (auto simp: list_all_iff is_ascii_hexdigit_def is_ascii_digit_def)
    then show "auth = Some (str_bytes (''Bearer '' @ token)) \<Longrightarrow> bearer_token_matches auth token"
      by (simp add: bearer_token_matches_def header_to_str_def Let_def)
  qed
  then show ?thesis using t by (auto simp: crashes_handler_def)
qed

definition example_env :: "string \<Rightarrow> string option" where
  "example_env = [''CT_AGENT_SUPERVISOR_STATUS_LISTEN'' \<mapsto> ''127.0.0.1:9'', ''CT_AGENT_SUPERVISOR_STATUS_TOKEN'' \<mapsto> replicate 64 CHR ''a'']"

theorem status_needs_token_witness:
  "crashes_handler (replicate 64 CHR ''a'') None supervisor_start \<noteq> Ok (0, [])
   \<and> crashes_handler (replicate 64 CHR ''a'') (Some (str_bytes (''Bearer '' @ replicate 64 CHR ''a''))) supervisor_start = Ok (0, [])"
proof -
  have "status_endpoint example_env = Some (''127.0.0.1:9'', replicate 64 CHR ''a'')"
    by (simp add: status_endpoint_def example_env_def is_valid_status_token_def list_all_iff is_ascii_hexdigit_def is_ascii_digit_def)
  from status_needs_token [OF this] show ?thesis by (simp add: supervisor_start_def)
qed

end
