(* ===== verification/PeerPin.thy ===== *)
theory PeerPin
  imports Codec Rust_Text
begin

text \<open>
  The peer pin of a channel member (\<^verbatim>\<open>channel_run/peer_pin.rs\<close>): the setting, the check of the peer that
  admission attested, the early refusal and the start lines. The derivation of a link channel's id and
  the validity of an Ed25519 key are code of other crates and parameters.
\<close>

section \<open>The pin\<close>

record pinned_peer =
  pp_holder :: bytes
  pp_noise :: "bytes option"

datatype peer_pin = Link bytes | Peers "pinned_peer list"







section \<open>The check\<close>




text \<open>The start check of the own grant: what its verification under the configured operator says.\<close>

datatype grant_verdict = GrantOk | BadKey | BadSignature | OtherGrantError

definition check_own_grant :: "(bytes \<Rightarrow> grant_verdict) \<Rightarrow> peer_pin \<Rightarrow> bool" where
  "check_own_grant verify_own pin =
     (case pin of Peers _ \<Rightarrow> True | Link operator \<Rightarrow> verify_own operator \<notin> {BadKey, BadSignature})"



datatype pin_line = PinnedLine peer_pin | UnpinnedForwardWarning

definition peer_pin_start_line :: "peer_pin option \<Rightarrow> bool \<Rightarrow> pin_line option" where
  "peer_pin_start_line pin forward =
     (case pin of Some p \<Rightarrow> Some (PinnedLine p) | None \<Rightarrow> if forward then Some UnpinnedForwardWarning else None)"

section \<open>The text of a pin\<close>



section \<open>Properties\<close>

















end
