(* ===== verification/CliConfig.thy ===== *)
theory CliConfig
  imports Codec
begin

unbundle bit_operations_syntax

text \<open>
  \<^verbatim>\<open>channel_run/cli_config.rs\<close>: the shape check of a certificate, hex values, the required settings, and
  the settings of an agent card and of an offer. \<^verbatim>\<open>parse_service_type\<close> is that of \<^verbatim>\<open>service_calls.rs\<close>. An
  ed25519 key made from a setting is its 32 bytes. Signing a card or an offer is \<^verbatim>\<open>ct_common\<close>'s: the two
  constructors are arguments.
\<close>

section \<open>The shape of a certificate\<close>

datatype der_error =
    DerTooShort nat
  | DerStart byte
  | DerLengthForm byte
  | DerTruncated nat
  | DerLength nat nat

definition der_certificate_shape :: "bytes \<Rightarrow> der_error + unit" where
  "der_certificate_shape der =
     (let n = length der in
      if n < 2 then Err (DerTooShort n)
      else if der ! 0 \<noteq> 0x30 then Err (DerStart (der ! 0))
      else
        (let first = unat (der ! 1) in
         and_then
           (if first < 0x80 then Ok (first, 2)
            else
              (let count = unat (der ! 1 AND 0x7f) in
               if count = 0 \<or> 4 < count then Err (DerLengthForm (der ! 1))
               else if n < 2 + count then Err (DerTruncated n)
               else Ok (from_be (take count (drop 2 der)), 2 + count)))
           (\<lambda>(declared, header).
              if header + declared \<noteq> n then Err (DerLength declared n) else Ok ())))"

section \<open>Hex\<close>

definition hex_bytes :: "string \<Rightarrow> bytes option" where
  "hex_bytes s =
     (let digits = trim s in
      if digits = [] \<or> odd (length digits) \<or> \<not> list_all is_ascii_hexdigit digits then None
      else hex_pairs digits)"

definition hex32 :: "string \<Rightarrow> bytes option" where
  "hex32 s = (case hex_bytes s of Some v \<Rightarrow> if length v = 32 then Some v else None | None \<Rightarrow> None)"

section \<open>Required settings\<close>

datatype cli_error =
    Required string string
  | EitherRequired string string string
  | NotHex string string
  | NotNumber string
  | NotChoice string "string option"

type_synonym lookup = "string \<Rightarrow> string option"

definition req_str :: "lookup \<Rightarrow> string \<Rightarrow> string \<Rightarrow> cli_error + string" where
  "req_str f key what = ok_or (f key) (Required key what)"

definition opt_hex32 :: "lookup \<Rightarrow> string \<Rightarrow> bytes option" where
  "opt_hex32 f key = (case f key of Some v \<Rightarrow> hex32 v | None \<Rightarrow> None)"

definition req_hex32 :: "lookup \<Rightarrow> string \<Rightarrow> string \<Rightarrow> cli_error + bytes" where
  "req_hex32 f key what = ok_or (opt_hex32 f key) (Required key what)"

definition req_key :: "lookup \<Rightarrow> string \<Rightarrow> string \<Rightarrow> cli_error + bytes" where
  "req_key f key what = req_hex32 f key what"

definition req_hex32_aliased :: "lookup \<Rightarrow> string \<Rightarrow> string \<Rightarrow> string \<Rightarrow> cli_error + bytes" where
  "req_hex32_aliased f primary fallback what =
     (case opt_hex32 f primary of
        Some v \<Rightarrow> Ok v
      | None \<Rightarrow> ok_or (opt_hex32 f fallback) (EitherRequired primary fallback what))"

definition split_csv :: "string \<Rightarrow> string list" where
  "split_csv s = filter (\<lambda>t. t \<noteq> []) (map trim (split_on (CHR '','') s))"

definition unwrap_or_default :: "string option \<Rightarrow> string" where
  "unwrap_or_default x = (case x of Some s \<Rightarrow> s | None \<Rightarrow> [])"

fun parse_ids :: "string list \<Rightarrow> string + bytes list" where
  "parse_ids [] = Ok []"
| "parse_ids (t # ts) = and_then (ok_or (hex32 t) t) (\<lambda>v. and_then (parse_ids ts) (\<lambda>vs. Ok (v # vs)))"

definition parse_hex32_ids :: "string \<Rightarrow> string + bytes list" where
  "parse_hex32_ids s = parse_ids (filter (\<lambda>t. t \<noteq> []) (map trim (split_on (CHR '','') s)))"

text \<open>A numeric setting with a default: blank counts as absent.\<close>

definition opt_uint :: "nat \<Rightarrow> lookup \<Rightarrow> string \<Rightarrow> nat \<Rightarrow> cli_error + nat" where
  "opt_uint bound f var dflt =
     (case map_option trim (f var) of
        Some s \<Rightarrow> if s \<noteq> [] then ok_or (parse_uint bound s) (NotNumber var) else Ok dflt
      | None \<Rightarrow> Ok dflt)"

definition req_u64 :: "lookup \<Rightarrow> string \<Rightarrow> cli_error + nat" where
  "req_u64 f var =
     and_then (ok_or (filter_opt (\<lambda>s. s \<noteq> []) (map_option trim (f var))) (Required var []))
       (\<lambda>s. ok_or (parse_uint (U64_MAX + 1) s) (NotNumber var))"

section \<open>The agent card\<close>

record skill =
  skill_id :: string
  skill_description :: string

definition parse_card_skills :: "string \<Rightarrow> skill list" where
  "parse_card_skills s =
     map (\<lambda>entry. case split_once (CHR ''|'') entry of
            Some (i, d) \<Rightarrow> \<lparr>skill_id = trim i, skill_description = trim d\<rparr>
          | None \<Rightarrow> \<lparr>skill_id = entry, skill_description = []\<rparr>)
       (filter (\<lambda>e. e \<noteq> []) (map trim (split_on (CHR '';'') s)))"

record card_config =
  card_holder :: bytes
  role_tags :: "string list"
  skills :: "skill list"
  cells :: "bytes list"
  card_channels :: "bytes list"
  card_ttl_secs :: nat
  out_dir :: string

definition map_err_entry :: "string \<Rightarrow> string + 'a \<Rightarrow> cli_error + 'a" where
  "map_err_entry key r = (case r of Inl bad \<Rightarrow> Err (NotHex key bad) | Inr x \<Rightarrow> Ok x)"

definition card_from_lookup :: "lookup \<Rightarrow> cli_error + card_config" where
  "card_from_lookup f =
     and_then (req_key f ''CT_CHANNEL_HOLDER_KEY'' ''64 hex'') (\<lambda>holder.
     let tags = split_csv (unwrap_or_default (f ''CT_AGENT_CARD_ROLES'')) in
     if tags = [] then Err (Required ''CT_AGENT_CARD_ROLES'' ''comma-separated role tags'')
     else let sk = parse_card_skills (unwrap_or_default (f ''CT_AGENT_CARD_SKILLS'')) in
     and_then (map_err_entry ''CT_AGENT_CARD_CHANNELS'' (parse_hex32_ids (unwrap_or_default (f ''CT_AGENT_CARD_CHANNELS'')))) (\<lambda>chans.
     and_then (map_err_entry ''CT_AGENT_CARD_CELLS'' (parse_hex32_ids (unwrap_or_default (f ''CT_AGENT_CARD_CELLS'')))) (\<lambda>cs.
     and_then (opt_uint (U64_MAX + 1) f ''CT_AGENT_CARD_TTL_SECS'' 86400) (\<lambda>ttl.
     Ok \<lparr>card_holder = holder, role_tags = tags, skills = sk, cells = cs, card_channels = chans,
         card_ttl_secs = ttl, out_dir = (case f ''CT_AGENT_CARD_OUT'' of Some d \<Rightarrow> d | None \<Rightarrow> ''.'')\<rparr>))))"

definition build_card ::
  "(bytes \<Rightarrow> string list \<Rightarrow> skill list \<Rightarrow> bytes list \<Rightarrow> bytes list \<Rightarrow> nat \<Rightarrow> nat \<Rightarrow> 'card) \<Rightarrow> card_config \<Rightarrow> nat \<Rightarrow> 'card" where
  "build_card sign_new c now =
     sign_new (card_holder c) (role_tags c) (skills c) (cells c) (card_channels c) now (sat_add64 now (card_ttl_secs c))"

definition skill_ids :: "card_config \<Rightarrow> string list" where
  "skill_ids c = map skill_id (skills c)"

record auto_register =
  ar_cp_url :: string
  card_url :: string
  admin_token :: string

definition auto_register_from_lookup :: "lookup \<Rightarrow> auto_register option" where
  "auto_register_from_lookup f =
     (let present = (\<lambda>k. filter_opt (\<lambda>s. trim s \<noteq> []) (f k)) in
      case present ''CT_AGENT_CP_URL'' of None \<Rightarrow> None | Some u \<Rightarrow>
      (case present ''CT_AGENT_CARD_URL'' of None \<Rightarrow> None | Some c \<Rightarrow>
      (case present ''CT_CP_EDGE_ADMIN_TOKEN'' of None \<Rightarrow> None | Some t \<Rightarrow>
       Some \<lparr>ar_cp_url = u, card_url = c, admin_token = t\<rparr>)))"

section \<open>The offer\<close>

datatype service_type = CodeGeneration | SecurityReview | SafetyCheck | TextGeneration | CustomService string

definition parse_service_type :: "string \<Rightarrow> service_type option" where
  "parse_service_type s =
     (if s = [] then None
      else Some (if s = ''code_generation'' then CodeGeneration
        else if s = ''security_review'' then SecurityReview
        else if s = ''safety_check'' then SafetyCheck
        else if s = ''text_generation'' then TextGeneration
        else CustomService s))"

datatype capacity_kind = CloudApiQuota | LocalHardware

record offer_config =
  signing_key :: bytes
  kind :: capacity_kind
  models :: "string list"
  units_available :: nat
  min_price :: nat
  currency_id :: string
  offer_ttl_secs :: nat
  max_bids_per_window :: nat
  window_secs :: nat
  services :: "service_type list"

definition parse_kind :: "string option \<Rightarrow> cli_error + capacity_kind" where
  "parse_kind v =
     (case map_option trim v of
        None \<Rightarrow> Err (Required ''CT_AGENT_OFFER_KIND'' ''cloud or local'')
      | Some s \<Rightarrow>
         if s \<in> {''cloud'', ''cloud-api'', ''CloudApiQuota''} then Ok CloudApiQuota
         else if s \<in> {''local'', ''local-hardware'', ''LocalHardware''} then Ok LocalHardware
         else if s \<noteq> [] then Err (NotChoice ''CT_AGENT_OFFER_KIND'' (Some s))
         else Err (Required ''CT_AGENT_OFFER_KIND'' ''cloud or local''))"

fun parse_services :: "string list \<Rightarrow> cli_error + service_type list" where
  "parse_services [] = Ok []"
| "parse_services (t # ts) =
     (case parse_service_type t of
        Some st \<Rightarrow> and_then (parse_services ts) (\<lambda>r. Ok (st # r))
      | None \<Rightarrow> Err (NotChoice ''CT_AGENT_OFFER_SERVICES'' None))"

definition offer_services :: "string option \<Rightarrow> cli_error + service_type list" where
  "offer_services v =
     (case map_option trim v of
        Some s \<Rightarrow> if s \<noteq> [] then parse_services (filter (\<lambda>t. t \<noteq> []) (map trim (split_on (CHR '','') s))) else Ok []
      | None \<Rightarrow> Ok [])"

definition offer_from_lookup :: "lookup \<Rightarrow> cli_error + offer_config" where
  "offer_from_lookup f =
     and_then (req_key f ''CT_CHANNEL_HOLDER_KEY'' ''64 hex'') (\<lambda>sk.
     and_then (parse_kind (f ''CT_AGENT_OFFER_KIND'')) (\<lambda>k.
     let ms = split_csv (unwrap_or_default (f ''CT_AGENT_OFFER_MODELS'')) in
     if ms = [] then Err (Required ''CT_AGENT_OFFER_MODELS'' ''comma-separated model ids'')
     else
     and_then (req_u64 f ''CT_AGENT_OFFER_UNITS'') (\<lambda>units.
     and_then (req_u64 f ''CT_AGENT_OFFER_MIN_PRICE'') (\<lambda>price.
     and_then (ok_or (filter_opt (\<lambda>s. s \<noteq> []) (map_option trim (f ''CT_AGENT_OFFER_CURRENCY''))) (Required ''CT_AGENT_OFFER_CURRENCY'' [])) (\<lambda>cur.
     and_then (opt_uint (U64_MAX + 1) f ''CT_AGENT_OFFER_TTL_SECS'' 86400) (\<lambda>ttl.
     and_then (opt_uint (U64_MAX + 1) f ''CT_AGENT_OFFER_WINDOW_SECS'' 60) (\<lambda>win.
     and_then (opt_uint (U32_MAX + 1) f ''CT_AGENT_OFFER_MAX_BIDS'' 60) (\<lambda>bids.
     and_then (offer_services (f ''CT_AGENT_OFFER_SERVICES'')) (\<lambda>svcs.
     Ok \<lparr>signing_key = sk, kind = k, models = ms, units_available = units, min_price = price, currency_id = cur,
         offer_ttl_secs = ttl, max_bids_per_window = bids, window_secs = win, services = svcs\<rparr>)))))))))"

definition build_offer ::
  "(bytes \<Rightarrow> capacity_kind \<Rightarrow> string list \<Rightarrow> nat \<Rightarrow> nat \<Rightarrow> string \<Rightarrow> nat \<Rightarrow> nat \<Rightarrow> 'offer)
   \<Rightarrow> (bytes \<Rightarrow> capacity_kind \<Rightarrow> string list \<Rightarrow> nat \<Rightarrow> nat \<Rightarrow> string \<Rightarrow> nat \<Rightarrow> nat \<Rightarrow> service_type list \<Rightarrow> 'offer)
   \<Rightarrow> offer_config \<Rightarrow> nat \<Rightarrow> 'offer" where
  "build_offer sign_new sign_new_with_services c now =
     (let expires = sat_add64 now (offer_ttl_secs c) in
      if services c = []
      then sign_new (signing_key c) (kind c) (models c) (units_available c) (min_price c) (currency_id c) now expires
      else sign_new_with_services (signing_key c) (kind c) (models c) (units_available c) (min_price c) (currency_id c)
             now expires (services c))"

section \<open>Properties\<close>

lemma is_ascii_hexdigit_lower: "is_ascii_hexdigit (ascii_lower c) \<longleftrightarrow> is_ascii_hexdigit c"
  by (auto simp: is_ascii_hexdigit_def is_ascii_digit_def ascii_lower_def is_ascii_upper_def)

text \<open>A 32-byte value is read exactly from its hex, in either case and with blanks around it.\<close>

lemma hex32_iff: "hex32 s = Some v \<longleftrightarrow> length v = 32 \<and> hex_encode v = to_ascii_lowercase (trim s)"
proof
  assume a: "hex32 s = Some v"
  then have "hex_pairs (trim s) = Some v" "even (length (trim s))" "length v = 32"
    by (auto simp: hex32_def hex_bytes_def Let_def split: option.splits if_splits)
  then show "length v = 32 \<and> hex_encode v = to_ascii_lowercase (trim s)" using hex_pairs_Some by blast
next
  assume a: "length v = 32 \<and> hex_encode v = to_ascii_lowercase (trim s)"
  then have "hex_decode 32 (trim s) = Some v" by (simp add: hex_decode_iff)
  then have p: "length (trim s) = 64" "hex_pairs (trim s) = Some v" by (auto simp: hex_decode_def split: if_splits)
  have "is_ascii_hexdigit c" if "c \<in> set (trim s)" for c
  proof -
    have "ascii_lower c \<in> set (hex_encode v)" using a that by (simp add: to_ascii_lowercase_def)
    then show ?thesis using hex_encode_chars is_ascii_hexdigit_lower by blast
  qed
  then show "hex32 s = Some v" using p a by (auto simp: hex32_def hex_bytes_def list_all_iff Let_def)
qed

lemma hexdigit_is_graphic: "is_ascii_hexdigit c \<Longrightarrow> graphic c"
  by (auto simp: is_ascii_hexdigit_def is_ascii_digit_def graphic_def)

lemma trim_hex_encode [simp]: "trim (hex_encode v) = hex_encode v"
proof (cases "hex_encode v = []")
  case False
  then have "hd (hex_encode v) \<in> set (hex_encode v)" "last (hex_encode v) \<in> set (hex_encode v)" by auto
  then show ?thesis using hex_encode_chars hexdigit_is_graphic by (intro trim_graphic) blast
qed (simp add: trim_graphic)

lemma lower_hex_encode [simp]: "to_ascii_lowercase (hex_encode v) = hex_encode v"
proof -
  have "hex_decode (length v) (hex_encode v) = Some v" by simp
  then show ?thesis unfolding hex_decode_iff by simp
qed

lemma hex32_hex_encode [simp]: "length v = 32 \<Longrightarrow> hex32 (hex_encode v) = Some v"
  by (simp add: hex32_iff)

lemma hex_bytes_hex_encode [simp]: "v \<noteq> [] \<Longrightarrow> hex_bytes (hex_encode v) = Some v"
proof -
  assume "v \<noteq> []"
  then have "hex_encode v \<noteq> []" by (metis length_0_conv length_hex_encode mult_is_0 zero_neq_numeral)
  moreover have "list_all is_ascii_hexdigit (hex_encode v)" using hex_encode_chars by (auto simp: list_all_iff)
  ultimately show ?thesis by (simp add: hex_bytes_def hex_pairs_hex_encode)
qed

text \<open>The header of a certificate and the length it promises.\<close>

definition der_header :: "bytes \<Rightarrow> nat" where
  "der_header d = (if unat (d ! 1) < 0x80 then 2 else 2 + unat (d ! 1 AND 0x7f))"

definition der_total :: "bytes \<Rightarrow> nat" where
  "der_total d =
     (if unat (d ! 1) < 0x80 then 2 + unat (d ! 1)
      else 2 + unat (d ! 1 AND 0x7f) + from_be (take (unat (d ! 1 AND 0x7f)) (drop 2 d)))"

lemma der_shape_total:
  "der_certificate_shape d = Ok () \<Longrightarrow> 2 \<le> der_header d \<and> der_header d \<le> length d \<and> d ! 0 = 0x30 \<and> length d = der_total d"
  by (auto simp: der_certificate_shape_def der_header_def der_total_def Let_def split: if_splits)

lemma der_total_front:
  assumes "2 \<le> der_header d" "der_header d \<le> i" "i \<le> length d" "take i d' = take i d"
  shows "der_total d' = der_total d"
proof -
  have one: "d' ! 1 = d ! 1" using assms by (metis (no_types, lifting) le_trans less_le_trans nth_take one_less_numeral_iff semiring_norm(76))
  have "take k (drop 2 d') = take k (drop 2 d)" if "2 + k \<le> i" for k
  proof -
    have "take k (drop 2 e) = drop 2 (take (2 + k) (take i e))" for e :: bytes using that by (simp add: drop_take min_absorb1)
    then show ?thesis using assms(4) by metis
  qed
  then show ?thesis using assms(2) one by (auto simp: der_total_def der_header_def)
qed

text \<open>
  A damaged certificate is noticed. What the shape check accepts it accepts at its full length only:
  not with anything appended, not cut off anywhere, not with a byte lost after the length header, and
  not with the first byte lost (but for a value of exactly 50 bytes, no certificate).
\<close>

theorem der_shape_catches_damage:
  assumes "der_certificate_shape d = Ok ()"
  shows "(\<forall>e. der_certificate_shape (d @ e) = Ok () \<longrightarrow> e = [])
     \<and> (\<forall>k < length d. der_certificate_shape (take k d) \<noteq> Ok ())
     \<and> (\<forall>i. der_header d \<le> i \<and> i < length d \<longrightarrow> der_certificate_shape (take i d @ drop (Suc i) d) \<noteq> Ok ())
     \<and> (length d \<noteq> 50 \<longrightarrow> der_certificate_shape (tl d) \<noteq> Ok ())"
proof -
  have ext: "e = []" if "der_certificate_shape c = Ok ()" "der_certificate_shape (c @ e) = Ok ()" for c e
    using der_shape_total [OF that(1)] der_shape_total [OF that(2)] der_total_front [of c "length c" "c @ e"] by simp
  moreover have "der_certificate_shape (take k d) \<noteq> Ok ()" if "k < length d" for k
    using ext [of "take k d" "drop k d"] assms that by auto
  moreover have "der_certificate_shape (take i d @ drop (Suc i) d) \<noteq> Ok ()" if "der_header d \<le> i" "i < length d" for i
    using der_shape_total [OF assms] der_total_front [of d i "take i d @ drop (Suc i) d"] that
    by (auto dest!: der_shape_total)
  moreover have "der_certificate_shape (tl d) \<noteq> Ok ()" if "length d \<noteq> 50"
  proof
    assume t: "der_certificate_shape (tl d) = Ok ()"
    then have "d ! 1 = 0x30" using der_shape_total [OF t] by (cases d) (auto simp: nth_tl)
    then show False using der_shape_total [OF assms] that by (simp add: der_total_def)
  qed
  ultimately show ?thesis using assms by blast
qed

theorem der_shape_catches_damage_witness:
  "der_certificate_shape (tl [0x30, 0x81, 1, 9]) \<noteq> Ok () \<and> der_certificate_shape [0x30, 0x81, 1] \<noteq> Ok ()"
proof -
  have "der_certificate_shape [0x30, 0x81, 1, 9] = Ok ()" by code_simp
  from der_shape_catches_damage [OF this] have
    "\<forall>k < length [0x30, 0x81, 1, 9 :: byte]. der_certificate_shape (take k [0x30, 0x81, 1, 9]) \<noteq> Ok ()"
    "der_certificate_shape (tl [0x30, 0x81, 1, 9]) \<noteq> Ok ()" by simp_all
  from this(1) [rule_format, of 3] this(2) show ?thesis by simp
qed

end
