(* ===== verification/Provisioning.thy ===== *)
theory Provisioning
  imports CliConfig PeerGrant
begin

text \<open>
  \<^verbatim>\<open>channel_run/provisioning.rs\<close>: what an operator signs (grants, invitations, staples, the grants of an
  overlay) and the requests of the provisioning subcommands, read from a lookup of settings.

  An operator's or holder's private key is its 32 bytes. Ed25519, the bytes that are signed, the derived
  channel ids and the wire forms are \<^verbatim>\<open>ct_common\<close>'s and libraries': the fields of \<open>authority\<close>. Drawing keys
  and printing the shell blocks of a new identity is not modelled.
\<close>

section \<open>What is signed\<close>

datatype rights = ReadRight | WriteRight | ReadWrite

record grant_body =
  gb_channel :: bytes
  gb_holder :: bytes
  gb_direction :: grant_direction
  gb_rights :: rights
  gb_delegable :: bool
  gb_expires :: nat

record invitation =
  in_channel :: bytes
  in_identity :: bytes
  in_direction :: grant_direction
  in_rights :: rights
  in_delegable :: bool
  in_expires :: nat

record staple =
  st_channel :: bytes
  st_holder :: bytes
  st_stapled_at :: nat
  st_expires_at :: nat
  st_signature :: bytes

record 'g authority =
  au_ct :: "'g ct_common"
  au_pubkey :: "bytes \<Rightarrow> bytes"
  au_sign :: "bytes \<Rightarrow> bytes \<Rightarrow> bytes"
  au_grant_bytes :: "grant_body \<Rightarrow> bytes"
  au_signed :: "grant_body \<Rightarrow> bytes \<Rightarrow> 'g"
  au_signature_ok :: "bytes \<Rightarrow> 'g \<Rightarrow> bool"
  au_invite_bytes :: "invitation \<Rightarrow> bytes"
  au_invite_encode :: "invitation \<Rightarrow> bytes \<Rightarrow> bytes"
  au_staple_bytes :: "bytes \<Rightarrow> bytes \<Rightarrow> nat \<Rightarrow> nat \<Rightarrow> bytes"
  au_link_channel :: "bytes \<Rightarrow> bytes \<Rightarrow> bytes \<Rightarrow> bytes"
  au_role_channel :: "bytes \<Rightarrow> string \<Rightarrow> string \<Rightarrow> bytes"
  au_attest_bytes :: "bytes \<Rightarrow> bytes \<Rightarrow> bytes \<Rightarrow> bytes"
  au_topology_bytes :: "string \<Rightarrow> bytes \<Rightarrow> bytes"

definition sign_member_grant :: "'g authority \<Rightarrow> bytes \<Rightarrow> bytes \<Rightarrow> bytes \<Rightarrow> grant_direction \<Rightarrow> nat \<Rightarrow> 'g" where
  "sign_member_grant A key channel holder dir expires_at =
     (let g = \<lparr>gb_channel = channel, gb_holder = holder, gb_direction = dir, gb_rights = ReadWrite,
               gb_delegable = False, gb_expires = expires_at\<rparr> in
      au_signed A g (au_sign A key (au_grant_bytes A g)))"

definition issue_member_grant :: "'g authority \<Rightarrow> bytes \<Rightarrow> bytes \<Rightarrow> bytes \<Rightarrow> grant_direction \<Rightarrow> nat \<Rightarrow> string" where
  "issue_member_grant A key channel holder dir expires_at =
     hex_encode (grant_encode (au_ct A) (sign_member_grant A key channel holder dir expires_at))"

definition issue_member_invitation ::
  "'g authority \<Rightarrow> bytes \<Rightarrow> bytes \<Rightarrow> bytes \<Rightarrow> grant_direction \<Rightarrow> rights \<Rightarrow> bool \<Rightarrow> nat \<Rightarrow> string" where
  "issue_member_invitation A key channel ident dir rts dlg expires_at =
     (let i = \<lparr>in_channel = channel, in_identity = ident, in_direction = dir, in_rights = rts,
               in_delegable = dlg, in_expires = expires_at\<rparr> in
      hex_encode (au_invite_encode A i (au_sign A key (au_invite_bytes A i))))"



definition issue_membership_staple :: "'g authority \<Rightarrow> bytes \<Rightarrow> bytes \<Rightarrow> bytes \<Rightarrow> nat \<Rightarrow> nat \<Rightarrow> staple" where
  "issue_membership_staple A key channel holder stapled_at ttl_secs =
     (let expires_at = sat_add64 stapled_at ttl_secs in
      \<lparr>st_channel = channel, st_holder = holder, st_stapled_at = stapled_at, st_expires_at = expires_at,
       st_signature = au_sign A key (au_staple_bytes A channel holder stapled_at expires_at)\<rparr>)"

definition bind_topology :: "'g authority \<Rightarrow> bytes \<Rightarrow> string \<Rightarrow> string \<times> string" where
  "bind_topology A key topology_id =
     (let op_pub = au_pubkey A key in
      (hex_encode op_pub, hex_encode (au_sign A key (au_topology_bytes A topology_id op_pub))))"

section \<open>Grants from settings, fields and prompts\<close>

datatype prov_error =
    Setting cli_error
  | BadDirection string
  | BadDuration string
  | DurationOverflows string
  | EmptyDuration
  | BadField string
  | InternalError string
  | PromptFailed string

definition setting :: "cli_error + 'a \<Rightarrow> prov_error + 'a" where
  "setting r = (case r of Inl e \<Rightarrow> Err (Setting e) | Inr x \<Rightarrow> Ok x)"

lemma setting_Ok [simp]: "setting r = Ok x \<longleftrightarrow> r = Ok x"
  by (cases r) (auto simp: setting_def)

definition normalized :: "string \<Rightarrow> string" where
  "normalized s = to_ascii_lowercase (trim s)"

definition parse_direction :: "string \<Rightarrow> grant_direction option" where
  "parse_direction s =
     (let d = normalized s in
      if d = ''initiate'' \<or> d = ''initiator'' then Some DirInitiate
      else if d = ''accept'' \<or> d = ''responder'' then Some DirAccept
      else None)"

record operator_grant_request =
  og_operator :: bytes
  og_channel :: bytes
  og_member_holder :: bytes
  og_direction :: grant_direction
  og_expires_at :: nat

definition operator_grant_from_lookup :: "lookup \<Rightarrow> cli_error + operator_grant_request" where
  "operator_grant_from_lookup f =
     and_then (req_key f ''CT_CHANNEL_OPERATOR_KEY'' ''64 hex; from `channel operator-init`'') (\<lambda>op.
     and_then (req_hex32 f ''CT_GRANT_CHANNEL'' ''64 hex channel id'') (\<lambda>channel.
     and_then (req_hex32 f ''CT_GRANT_MEMBER_HOLDER'' ''64 hex member holder pubkey'') (\<lambda>holder.
     and_then (ok_or (Option.bind (f ''CT_GRANT_DIRECTION'') parse_direction) (NotChoice ''CT_GRANT_DIRECTION'' (map_option normalized (f ''CT_GRANT_DIRECTION'')))) (\<lambda>dir.
     and_then (req_str f ''CT_GRANT_EXPIRES'' ''unix seconds'') (\<lambda>raw.
     and_then (ok_or (parse_uint (U64_MAX + 1) (trim raw)) (NotNumber ''CT_GRANT_EXPIRES'')) (\<lambda>expires.
     Ok \<lparr>og_operator = op, og_channel = channel, og_member_holder = holder, og_direction = dir, og_expires_at = expires\<rparr>))))))"

definition og_issue :: "'g authority \<Rightarrow> operator_grant_request \<Rightarrow> string" where
  "og_issue A r = issue_member_grant A (og_operator r) (og_channel r) (og_member_holder r) (og_direction r) (og_expires_at r)"

definition parse_duration_secs :: "string \<Rightarrow> prov_error + nat" where
  "parse_duration_secs raw =
     (let s = trim raw in
      if s = [] then Err EmptyDuration
      else
        (let c = ascii_lower (last s);
             (num, mult) = (if c = CHR ''d'' then (butlast s, 86400)
               else if c = CHR ''h'' then (butlast s, 3600)
               else if c = CHR ''m'' then (butlast s, 60)
               else if c = CHR ''s'' then (butlast s, 1)
               else (s, 1)) in
         and_then (ok_or (parse_uint (U64_MAX + 1) (trim num)) (BadDuration s)) (\<lambda>n.
           if n * mult \<le> U64_MAX then Ok (n * mult) else Err (DurationOverflows s))))"

definition issue_grant_core ::
  "'g authority \<Rightarrow> bytes \<Rightarrow> bytes \<Rightarrow> bytes \<Rightarrow> grant_direction \<Rightarrow> nat \<Rightarrow> nat \<Rightarrow> prov_error + string" where
  "issue_grant_core A op channel holder dir expires_in now =
     (let expires_at = sat_add64 now expires_in;
          grant_hex = og_issue A \<lparr>og_operator = op, og_channel = channel, og_member_holder = holder,
                                 og_direction = dir, og_expires_at = expires_at\<rparr> in
      and_then (ok_or (hex_bytes grant_hex) (InternalError ''issued grant hex failed to decode'')) (\<lambda>bs.
      case grant_decode (au_ct A) bs of
        Inl e \<Rightarrow> Err (InternalError e)
      | Inr decoded \<Rightarrow>
         (case verify_stateless (au_ct A) (au_pubkey A op) decoded now of
            Inl e \<Rightarrow> Err (InternalError e)
          | Inr _ \<Rightarrow> Ok grant_hex)))"

definition issue_grant_from_fields ::
  "'g authority \<Rightarrow> bytes \<Rightarrow> string \<Rightarrow> string \<Rightarrow> string \<Rightarrow> string \<Rightarrow> nat \<Rightarrow> prov_error + string" where
  "issue_grant_from_fields A op channel_hex holder_hex dir expires_in now =
     and_then (ok_or (hex32 (trim channel_hex)) (BadField ''channel'')) (\<lambda>channel.
     and_then (ok_or (hex32 (trim holder_hex)) (BadField ''holder'')) (\<lambda>holder.
     and_then (ok_or (parse_direction dir) (BadDirection (normalized dir))) (\<lambda>d.
     and_then (parse_duration_secs expires_in) (\<lambda>n.
     issue_grant_core A op channel holder d n now))))"

text \<open>
  The prompts: \<open>answers\<close> is what the prompt gives in turn. A rejected answer asks again; \<open>None\<close> is a
  dialogue that still waits.
\<close>

fun ask_until :: "(string \<Rightarrow> 'a option) \<Rightarrow> (string + string) list \<Rightarrow> ((string + 'a) \<times> (string + string) list) option" where
  "ask_until p [] = None"
| "ask_until p (Inl e # as) = Some (Err e, as)"
| "ask_until p (Inr raw # as) = (case p raw of Some x \<Rightarrow> Some (Ok x, as) | None \<Rightarrow> ask_until p as)"

definition ask_field ::
  "(string \<Rightarrow> 'a option) \<Rightarrow> (string + string) list \<Rightarrow> ('a \<Rightarrow> (string + string) list \<Rightarrow> (prov_error + 'b) option)
     \<Rightarrow> (prov_error + 'b) option" where
  "ask_field p as k =
     (case ask_until p as of
        None \<Rightarrow> None
      | Some (Inl e, as') \<Rightarrow> Some (Err (PromptFailed e))
      | Some (Inr x, as') \<Rightarrow> k x as')"

definition issue_grant_interactively ::
  "'g authority \<Rightarrow> bytes \<Rightarrow> (string + string) list \<Rightarrow> nat \<Rightarrow> (prov_error + string) option" where
  "issue_grant_interactively A op as now =
     ask_field (\<lambda>raw. hex32 (trim raw)) as (\<lambda>channel as1.
     ask_field (\<lambda>raw. hex32 (trim raw)) as1 (\<lambda>holder as2.
     ask_field parse_direction as2 (\<lambda>d as3.
     ask_field (\<lambda>raw. ok_of (parse_duration_secs raw)) as3 (\<lambda>n as4.
     Some (issue_grant_core A op channel holder d n now)))))"

section \<open>The other requests\<close>

record operator_invite_request =
  oi_operator :: bytes
  oi_channel :: bytes
  oi_identity :: bytes
  oi_direction :: grant_direction
  oi_rights :: rights
  oi_delegable :: bool
  oi_expires_at :: nat

definition invite_direction :: "string option \<Rightarrow> cli_error + grant_direction" where
  "invite_direction v =
     (let d = map_option normalized v in
      if d = Some ''initiate'' \<or> d = Some ''initiator'' then Ok DirInitiate
      else if d = Some ''accept'' \<or> d = Some ''responder'' then Ok DirAccept
      else if d = Some ''both'' then Ok DirBoth
      else Err (NotChoice ''CT_INVITE_DIRECTION'' d))"

definition invite_rights :: "string option \<Rightarrow> cli_error + rights" where
  "invite_rights v =
     (case map_option normalized v of
        None \<Rightarrow> Ok ReadWrite
      | Some r \<Rightarrow>
         if r \<in> {''read'', ''r''} then Ok ReadRight
         else if r \<in> {''write'', ''w''} then Ok WriteRight
         else if r \<in> {''readwrite'', ''read-write'', ''rw''} then Ok ReadWrite
         else Err (NotChoice ''CT_INVITE_RIGHTS'' (Some r)))"

definition invite_delegable :: "string option \<Rightarrow> bool" where
  "invite_delegable v =
     (case v of None \<Rightarrow> False | Some s \<Rightarrow> trim s = ''1'' \<or> eq_ignore_ascii_case (trim s) ''true'')"

definition operator_invite_from_lookup :: "lookup \<Rightarrow> cli_error + operator_invite_request" where
  "operator_invite_from_lookup f =
     and_then (req_key f ''CT_CHANNEL_OPERATOR_KEY'' ''64 hex; from `channel operator-init`'') (\<lambda>op.
     and_then (req_hex32 f ''CT_INVITE_CHANNEL'' ''64 hex channel id'') (\<lambda>channel.
     and_then (req_hex32 f ''CT_INVITE_IDENTITY'' ''64 hex invitee identity pubkey'') (\<lambda>ident.
     and_then (invite_direction (f ''CT_INVITE_DIRECTION'')) (\<lambda>dir.
     and_then (invite_rights (f ''CT_INVITE_RIGHTS'')) (\<lambda>rts.
     let dlg = invite_delegable (f ''CT_INVITE_DELEGABLE'') in
     and_then (req_str f ''CT_INVITE_EXPIRES'' ''unix seconds'') (\<lambda>raw.
     and_then (ok_or (parse_uint (U64_MAX + 1) (trim raw)) (NotNumber ''CT_INVITE_EXPIRES'')) (\<lambda>expires.
     Ok \<lparr>oi_operator = op, oi_channel = channel, oi_identity = ident, oi_direction = dir, oi_rights = rts,
         oi_delegable = dlg, oi_expires_at = expires\<rparr>)))))))"

definition oi_issue :: "'g authority \<Rightarrow> operator_invite_request \<Rightarrow> string" where
  "oi_issue A r =
     issue_member_invitation A (oi_operator r) (oi_channel r) (oi_identity r) (oi_direction r) (oi_rights r)
       (oi_delegable r) (oi_expires_at r)"

definition topology_bind_from_lookup :: "lookup \<Rightarrow> cli_error + (bytes \<times> string)" where
  "topology_bind_from_lookup f =
     and_then (req_key f ''CT_CHANNEL_OPERATOR_KEY'' ''64 hex; from `channel operator-init`'') (\<lambda>op.
     and_then (req_str f ''CT_TOPOLOGY_ID'' ''the topology's id, from its editor URL'') (\<lambda>t. Ok (op, t)))"

record pipeline_role_material =
  pr_operator_pubkey :: bytes
  pr_pipeline_id :: string
  pr_role :: string
  pr_holder :: bytes
  pr_noise_pubkey :: bytes

definition pipeline_role_from_lookup :: "lookup \<Rightarrow> cli_error + pipeline_role_material" where
  "pipeline_role_from_lookup f =
     and_then (req_hex32 f ''CT_CHANNEL_OPERATOR_PUBKEY'' ''64 hex operator pubkey (from the pipeline registry entry's operator_pubkey_hex)'') (\<lambda>op.
     and_then (req_str f ''CT_PIPELINE_ID'' ''the pipeline's published id'') (\<lambda>pid.
     and_then (req_str f ''CT_PIPELINE_ROLE'' ''the role tag you're joining (a role.tag from the pipeline spec)'') (\<lambda>rl.
     and_then (req_key f ''CT_CHANNEL_HOLDER_KEY'' ''64 hex; your holder PRIVATE key'') (\<lambda>holder.
     and_then (req_hex32 f ''CT_CHANNEL_NOISE_PUBKEY'' ''64 hex; your noise PUBLIC key'') (\<lambda>noise.
     Ok \<lparr>pr_operator_pubkey = op, pr_pipeline_id = pid, pr_role = rl, pr_holder = holder, pr_noise_pubkey = noise\<rparr>)))))"

definition pr_compute :: "'g authority \<Rightarrow> pipeline_role_material \<Rightarrow> bytes \<times> bytes \<times> bytes" where
  "pr_compute A r =
     (let holder_pubkey = au_pubkey A (pr_holder r);
          channel = au_role_channel A (pr_operator_pubkey r) (pr_pipeline_id r) (pr_role r) in
      (channel, holder_pubkey, au_sign A (pr_holder r) (au_attest_bytes A channel holder_pubkey (pr_noise_pubkey r))))"

record member_material =
  mm_operator_pubkey :: bytes
  mm_bridge_holder :: bytes
  mm_holder :: bytes
  mm_noise_pubkey :: bytes

definition member_material_from_lookup :: "lookup \<Rightarrow> cli_error + member_material" where
  "member_material_from_lookup f =
     and_then (req_hex32 f ''CT_CHANNEL_OPERATOR_PUBKEY'' ''64 hex operator pubkey (from central)'') (\<lambda>op.
     and_then (req_hex32 f ''CT_CHANNEL_BRIDGE_HOLDER'' ''64 hex bridge holder pubkey (from central)'') (\<lambda>bridge.
     and_then (req_key f ''CT_CHANNEL_HOLDER_KEY'' ''64 hex; your member holder PRIVATE key'') (\<lambda>holder.
     and_then (req_hex32 f ''CT_CHANNEL_NOISE_PUBKEY'' ''64 hex; your member noise PUBLIC key'') (\<lambda>noise.
     Ok \<lparr>mm_operator_pubkey = op, mm_bridge_holder = bridge, mm_holder = holder, mm_noise_pubkey = noise\<rparr>))))"

definition mm_compute :: "'g authority \<Rightarrow> member_material \<Rightarrow> bytes \<times> bytes \<times> bytes" where
  "mm_compute A r =
     (let holder_pubkey = au_pubkey A (mm_holder r);
          channel = au_link_channel A (mm_operator_pubkey r) (mm_bridge_holder r) holder_pubkey in
      (channel, holder_pubkey, au_sign A (mm_holder r) (au_attest_bytes A channel holder_pubkey (mm_noise_pubkey r))))"

record channel_register_request =
  cr_cp_url :: string
  cr_channel_hex :: string
  cr_operator_pubkey_hex :: string
  cr_token :: string
  cr_rekey :: bool

definition rekey_setting :: "string option \<Rightarrow> cli_error + bool" where
  "rekey_setting v =
     (case map_option normalized v of
        None \<Rightarrow> Ok False
      | Some s \<Rightarrow>
         if s \<in> {[], ''0'', ''false'', ''no''} then Ok False
         else if s \<in> {''1'', ''true'', ''yes''} then Ok True
         else Err (NotChoice ''CT_CHANNEL_REKEY'' (Some s)))"

definition nonblank :: "string option \<Rightarrow> string option" where
  "nonblank v = filter_opt (\<lambda>s. trim s \<noteq> []) v"

lemma nonblank_None [simp]: "nonblank None = None"
  by (simp add: nonblank_def filter_opt_def)

definition channel_register_with_token :: "'g authority \<Rightarrow> lookup \<Rightarrow> string \<Rightarrow> cli_error + channel_register_request" where
  "channel_register_with_token A f token =
     and_then (ok_or (nonblank (f ''CT_AGENT_CP_URL'')) (Required ''CT_AGENT_CP_URL'' ''control-plane base URL'')) (\<lambda>cp.
     and_then (req_hex32_aliased f ''CT_CHANNEL_ID'' ''CT_GRANT_CHANNEL'' ''64 hex channel id'') (\<lambda>channel.
     and_then
       (case opt_hex32 f ''CT_CHANNEL_OPERATOR_PUBKEY'' of
          Some pk \<Rightarrow> Ok (hex_encode pk)
        | None \<Rightarrow>
           (case opt_hex32 f ''CT_CHANNEL_OPERATOR_KEY'' of
              Some sk \<Rightarrow> Ok (hex_encode (au_pubkey A sk))
            | None \<Rightarrow> Err (EitherRequired ''CT_CHANNEL_OPERATOR_KEY'' ''CT_CHANNEL_OPERATOR_PUBKEY'' ''64 hex'')))
       (\<lambda>op.
     and_then (rekey_setting (f ''CT_CHANNEL_REKEY'')) (\<lambda>rk.
     Ok \<lparr>cr_cp_url = cp, cr_channel_hex = hex_encode channel, cr_operator_pubkey_hex = op, cr_token = token, cr_rekey = rk\<rparr>))))"

definition oidc_token_setting :: "lookup \<Rightarrow> cli_error + string" where
  "oidc_token_setting f =
     ok_or (nonblank (f ''CT_OIDC_TOKEN'')) (Required ''CT_OIDC_TOKEN'' ''OIDC bearer token for the channel owner'')"

definition channel_register_from_lookup :: "'g authority \<Rightarrow> lookup \<Rightarrow> cli_error + channel_register_request" where
  "channel_register_from_lookup A f = and_then (oidc_token_setting f) (channel_register_with_token A f)"

record channel_allowlist_request =
  al_cp_url :: string
  al_channel_hex :: string
  al_token :: string

definition channel_allowlist_with_token :: "lookup \<Rightarrow> string \<Rightarrow> cli_error + channel_allowlist_request" where
  "channel_allowlist_with_token f token =
     and_then (ok_or (nonblank (f ''CT_AGENT_CP_URL'')) (Required ''CT_AGENT_CP_URL'' ''control-plane base URL'')) (\<lambda>cp.
     and_then (req_hex32_aliased f ''CT_CHANNEL_ID'' ''CT_GRANT_CHANNEL'' ''64 hex channel id'') (\<lambda>channel.
     Ok \<lparr>al_cp_url = cp, al_channel_hex = hex_encode channel, al_token = token\<rparr>))"

definition channel_allowlist_from_lookup :: "lookup \<Rightarrow> cli_error + channel_allowlist_request" where
  "channel_allowlist_from_lookup f = and_then (oidc_token_setting f) (channel_allowlist_with_token f)"

section \<open>Properties\<close>

text \<open>
  What is relied on of \<^verbatim>\<open>ct_common\<close> and of ed25519, for fields of the size their types give them: a grant
  is read back from its wire form, which has a fixed length, with the fields it was made of; it verifies
  under the key that signed it until it expires; and the channel of a link is that of its two ends in any order.
\<close>

definition body_wf :: "grant_body \<Rightarrow> bool" where
  "body_wf b \<longleftrightarrow> length (gb_channel b) = 32 \<and> length (gb_holder b) = 32 \<and> gb_expires b \<le> U64_MAX"

definition wire_law :: "'g authority \<Rightarrow> 'g \<Rightarrow> bool" where
  "wire_law A g \<longleftrightarrow> length (grant_encode (au_ct A) g) = WIRE_LEN (au_ct A) \<and> grant_decode (au_ct A) (grant_encode (au_ct A) g) = Ok g"

definition field_law :: "'g authority \<Rightarrow> grant_body \<Rightarrow> 'g \<Rightarrow> bool" where
  "field_law A b g \<longleftrightarrow> grant_channel (au_ct A) g = gb_channel b \<and> grant_holder (au_ct A) g = gb_holder b
     \<and> grant_dir (au_ct A) g = gb_direction b \<and> grant_expires_at (au_ct A) g = gb_expires b"

definition authority_ok :: "'g authority \<Rightarrow> bool" where
  "authority_ok A \<longleftrightarrow>
     0 < WIRE_LEN (au_ct A)
     \<and> (\<forall>k b g now. length k = 32 \<and> body_wf b \<and> g = au_signed A b (au_sign A k (au_grant_bytes A b)) \<longrightarrow>
          wire_law A g \<and> field_law A b g \<and> au_signature_ok A (au_pubkey A k) g
          \<and> (now < gb_expires b \<longrightarrow> verify_stateless (au_ct A) (au_pubkey A k) g now = Ok ()))
     \<and> (\<forall>op a b. length a = 32 \<and> length b = 32 \<longrightarrow>
          au_link_channel A op a b = au_link_channel A op b a \<and> length (au_link_channel A op a b) = 32)"

text \<open>An example of such an authority, with fields of fixed size one after the other.\<close>

definition dir_byte :: "grant_direction \<Rightarrow> byte" where
  "dir_byte d = (case d of DirInitiate \<Rightarrow> 0 | DirAccept \<Rightarrow> 1 | DirBoth \<Rightarrow> 2)"

definition dir_of_byte :: "byte \<Rightarrow> grant_direction" where
  "dir_of_byte b = (if b = 0 then DirInitiate else if b = 1 then DirAccept else DirBoth)"

type_synonym example_grant = "bytes \<times> bytes \<times> grant_direction \<times> nat \<times> bytes"

definition example_encode :: "example_grant \<Rightarrow> bytes" where
  "example_encode = (\<lambda>(c, h, d, e, s). c @ h @ dir_byte d # to_be 8 e @ s)"

definition example_decode :: "bytes \<Rightarrow> string + example_grant" where
  "example_decode bs =
     (if length bs \<noteq> 105 then Err ''length''
      else Ok (take 32 bs, take 32 (drop 32 bs), dir_of_byte (bs ! 64), from_be (take 8 (drop 65 bs)), drop 73 bs))"

definition example_authority :: "example_grant authority" where
  "example_authority =
     \<lparr>au_ct = \<lparr>WIRE_LEN = 105, grant_encode = example_encode, grant_decode = example_decode,
        verify_stateless = (\<lambda>pk (c, h, d, e, s) now. if s = pk \<and> now < e then Ok () else Err ''refused''),
        grant_channel = fst, grant_holder = (\<lambda>(c, h, r). h), grant_dir = (\<lambda>(c, h, d, r). d), grant_expires_at = (\<lambda>(c, h, d, e, s). e)\<rparr>,
      au_pubkey = (\<lambda>k. k), au_sign = (\<lambda>k m. k), au_grant_bytes = (\<lambda>b. []),
      au_signed = (\<lambda>b s. (gb_channel b, gb_holder b, gb_direction b, gb_expires b, s)),
      au_signature_ok = (\<lambda>pk (c, h, d, e, s). s = pk),
      au_invite_bytes = (\<lambda>i. []), au_invite_encode = (\<lambda>i s. s), au_staple_bytes = (\<lambda>c h a e. []),
      au_link_channel = (\<lambda>op a b. map2 (+) a b), au_role_channel = (\<lambda>op p r. op),
      au_attest_bytes = (\<lambda>c h n. n), au_topology_bytes = (\<lambda>t op. op)\<rparr>"

lemma example_wire:
  assumes "length c = 32" "length h = 32" "e \<le> U64_MAX" "length s = 32"
  shows "length (example_encode (c, h, d, e, s)) = 105" "example_decode (example_encode (c, h, d, e, s)) = Ok (c, h, d, e, s)"
proof -
  have "from_be (to_be 8 e) = e" using assms(3) by (intro from_be_to_be_id) (simp add: U64_MAX_def)
  moreover have "dir_of_byte (dir_byte d) = d" by (cases d) (simp_all add: dir_of_byte_def dir_byte_def)
  ultimately show "length (example_encode (c, h, d, e, s)) = 105"
      "example_decode (example_encode (c, h, d, e, s)) = Ok (c, h, d, e, s)"
    using assms by (simp_all add: example_decode_def example_encode_def nth_append)
qed

lemma example_authority_ok: "authority_ok example_authority"
proof -
  have "length a = length b \<Longrightarrow> map2 (+) a b = map2 (+) b a" for a b :: bytes
    by (induction a b rule: list_induct2) (simp_all add: add.commute)
  then show ?thesis
    by (simp add: authority_ok_def example_authority_def body_wf_def wire_law_def field_law_def example_wire)
qed

lemma signed_fields:
  assumes "authority_ok A" "length k = 32" "length c = 32" "length h = 32" "e \<le> U64_MAX"
  shows "grant_channel (au_ct A) (sign_member_grant A k c h d e) = c" "grant_holder (au_ct A) (sign_member_grant A k c h d e) = h"
    "grant_dir (au_ct A) (sign_member_grant A k c h d e) = d" "grant_expires_at (au_ct A) (sign_member_grant A k c h d e) = e"
    "wire_law A (sign_member_grant A k c h d e)" "au_signature_ok A (au_pubkey A k) (sign_member_grant A k c h d e)"
    "now < e \<Longrightarrow> verify_stateless (au_ct A) (au_pubkey A k) (sign_member_grant A k c h d e) now = Ok ()"
proof -
  define b where "b = \<lparr>gb_channel = c, gb_holder = h, gb_direction = d, gb_rights = ReadWrite, gb_delegable = False, gb_expires = e\<rparr>"
  have g: "sign_member_grant A k c h d e = au_signed A b (au_sign A k (au_grant_bytes A b))"
    by (simp add: sign_member_grant_def b_def Let_def)
  have "body_wf b" using assms by (simp add: body_wf_def b_def)
  then have l: "wire_law A (sign_member_grant A k c h d e)" "field_law A b (sign_member_grant A k c h d e)"
    "au_signature_ok A (au_pubkey A k) (sign_member_grant A k c h d e)"
    "now < e \<longrightarrow> verify_stateless (au_ct A) (au_pubkey A k) (sign_member_grant A k c h d e) now = Ok ()" for now
    using assms(1,2) g unfolding authority_ok_def by (metis grant_body.select_convs(6) b_def)+
  then show "grant_channel (au_ct A) (sign_member_grant A k c h d e) = c" "grant_holder (au_ct A) (sign_member_grant A k c h d e) = h"
    "grant_dir (au_ct A) (sign_member_grant A k c h d e) = d" "grant_expires_at (au_ct A) (sign_member_grant A k c h d e) = e"
    "wire_law A (sign_member_grant A k c h d e)" "au_signature_ok A (au_pubkey A k) (sign_member_grant A k c h d e)"
    "now < e \<Longrightarrow> verify_stateless (au_ct A) (au_pubkey A k) (sign_member_grant A k c h d e) now = Ok ()"
    by (auto simp: field_law_def b_def)
qed

lemma sat_add64_le [simp]: "sat_add64 a b \<le> U64_MAX"
  by (simp add: sat_add64_def)

lemma issue_core:
  assumes "authority_ok A" "length op = 32" "length c = 32" "length h = 32"
  shows "issue_grant_core A op c h d n now =
    (case verify_stateless (au_ct A) (au_pubkey A op) (sign_member_grant A op c h d (sat_add64 now n)) now of
       Inl e \<Rightarrow> Err (InternalError e) | Inr _ \<Rightarrow> Ok (issue_member_grant A op c h d (sat_add64 now n)))"
proof -
  let ?g = "sign_member_grant A op c h d (sat_add64 now n)"
  have w: "wire_law A ?g" using assms by (simp add: signed_fields)
  then have "grant_encode (au_ct A) ?g \<noteq> []" using assms(1) by (auto simp: wire_law_def authority_ok_def)
  then show ?thesis using w
    by (simp add: issue_grant_core_def og_issue_def issue_member_grant_def wire_law_def Let_def split: sum.split)
qed

lemma hex32_length: "hex32 s = Some v \<Longrightarrow> length v = 32"
  by (simp add: hex32_iff)

text \<open>
  C31: grants from fields. What is issued is a grant of exactly the channel, the holder and the direction that were
  asked for, read and write, not delegable, that ends the asked time from now and verifies under the
  operator's own key now; and fields that are well-formed, with a time that is not zero, get one.
\<close>

theorem issued_grant_sound:
  assumes "authority_ok A" and "length op = 32"
  shows "(\<forall>hex. issue_grant_from_fields A op ch ho di ex now = Ok hex \<longrightarrow>
       (\<exists>c h d n. hex32 (trim ch) = Some c \<and> hex32 (trim ho) = Some h \<and> parse_direction di = Some d
          \<and> parse_duration_secs ex = Ok n \<and> hex = issue_member_grant A op c h d (sat_add64 now n)
          \<and> verify_stateless (au_ct A) (au_pubkey A op) (sign_member_grant A op c h d (sat_add64 now n)) now = Ok ()))
     \<and> (\<forall>c h d n. hex32 (trim ch) = Some c \<and> hex32 (trim ho) = Some h \<and> parse_direction di = Some d
          \<and> parse_duration_secs ex = Ok n \<and> 0 < n \<and> now < U64_MAX \<longrightarrow>
          issue_grant_from_fields A op ch ho di ex now = Ok (issue_member_grant A op c h d (sat_add64 now n)))"
proof (intro conjI allI impI)
  fix hex assume "issue_grant_from_fields A op ch ho di ex now = Ok hex"
  then obtain c h d n where f: "hex32 (trim ch) = Some c" "hex32 (trim ho) = Some h" "parse_direction di = Some d"
    "parse_duration_secs ex = Ok n" "issue_grant_core A op c h d n now = Ok hex"
    by (auto simp: issue_grant_from_fields_def ok_iff)
  then show "\<exists>c h d n. hex32 (trim ch) = Some c \<and> hex32 (trim ho) = Some h \<and> parse_direction di = Some d
          \<and> parse_duration_secs ex = Ok n \<and> hex = issue_member_grant A op c h d (sat_add64 now n)
          \<and> verify_stateless (au_ct A) (au_pubkey A op) (sign_member_grant A op c h d (sat_add64 now n)) now = Ok ()"
    using f(5) by (auto simp: issue_core [OF assms f(1,2) [THEN hex32_length]] split: sum.splits)
next
  fix c h d n
  assume a: "hex32 (trim ch) = Some c \<and> hex32 (trim ho) = Some h \<and> parse_direction di = Some d
          \<and> parse_duration_secs ex = Ok n \<and> 0 < n \<and> now < U64_MAX"
  then have "now < sat_add64 now n" by (simp add: sat_add64_def)
  then show "issue_grant_from_fields A op ch ho di ex now = Ok (issue_member_grant A op c h d (sat_add64 now n))"
    using a assms hex32_length [of "trim ch" c] hex32_length [of "trim ho" h]
    by (simp add: issue_grant_from_fields_def issue_core signed_fields)
qed

text \<open>
  The dialogue. With each prompt answered by something, whatever was rejected before, the grant is the one the
  fields give; a dialogue ends only so or with the failure of the prompt.
\<close>

lemma ask_until_answer: "list_all (\<lambda>r. p r = None) bad \<Longrightarrow> ask_until p (map Inr bad @ as) = ask_until p as"
  by (induction bad) auto

lemma ask_answer:
  "list_all (\<lambda>r. p r = None) bad \<Longrightarrow> p raw = Some x \<Longrightarrow> ask_field p (map Inr bad @ Inr raw # as) k = k x as"
  by (simp add: ask_field_def ask_until_answer)

lemma ask_until_Ok: "ask_until p as = Some (Ok x, as') \<Longrightarrow> \<exists>raw. Inr raw \<in> set as \<and> p raw = Some x \<and> set as' \<subseteq> set as"
  by (induction p as rule: ask_until.induct) (auto split: option.splits)

lemma ask_Ok: "ask_field p as k = Some (Ok y) \<Longrightarrow> \<exists>x raw as'. Inr raw \<in> set as \<and> p raw = Some x \<and> set as' \<subseteq> set as \<and> k x as' = Some (Ok y)"
  by (auto simp: ask_field_def split: option.splits prod.splits sum.splits dest!: ask_until_Ok)

theorem dialogue_issues_fields:
  assumes "list_all (\<lambda>r. hex32 (trim r) = None) bad1" "list_all (\<lambda>r. hex32 (trim r) = None) bad2"
    and "list_all (\<lambda>r. parse_direction r = None) bad3" "list_all (\<lambda>r. \<forall>n. parse_duration_secs r \<noteq> Ok n) bad4"
    and "hex32 (trim ch) \<noteq> None" "hex32 (trim ho) \<noteq> None" "parse_direction di \<noteq> None" "\<exists>n. parse_duration_secs ex = Ok n"
  shows "issue_grant_interactively A op
           (map Inr bad1 @ Inr ch # map Inr bad2 @ Inr ho # map Inr bad3 @ Inr di # map Inr bad4 @ Inr ex # rest) now
         = Some (issue_grant_from_fields A op ch ho di ex now)"
proof -
  have "list_all (\<lambda>r. ok_of (parse_duration_secs r) = None) bad4"
    using assms(4) by (simp add: list_all_iff flip: option.simps(3)) (metis ok_of_Some not_None_eq)
  then show ?thesis using assms
    by (auto simp: issue_grant_interactively_def issue_grant_from_fields_def ask_answer)
qed

lemma example_answers:
  "hex32 (trim ''x'') = None" "parse_direction ''sideways'' = None" "parse_direction ''Accept'' = Some DirAccept"
  "parse_duration_secs ''d'' = Err (BadDuration ''d'')" "parse_duration_secs ''30d'' = Ok 2592000"
proof -
  have t: "trim ''x'' = ''x''" "trim ''sideways'' = ''sideways''" "trim ''Accept'' = ''Accept''" "trim ''d'' = ''d''"
    "trim ''30d'' = ''30d''" "trim ''30'' = ''30''" "trim [] = []"
    by (simp_all add: trim_graphic graphic_def)
  show "hex32 (trim ''x'') = None" by (simp add: t hex32_def hex_bytes_def)
  show "parse_direction ''sideways'' = None" "parse_direction ''Accept'' = Some DirAccept"
    by (simp_all add: t parse_direction_def normalized_def to_ascii_lowercase_def ascii_lower_def is_ascii_upper_def char_of_def bit_0 Let_def)
  show "parse_duration_secs ''d'' = Err (BadDuration ''d'')" "parse_duration_secs ''30d'' = Ok 2592000"
    by (simp_all add: t parse_duration_secs_def ascii_lower_def is_ascii_upper_def parse_uint_def is_ascii_digit_def U64_MAX_def Let_def)
qed

lemma example_key: "hex32 (trim (hex_encode (replicate 32 b))) = Some (replicate 32 b)"
  by (simp only: trim_hex_encode) (rule hex32_hex_encode, rule length_replicate)

theorem dialogue_issues_fields_witness:
  "issue_grant_interactively example_authority (replicate 32 1)
     [Inr ''x'', Inr (hex_encode (replicate 32 7)), Inr (hex_encode (replicate 32 8)), Inr ''sideways'', Inr ''Accept'', Inr ''d'', Inr ''30d''] 0
   = Some (issue_grant_from_fields example_authority (replicate 32 1) (hex_encode (replicate 32 7)) (hex_encode (replicate 32 8)) ''Accept'' ''30d'' 0)"
proof -
  have "hex32 (trim k1) \<noteq> None \<Longrightarrow> hex32 (trim k2) \<noteq> None \<Longrightarrow>
      issue_grant_interactively example_authority (replicate 32 1) [Inr ''x'', Inr k1, Inr k2, Inr ''sideways'', Inr ''Accept'', Inr ''d'', Inr ''30d''] 0
      = Some (issue_grant_from_fields example_authority (replicate 32 1) k1 k2 ''Accept'' ''30d'' 0)" for k1 k2
    using dialogue_issues_fields [of "[''x'']" "[]" "[''sideways'']" "[''d'']" k1 k2 "''Accept''" "''30d''" example_authority "replicate 32 1" "[]" 0]
    by (simp add: example_answers)
  then show ?thesis by (simp only: example_key option.distinct not_False_eq_True)
qed



lemma strip_prefix_own [simp]: "strip_prefix p (p @ r) = Some r"
  by (simp add: strip_prefix_Some)


theorem issued_grant_sound_witness:
  "issue_grant_from_fields example_authority (replicate 32 1) (hex_encode (replicate 32 7)) (hex_encode (replicate 32 8)) ''Accept'' ''30d'' 5
   = Ok (issue_member_grant example_authority (replicate 32 1) (replicate 32 7) (replicate 32 8) DirAccept (sat_add64 5 2592000))"
proof -
  have "(5::nat) < U64_MAX" "(0::nat) < 2592000" by (simp_all add: U64_MAX_def)
  then show ?thesis
    using issued_grant_sound [OF example_authority_ok length_replicate, of 1 "hex_encode (replicate 32 7)" "hex_encode (replicate 32 8)" "''Accept''" "''30d''" 5]
      example_key example_answers(3,5) by blast
qed


end
