(* ===== verification/Json_Value.thy ===== *)
theory Json_Value
  imports Rust_Prelude "HOL-Library.AList"
begin

text \<open>
  \<^verbatim>\<open>serde_json::Value\<close> with the accessors the sources use. A number is its text; an object is its entries, the
  order of which no code here looks at. Reading and printing JSON text is the library's.
\<close>

datatype json =
    JNull
  | JBool bool
  | JNumber string
  | JString string
  | JArray "json list"
  | JObject "(string \<times> json) list"

definition json_get :: "string \<Rightarrow> json \<Rightarrow> json option" where
  "json_get k v = (case v of JObject kvs \<Rightarrow> map_of kvs k | _ \<Rightarrow> None)"

definition as_bool :: "json \<Rightarrow> bool option" where
  "as_bool v = (case v of JBool b \<Rightarrow> Some b | _ \<Rightarrow> None)"

definition as_str :: "json \<Rightarrow> string option" where
  "as_str v = (case v of JString s \<Rightarrow> Some s | _ \<Rightarrow> None)"

text \<open>\<^verbatim>\<open>v.get(k).and_then(|x| x.as_str())\<close>, and the same for a truth value.\<close>

definition get_str :: "string \<Rightarrow> json \<Rightarrow> string option" where
  "get_str k v = Option.bind (json_get k v) as_str"

definition get_bool :: "string \<Rightarrow> json \<Rightarrow> bool option" where
  "get_bool k v = Option.bind (json_get k v) as_bool"

definition json_put :: "string \<Rightarrow> json \<Rightarrow> (string \<times> json) list \<Rightarrow> (string \<times> json) list" where
  "json_put k v kvs = AList.update k v kvs"

lemma json_get_object [simp]: "json_get k (JObject kvs) = map_of kvs k"
  by (simp add: json_get_def)

lemma as_simps [simp]:
  "as_bool v = Some b \<longleftrightarrow> v = JBool b" "as_str v = Some s \<longleftrightarrow> v = JString s"
  by (auto simp: as_bool_def as_str_def split: json.splits)

lemma get_simps [simp]:
  "get_str k v = Some s \<longleftrightarrow> json_get k v = Some (JString s)" "get_bool k v = Some b \<longleftrightarrow> json_get k v = Some (JBool b)"
  by (auto simp: get_str_def get_bool_def bind_eq_Some_conv)

lemma map_of_json_put [simp]: "map_of (json_put k v kvs) = (map_of kvs)(k \<mapsto> v)"
  by (simp add: json_put_def update_conv')

end
