(* ===== verification/GrantRevoke.thy ===== *)
theory GrantRevoke
  imports Provisioning Json_Value
begin

text \<open>
  \<^verbatim>\<open>channel_run/grant_revoke.rs\<close>: the request that puts a grant on the control plane's revocation list, and
  what its answer means. The JSON reader and SHA-256 are arguments, the HTTP exchange is its outcome.
\<close>

section \<open>The signed bytes and the grant\<close>

definition REVOKE_GRANT_ENV :: string where "REVOKE_GRANT_ENV = ''CT_REVOKE_GRANT''"
definition BODY_SNIPPET_CHARS :: nat where "BODY_SNIPPET_CHARS = 200"

definition snippet :: "string \<Rightarrow> string" where
  "snippet body =
     (let b = trim body in
      chars_take BODY_SNIPPET_CHARS b @ (if BODY_SNIPPET_CHARS < length (utf8_chars b) then ''...'' else []))"

definition revoke_signing_bytes :: "bytes \<Rightarrow> bytes \<Rightarrow> u64 \<Rightarrow> bytes" where
  "revoke_signing_bytes channel digest expires_at =
     str_bytes ''ct-grant-revoke:v1|'' @ channel @ [0x7c] @ digest @ [0x7c] @ u64_le expires_at"

datatype grant_hex_error = NotGrantHex nat | MalformedGrant string

definition decode_grant_hex :: "'g ct_common \<Rightarrow> string \<Rightarrow> grant_hex_error + 'g" where
  "decode_grant_hex ct s =
     and_then (ok_or (hex_decode (WIRE_LEN ct) (trim s)) (NotGrantHex (WIRE_LEN ct * 2))) (\<lambda>bs.
     case grant_decode ct bs of Inl e \<Rightarrow> Err (MalformedGrant e) | Inr g \<Rightarrow> Ok g)"

definition grant_digest :: "(bytes \<Rightarrow> bytes) \<Rightarrow> 'g ct_common \<Rightarrow> 'g \<Rightarrow> bytes" where
  "grant_digest sha256 ct g = sha256 (grant_encode ct g)"

record revoke_target =
  rt_channel :: bytes
  rt_digest :: bytes
  rt_expires_at :: nat

definition revoke_target_of :: "(bytes \<Rightarrow> bytes) \<Rightarrow> 'g ct_common \<Rightarrow> 'g \<Rightarrow> revoke_target" where
  "revoke_target_of sha256 ct g =
     \<lparr>rt_channel = grant_channel ct g, rt_digest = grant_digest sha256 ct g, rt_expires_at = grant_expires_at ct g\<rparr>"

definition revoke_body :: "'g authority \<Rightarrow> revoke_target \<Rightarrow> bytes option \<Rightarrow> json" where
  "revoke_body A t op =
     (let body = [(''grant_digest'', JString (hex_encode (rt_digest t))), (''expires_at'', JNumber (show_nat (rt_expires_at t)))] in
      JObject (case op of
        None \<Rightarrow> body
      | Some k \<Rightarrow> json_put ''operator_sig''
          (JString (hex_encode (au_sign A k (revoke_signing_bytes (rt_channel t) (rt_digest t) (word_of_nat (rt_expires_at t)))))) body))"

section \<open>The request\<close>

record 'g grant_revoke_request =
  gr_cp_url :: string
  gr_operator :: bytes
  gr_grant :: 'g

datatype revoke_fault =
    CpUrlRequired
  | RevokeSetting cli_error
  | RevokeGrantHex grant_hex_error
  | NameTheGrant cli_error
  | NotSignedByOperator

definition trim_slashes :: "string \<Rightarrow> string" where
  "trim_slashes s = rev (dropWhile (\<lambda>c. c = CHR ''/'') (rev s))"

definition grant_revoke_from_lookup :: "'g authority \<Rightarrow> lookup \<Rightarrow> revoke_fault + 'g grant_revoke_request" where
  "grant_revoke_from_lookup A f =
     and_then (ok_or (filter_opt (\<lambda>s. s \<noteq> []) (map_option (\<lambda>s. trim_slashes (trim s)) (f ''CT_AGENT_CP_URL''))) CpUrlRequired) (\<lambda>cp.
     and_then (case req_key f ''CT_CHANNEL_OPERATOR_KEY'' ''64 hex; from `channel operator-init`'' of
                 Inl e \<Rightarrow> Err (RevokeSetting e) | Inr k \<Rightarrow> Ok k) (\<lambda>op.
     and_then
       (case nonblank (f REVOKE_GRANT_ENV) of
          Some hex \<Rightarrow> (case decode_grant_hex (au_ct A) hex of Inl e \<Rightarrow> Err (RevokeGrantHex e) | Inr g \<Rightarrow> Ok g)
        | None \<Rightarrow>
           (case operator_grant_from_lookup f of
              Inl e \<Rightarrow> Err (NameTheGrant e)
            | Inr issued \<Rightarrow>
               (case decode_grant_hex (au_ct A) (og_issue A issued) of Inl e \<Rightarrow> Err (RevokeGrantHex e) | Inr g \<Rightarrow> Ok g)))
       (\<lambda>g.
     if \<not> au_signature_ok A (au_pubkey A op) g then Err NotSignedByOperator
     else Ok \<lparr>gr_cp_url = cp, gr_operator = op, gr_grant = g\<rparr>)))"

record revoke_post =
  post_url :: string
  post_bearer :: "string option"
  post_body :: json

definition revoke_url :: "'g authority \<Rightarrow> 'g grant_revoke_request \<Rightarrow> string" where
  "revoke_url A r = gr_cp_url r @ ''/channel/'' @ hex_encode (grant_channel (au_ct A) (gr_grant r)) @ ''/grant-revoke''"

definition revoke_send :: "(bytes \<Rightarrow> bytes) \<Rightarrow> 'g authority \<Rightarrow> 'g grant_revoke_request \<Rightarrow> revoke_post" where
  "revoke_send sha256 A r =
     \<lparr>post_url = revoke_url A r, post_bearer = None,
      post_body = revoke_body A (revoke_target_of sha256 (au_ct A) (gr_grant r)) (Some (gr_operator r))\<rparr>"

definition revoke_as_owner :: "(bytes \<Rightarrow> bytes) \<Rightarrow> 'g authority \<Rightarrow> string \<Rightarrow> string \<Rightarrow> 'g \<Rightarrow> revoke_post" where
  "revoke_as_owner sha256 A cp_url token g =
     (let t = revoke_target_of sha256 (au_ct A) g in
      \<lparr>post_url = trim_slashes cp_url @ ''/me/channels/'' @ hex_encode (rt_channel t) @ ''/grants/revoke'',
       post_bearer = Some token, post_body = revoke_body A t None\<rparr>)"

section \<open>The answer\<close>

datatype answer_error =
    UnreadableRevokeAnswer string
  | NotConfirmed string
  | RejectedMalformed string
  | NotAuthorized
  | UnknownChannelOrOld
  | AnsweredStatus nat string
  | PostFailed string

text \<open>On success: whether the digest was on the list already.\<close>

definition interpret_answer :: "(string \<Rightarrow> string + json) \<Rightarrow> nat \<Rightarrow> string \<Rightarrow> answer_error + bool" where
  "interpret_answer parse status body =
     (if status = 200 then
        (case parse body of
           Inl e \<Rightarrow> Err (UnreadableRevokeAnswer e)
         | Inr v \<Rightarrow>
             if get_bool ''revoked'' v \<noteq> Some True then Err (NotConfirmed (snippet body))
             else Ok (case get_bool ''already'' v of Some b \<Rightarrow> b | None \<Rightarrow> False))
      else if status = 400 then Err (RejectedMalformed (snippet body))
      else if status = 403 then Err NotAuthorized
      else if status = 404 \<or> status = 405 then Err UnknownChannelOrOld
      else Err (AnsweredStatus status (snippet body)))"

datatype post_outcome = NoReply string | Replied nat "string option"

definition post_revoke :: "(string \<Rightarrow> string + json) \<Rightarrow> post_outcome \<Rightarrow> answer_error + bool" where
  "post_revoke parse resp =
     (case resp of
        NoReply e \<Rightarrow> Err (PostFailed e)
      | Replied status body \<Rightarrow> interpret_answer parse status (unwrap_or_default body))"

definition describe_revoked :: "(bytes \<Rightarrow> bytes) \<Rightarrow> 'g authority \<Rightarrow> 'g grant_revoke_request \<Rightarrow> bool \<Rightarrow> string" where
  "describe_revoked sha256 A r already =
     (let g = gr_grant r in
      (if already then ''already revoked:'' else ''revoked:'') @ '' grant '' @ hex_encode (grant_digest sha256 (au_ct A) g)
      @ '' (channel '' @ hex_encode (grant_channel (au_ct A) g) @ '', holder '' @ hex_encode (grant_holder (au_ct A) g)
      @ '', expires '' @ show_nat (grant_expires_at (au_ct A) g) @ '')'')"

section \<open>Properties\<close>

text \<open>A signed revocation is for one grant of one channel, and is no question about a grant.\<close>

lemma revoke_signing_bytes_inj:
  assumes "length c = 32" "length d = 32" "length c' = 32" "length d' = 32"
    and "revoke_signing_bytes c d t = revoke_signing_bytes c' d' t'"
  shows "c = c' \<and> d = d' \<and> t = t'"
  using assms by (auto simp: revoke_signing_bytes_def dest: u64_le_inj)

lemma revoke_is_no_status_question: "revoke_signing_bytes c d t \<noteq> status_signing_bytes c' p d' t'"
proof
  assume "revoke_signing_bytes c d t = status_signing_bytes c' p d' t'"
  then have "take 12 (revoke_signing_bytes c d t) = take 12 (status_signing_bytes c' p d' t')" by simp
  then show False by (simp add: revoke_signing_bytes_def status_signing_bytes_def str_bytes_def)
qed

lemma decode_own_grant:
  assumes "wire_law A g"
  shows "decode_grant_hex (au_ct A) (hex_encode (grant_encode (au_ct A) g)) = Ok g"
  using assms by (simp add: decode_grant_hex_def wire_law_def)

lemma operator_grant_fields:
  "operator_grant_from_lookup f = Ok r \<Longrightarrow>
     length (og_operator r) = 32 \<and> length (og_channel r) = 32 \<and> length (og_member_holder r) = 32 \<and> og_expires_at r \<le> U64_MAX
     \<and> req_key f ''CT_CHANNEL_OPERATOR_KEY'' ''64 hex; from `channel operator-init`'' = Ok (og_operator r)"
  by (auto simp: operator_grant_from_lookup_def ok_iff req_key_def req_hex32_def opt_hex32_def hex32_length
      split: option.splits dest!: parse_uint_bound)

text \<open>The grant derived again from the fields it was issued with.\<close>

lemma rederived_grant:
  assumes "authority_ok A" and "operator_grant_from_lookup f = Ok issued"
  shows "\<exists>g. decode_grant_hex (au_ct A) (og_issue A issued) = Ok g \<and> au_signature_ok A (au_pubkey A (og_operator issued)) g
     \<and> og_issue A issued = hex_encode (grant_encode (au_ct A) g) \<and> nonblank (Some (og_issue A issued)) = Some (og_issue A issued)"
proof -
  let ?g = "sign_member_grant A (og_operator issued) (og_channel issued) (og_member_holder issued) (og_direction issued) (og_expires_at issued)"
  note f = operator_grant_fields [OF assms(2)]
  have law: "wire_law A ?g" "au_signature_ok A (au_pubkey A (og_operator issued)) ?g"
    using f by (auto intro!: signed_fields [OF assms(1)])
  have hex: "og_issue A issued = hex_encode (grant_encode (au_ct A) ?g)" by (simp add: og_issue_def issue_member_grant_def)
  have "length (hex_encode (grant_encode (au_ct A) ?g)) \<noteq> 0"
    using law(1) assms(1) by (simp add: wire_law_def authority_ok_def)
  then have "nonblank (Some (og_issue A issued)) = Some (og_issue A issued)" by (auto simp: nonblank_def filter_opt_def hex)
  then show ?thesis using decode_own_grant [OF law(1)] law(2) hex by metis
qed

text \<open>
  C33: which grant is revoked. A request is only made for a grant this operator's key signed; it names the digest,
  the expiry and the channel of that grant and is signed over them. The fields a grant was issued with revoke
  the same grant as its hex does.
\<close>

theorem revoke_hits_the_grant:
  assumes "authority_ok A"
  shows "(\<forall>r. grant_revoke_from_lookup A f = Ok r \<longrightarrow>
       au_signature_ok A (au_pubkey A (gr_operator r)) (gr_grant r)
       \<and> json_get ''grant_digest'' (post_body (revoke_send sha A r)) = Some (JString (hex_encode (sha (grant_encode (au_ct A) (gr_grant r)))))
       \<and> json_get ''operator_sig'' (post_body (revoke_send sha A r)) = Some (JString (hex_encode (au_sign A (gr_operator r)
            (revoke_signing_bytes (grant_channel (au_ct A) (gr_grant r)) (sha (grant_encode (au_ct A) (gr_grant r)))
               (word_of_nat (grant_expires_at (au_ct A) (gr_grant r))))))))
     \<and> (\<forall>issued cp. operator_grant_from_lookup f = Ok issued \<and> f REVOKE_GRANT_ENV = None \<and> f ''CT_AGENT_CP_URL'' = Some cp
          \<and> trim_slashes (trim cp) \<noteq> [] \<longrightarrow>
          grant_revoke_from_lookup A f = grant_revoke_from_lookup A (f(REVOKE_GRANT_ENV \<mapsto> og_issue A issued))
          \<and> (\<exists>r. grant_revoke_from_lookup A f = Ok r \<and> hex_encode (grant_encode (au_ct A) (gr_grant r)) = og_issue A issued))"
proof (intro conjI allI impI, goal_cases)
  case (1 r)
  then show ?case by (auto simp: grant_revoke_from_lookup_def ok_iff split: if_splits)
next
  case (2 r)
  then show ?case by (simp add: revoke_send_def revoke_body_def revoke_target_of_def grant_digest_def Let_def)
next
  case (3 r)
  then show ?case by (simp add: revoke_send_def revoke_body_def revoke_target_of_def grant_digest_def Let_def)
next
  case (4 issued cp)
  have same: "''CT_AGENT_CP_URL'' \<noteq> REVOKE_GRANT_ENV"
    "req_key (f(REVOKE_GRANT_ENV \<mapsto> v)) ''CT_CHANNEL_OPERATOR_KEY'' w = req_key f ''CT_CHANNEL_OPERATOR_KEY'' w" for v w
    by (simp_all add: REVOKE_GRANT_ENV_def req_key_def req_hex32_def opt_hex32_def)
  obtain g where "decode_grant_hex (au_ct A) (og_issue A issued) = Ok g" "nonblank (Some (og_issue A issued)) = Some (og_issue A issued)"
    using rederived_grant [OF assms] 4 by blast
  then show ?case using 4 operator_grant_fields [of f issued] by (simp add: grant_revoke_from_lookup_def same filter_opt_def)
next
  case (5 issued cp)
  obtain g where "decode_grant_hex (au_ct A) (og_issue A issued) = Ok g" "au_signature_ok A (au_pubkey A (og_operator issued)) g"
    "og_issue A issued = hex_encode (grant_encode (au_ct A) g)"
    using rederived_grant [OF assms] 5 by blast
  then show ?case using 5 operator_grant_fields [of f issued]
    by (auto simp: grant_revoke_from_lookup_def filter_opt_def)
qed

text \<open>
  What counts as revoked. The operator is told so exactly when the control plane answered 200 with a JSON
  object that says \<open>"revoked": true\<close>; no other answer and no failure of the exchange is taken for one, and what is shown of a body is
  at most 200 characters and a mark.
\<close>

theorem revoked_only_when_confirmed:
  "(post_revoke parse resp = Ok already \<longleftrightarrow>
      (\<exists>body v. resp = Replied 200 body \<and> parse (unwrap_or_default body) = Ok v \<and> json_get ''revoked'' v = Some (JBool True)
         \<and> already = (json_get ''already'' v = Some (JBool True))))"
proof -
  have "(case get_bool ''already'' v of Some b \<Rightarrow> b | None \<Rightarrow> False) = (get_bool ''already'' v = Some True)" for v
    by (cases "get_bool ''already'' v") (auto simp del: get_simps)
  then show ?thesis
    by (auto simp: post_revoke_def interpret_answer_def split: post_outcome.splits sum.splits)
qed

text \<open>A revocation from the fields of an example grant.\<close>

definition example_revoke_env :: lookup where
  "example_revoke_env =
     [''CT_AGENT_CP_URL'' \<mapsto> ''https://cp/'', ''CT_CHANNEL_OPERATOR_KEY'' \<mapsto> hex_encode (replicate 32 1),
      ''CT_GRANT_CHANNEL'' \<mapsto> hex_encode (replicate 32 7), ''CT_GRANT_MEMBER_HOLDER'' \<mapsto> hex_encode (replicate 32 8),
      ''CT_GRANT_DIRECTION'' \<mapsto> ''Accept'', ''CT_GRANT_EXPIRES'' \<mapsto> ''30'']"

lemma example_operator_grant:
  "operator_grant_from_lookup example_revoke_env
   = Ok \<lparr>og_operator = replicate 32 1, og_channel = replicate 32 7, og_member_holder = replicate 32 8, og_direction = DirAccept, og_expires_at = 30\<rparr>"
proof -
  have t: "trim ''30'' = ''30''" by (simp add: trim_graphic graphic_def)
  have n: "parse_uint (Suc U64_MAX) ''30'' = Some 30" by (simp add: parse_uint_def is_ascii_digit_def U64_MAX_def)
  have h: "hex32 (hex_encode (replicate 32 b)) = Some (replicate 32 b)" for b by (rule hex32_hex_encode) (rule length_replicate)
  have f: "req_key example_revoke_env ''CT_CHANNEL_OPERATOR_KEY'' w = Ok (replicate 32 1)"
    "req_hex32 example_revoke_env ''CT_GRANT_CHANNEL'' w = Ok (replicate 32 7)"
    "req_hex32 example_revoke_env ''CT_GRANT_MEMBER_HOLDER'' w = Ok (replicate 32 8)"
    "example_revoke_env ''CT_GRANT_DIRECTION'' = Some ''Accept''"
    "req_str example_revoke_env ''CT_GRANT_EXPIRES'' w = Ok ''30''" for w
    by (simp_all add: example_revoke_env_def req_key_def req_hex32_def opt_hex32_def req_str_def h)
  show ?thesis
    by (simp add: operator_grant_from_lookup_def f example_answers t n)
qed

theorem revoke_hits_the_grant_witness:
  "\<exists>r. grant_revoke_from_lookup example_authority example_revoke_env = Ok r
     \<and> au_signature_ok example_authority (au_pubkey example_authority (gr_operator r)) (gr_grant r)"
proof -
  have t: "trim ''https://cp/'' = ''https://cp/''" by (simp add: trim_graphic graphic_def)
  have "example_revoke_env REVOKE_GRANT_ENV = None" "example_revoke_env ''CT_AGENT_CP_URL'' = Some ''https://cp/''"
    "trim_slashes (trim ''https://cp/'') \<noteq> []"
    by (simp_all add: example_revoke_env_def REVOKE_GRANT_ENV_def t trim_slashes_def)
  then show ?thesis
    using revoke_hits_the_grant [OF example_authority_ok, of example_revoke_env] example_operator_grant by blast
qed

end
