(* ===== verification/ServiceCalls.thy ===== *)
theory ServiceCalls
  imports CliConfig Json_Value Redact ForwardReconnect
begin

text \<open>
  \<^verbatim>\<open>channel_run/service_calls.rs\<close>, the calls: a handler process run for one call and what of its output goes
  where, the services a member registers, one call from the caller's side, and the persistent caller with
  its reconnect loop.

  The handler process is what its pipes and its exit give; a session of the caller is the lines it takes,
  the answers they get and which future of the select ends first. JSON text, the message ceiling and the
  slugs of services are \<^verbatim>\<open>serde_json\<close>'s and \<^verbatim>\<open>ct_common\<close>'s and arguments.
\<close>

section \<open>The handler process\<close>

definition HANDLER_SECRET_ENV :: "string list" where
  "HANDLER_SECRET_ENV =
     [''CT_BOOTSTRAP'', ''CT_AGENT_TOKEN'', ''CT_AGENT_JOIN_TOKEN'', ''CT_AGENT_MASQUE_TOKEN'', ''CT_AGENT_ORIGIN_KEY'',
      ''CT_AGENT_SSH_OWNER_KEY'', ''CT_AGENT_SUPERVISOR_STATUS_TOKEN'', ''CT_CHANNEL_HOLDER_KEY'', ''CT_CHANNEL_NOISE_KEY'',
      ''CT_CHANNEL_OPERATOR_KEY'', ''CT_CP_EDGE_ADMIN_TOKEN'', ''CT_DEBUG_DIRECT_TOKEN'', ''CT_LOCAL_AUTH_PASSWORD'',
      ''CT_MANIFEST_HOLDER_KEY'', ''CT_MANIFEST_REGISTRY_WRITE_TOKEN'', ''CT_OIDC_TOKEN'', ''CT_RELAY_NODE_KEY'']"

text \<open>The environment of the child: that of the agent, the service type set, the secrets removed.\<close>

definition handler_env :: "string \<Rightarrow> lookup \<Rightarrow> lookup" where
  "handler_env slug parent =
     fold (\<lambda>key env. env(key := None)) HANDLER_SECRET_ENV (parent(''CT_SERVICE_TYPE'' \<mapsto> slug))"

definition SERVICE_HANDLER_TIMEOUT :: duration where "SERVICE_HANDLER_TIMEOUT = secs 120"
definition HANDLER_STDERR_PASSTHROUGH_MAX :: nat where "HANDLER_STDERR_PASSTHROUGH_MAX = 64 * 1024"
definition HANDLER_STDERR_KEEP :: nat where "HANDLER_STDERR_KEEP = 1024 * 1024"
definition HANDLER_STDERR_PEER_TAIL_MAX :: nat where "HANDLER_STDERR_PEER_TAIL_MAX = 2 * 1024"
definition HANDLER_STDERR_REDACT_LOOKBACK :: nat where "HANDLER_STDERR_REDACT_LOOKBACK = 1024"

text \<open>The reads of a pipe until its end.\<close>

datatype child_read = Chunk string | Interrupted | ReadFails

fun read_to_end :: "child_read list \<Rightarrow> string" where
  "read_to_end [] = []"
| "read_to_end (Chunk b # rs) = b @ read_to_end rs"
| "read_to_end (Interrupted # rs) = read_to_end rs"
| "read_to_end (ReadFails # rs) = []"

definition read_head :: "nat \<Rightarrow> child_read list \<Rightarrow> string" where
  "read_head cap rs = take cap (read_to_end rs)"

fun read_tail_from :: "nat \<Rightarrow> string \<Rightarrow> child_read list \<Rightarrow> string" where
  "read_tail_from cap tail [] = tail"
| "read_tail_from cap tail (Chunk b # rs) =
     (let t = tail @ b in read_tail_from cap (drop (length t - cap) t) rs)"
| "read_tail_from cap tail (Interrupted # rs) = read_tail_from cap tail rs"
| "read_tail_from cap tail (ReadFails # rs) = tail"

definition read_tail :: "nat \<Rightarrow> child_read list \<Rightarrow> string" where
  "read_tail cap rs = read_tail_from cap [] rs"

text \<open>What is written to the agent's own stderr.\<close>

definition forward_handler_stderr :: "string \<Rightarrow> string \<Rightarrow> string list" where
  "forward_handler_stderr slug stderr =
     (if stderr = [] then []
      else
        (let n = length stderr; cut = HANDLER_STDERR_PASSTHROUGH_MAX < n;
             tail = (if cut then drop (n - HANDLER_STDERR_PASSTHROUGH_MAX) stderr else stderr);
             label = ''service handler['' @ slug @ ''] stderr: '' in
         (if cut then [label @ ''[... '' @ show_nat (n - HANDLER_STDERR_PASSTHROUGH_MAX) @ '' bytes cut, last ''
            @ show_nat HANDLER_STDERR_PASSTHROUGH_MAX @ '' shown]''] else [])
         @ map (\<lambda>l. label @ l) (str_lines (from_utf8_lossy tail))))"

text \<open>What of it the peer is told.\<close>

function boundary_above :: "string \<Rightarrow> nat \<Rightarrow> nat" where
  "boundary_above s n = (if length s \<le> n \<or> is_char_boundary s n then n else boundary_above s (Suc n))"
  by pat_completeness auto
termination by (relation "measure (\<lambda>(s, n). length s - n)") auto

declare boundary_above.simps [simp del]

definition peer_facing_stderr_tail :: "string \<Rightarrow> string" where
  "peer_facing_stderr_tail stderr =
     (if stderr = [] then []
      else
        (let n = length stderr;
             window_len = min (HANDLER_STDERR_PEER_TAIL_MAX + HANDLER_STDERR_REDACT_LOOKBACK) n;
             window = drop (n - window_len) stderr;
             text = redact_secrets (trim_end (from_utf8_lossy window)) in
         if n \<le> HANDLER_STDERR_PEER_TAIL_MAX then text
         else
           (let start = boundary_above text (length text - HANDLER_STDERR_PEER_TAIL_MAX) in
            ''[... '' @ show_nat (n - HANDLER_STDERR_PEER_TAIL_MAX) @ '' bytes cut, last ''
            @ show_nat HANDLER_STDERR_PEER_TAIL_MAX @ '' shown] '' @ drop start text)))"

datatype handler_run =
    SpawnFails string
  | PipeMissing string
  | WaitFails string
  | RunsPastTimeout nat
  | WaitThreadGone
  | HandlerExited bool string "child_read list" "child_read list"

datatype handler_error =
    HandlerSpawn string
  | HandlerNoPipe string
  | HandlerWait string
  | HandlerTimedOut nat nat
  | HandlerWaitGone
  | HandlerStatus string string
  | HandlerTooLarge nat
  | HandlerNoOutput string

text \<open>
  One run: its result, what is forwarded to stderr, and the process group that is killed.
  \<open>HandlerExited\<close> carries whether the exit was a success and how its status prints.
\<close>

definition run_service_handler_with_timeout ::
  "nat \<Rightarrow> string \<Rightarrow> duration \<Rightarrow> handler_run \<Rightarrow> (handler_error + string) \<times> string list \<times> nat option" where
  "run_service_handler_with_timeout max_message slug timeout run =
     (case run of
        SpawnFails e \<Rightarrow> (Err (HandlerSpawn e), [], None)
      | PipeMissing p \<Rightarrow> (Err (HandlerNoPipe p), [], None)
      | WaitFails e \<Rightarrow> (Err (HandlerWait e), [], None)
      | RunsPastTimeout pid \<Rightarrow> (Err (HandlerTimedOut (timeout div secs 1) pid), [], Some pid)
      | WaitThreadGone \<Rightarrow> (Err HandlerWaitGone, [], None)
      | HandlerExited success status out err \<Rightarrow>
          (let stdout = read_head (max_message + 1) out; stderr = read_tail HANDLER_STDERR_KEEP err;
               diag = forward_handler_stderr slug stderr in
           if \<not> success then (Err (HandlerStatus status (peer_facing_stderr_tail stderr)), diag, None)
           else if max_message < length stdout then (Err (HandlerTooLarge max_message), diag, None)
           else
             (let s = trim (from_utf8_lossy stdout) in
              if s = [] then (Err (HandlerNoOutput status), diag, None) else (Ok s, diag, None))))"

definition run_service_handler :: "nat \<Rightarrow> string \<Rightarrow> handler_run \<Rightarrow> (handler_error + string) \<times> string list \<times> nat option" where
  "run_service_handler max_message slug run = run_service_handler_with_timeout max_message slug SERVICE_HANDLER_TIMEOUT run"

section \<open>The services registered\<close>

text \<open>The requested services within the catalog of the offer, and what is refused of them.\<close>

definition requested_services :: "string option \<Rightarrow> offer_config option \<Rightarrow> service_type list" where
  "requested_services setting offer =
     (case setting of
        Some s \<Rightarrow> List.map_filter (\<lambda>t. parse_service_type (trim t)) (split_on (CHR '','') s)
      | None \<Rightarrow> (case offer of Some c \<Rightarrow> services c | None \<Rightarrow> []))"

definition registered_services :: "string option \<Rightarrow> offer_config option \<Rightarrow> service_type list \<times> service_type list" where
  "registered_services setting offer =
     (let requested = requested_services setting offer in
      case offer of
        Some c \<Rightarrow> partition (\<lambda>s. s \<in> set (services c)) requested
      | None \<Rightarrow> (requested, []))"

section \<open>One call\<close>

datatype call_error =
    CallIo string
  | ReplyNotJson string
  | ReplyError string json
  | ReplyIncomplete string

definition call_role_service :: "(bytes \<Rightarrow> string + json) \<Rightarrow> string \<Rightarrow> string + bytes \<Rightarrow> call_error + string" where
  "call_role_service parse slug reply =
     (case reply of
        Inl e \<Rightarrow> Err (CallIo e)
      | Inr body \<Rightarrow>
         (case parse body of
            Inl e \<Rightarrow> Err (ReplyNotJson e)
          | Inr v \<Rightarrow>
             (case json_get ''error'' v of
                Some e \<Rightarrow> Err (ReplyError slug e)
              | None \<Rightarrow> ok_or (Option.bind (json_get ''result'' v) (get_str ''output'')) (ReplyIncomplete slug))))"

definition call_params :: "string \<Rightarrow> string \<Rightarrow> json" where
  "call_params slug input =
     JObject [(''name'', JString (''service/'' @ slug)), (''arguments'', JObject [(''input'', JString input)])]"

definition UPGRADE_GRACE :: duration where "UPGRADE_GRACE = secs 6"

text \<open>\<^verbatim>\<open>run_service_call\<close>: the result and how long the session is held afterwards.\<close>

definition run_service_call :: "(bytes \<Rightarrow> string + json) \<Rightarrow> lookup \<Rightarrow> string \<Rightarrow> string + bytes \<Rightarrow> (call_error + string) \<times> duration" where
  "run_service_call parse env slug reply =
     (let result = call_role_service parse slug reply;
          upgrade = (env ''CT_CHANNEL_RELAY_GATE'' \<noteq> None \<or> env ''CT_CHANNEL_CIRCUIT_RELAY'' \<noteq> None
                     \<or> env ''CT_CHANNEL_DIRECT_UPGRADE'' \<noteq> None) in
      (result, if ok_of result \<noteq> None \<and> upgrade then UPGRADE_GRACE else 0))"

definition call_persistent_enabled_from :: "string option \<Rightarrow> bool" where
  "call_persistent_enabled_from v = flag v True"

text \<open>\<^verbatim>\<open>crew_build_over\<close>: the replies of the three roles; the assembly of a configuration is \<^verbatim>\<open>ct_common\<close>'s.\<close>

datatype crew_error = SafetyUnreachable call_error | SafetyNotJson string | PhysicsUnreachable call_error | ArtUnreachable call_error | FragmentsMalformed string
datatype 'c crew_build = CrewRejected string | CrewBuilt 'c

definition crew_build_over ::
  "(bytes \<Rightarrow> string + json) \<Rightarrow> (string \<Rightarrow> string + json) \<Rightarrow> (string \<Rightarrow> string \<Rightarrow> string + 'c)
     \<Rightarrow> string + bytes \<Rightarrow> string + bytes \<Rightarrow> string + bytes \<Rightarrow> crew_error + 'c crew_build" where
  "crew_build_over parse parse_str assemble safety physics art =
     (case call_role_service parse ''safety_check'' safety of
        Inl e \<Rightarrow> Err (SafetyUnreachable e)
      | Inr out \<Rightarrow>
         (case parse_str out of
            Inl e \<Rightarrow> Err (SafetyNotJson e)
          | Inr verdict \<Rightarrow>
             if get_bool ''ok'' verdict \<noteq> Some True
             then Ok (CrewRejected (case get_str ''reason'' verdict of Some r \<Rightarrow> r | None \<Rightarrow> ''rejected by the safety agent''))
             else
              (case call_role_service parse ''text_generation'' physics of
                 Inl e \<Rightarrow> Err (PhysicsUnreachable e)
               | Inr pj \<Rightarrow>
                  (case call_role_service parse ''text_generation'' art of
                     Inl e \<Rightarrow> Err (ArtUnreachable e)
                   | Inr aj \<Rightarrow> (case assemble pj aj of Inl e \<Rightarrow> Err (FragmentsMalformed e) | Inr c \<Rightarrow> Ok (CrewBuilt c))))))"

section \<open>The persistent caller\<close>

datatype envelope = EnvOk string | EnvErr call_error

text \<open>The answer of a call, and the failure of writing its envelope, if it fails.\<close>

type_synonym call_reply = "(string + bytes) \<times> string option"

datatype calls_end = CallsWait | CallsInFlight string | CallsBroken call_error | CallsOutFails string

text \<open>The lines in the channel, in order: the envelopes written, the lines left in it, and where the loop stands.\<close>

fun run_service_calls_persistent ::
  "(bytes \<Rightarrow> string + json) \<Rightarrow> string \<Rightarrow> call_reply list \<Rightarrow> string list \<Rightarrow> envelope list \<times> string list \<times> calls_end" where
  "run_service_calls_persistent parse slug replies [] = ([], [], CallsWait)"
| "run_service_calls_persistent parse slug replies (l # ls) =
     (let input = trim l in
      if input = [] then run_service_calls_persistent parse slug replies ls
      else (case replies of
        [] \<Rightarrow> ([], ls, CallsInFlight input)
      | (reply, write_error) # rs \<Rightarrow>
         (case call_role_service parse slug reply of
            Inr output \<Rightarrow>
              (case write_error of
                 Some e \<Rightarrow> ([], ls, CallsOutFails e)
               | None \<Rightarrow>
                   (let (es, rest, en) = run_service_calls_persistent parse slug rs ls in (EnvOk output # es, rest, en)))
          | Inl e \<Rightarrow> ([EnvErr e], ls, CallsBroken e))))"

text \<open>
  One session of the reconnect loop: the time at its start, the lines it finds and the replies, which future
  of the select ends first, whether the source of lines is closed, what the record of the gate says, and the
  times and the random number of the pause after it.
\<close>

datatype select_end = PumpEnds "err + unit" | CallsReturn | OwnExpiryFires

record call_session =
  cs_now :: nat
  cs_lines :: "string list"
  cs_replies :: "call_reply list"
  cs_ended :: select_end
  cs_eof :: bool
  cs_recorded :: "grant_end option"
  cs_after :: nat
  cs_lasted :: duration
  cs_rnd :: real
  cs_expires_in_wait :: bool

datatype call_loop_end = CallsDone | CallOwnGrantEnded grant_reason | NotReconnecting
datatype call_next = CallAgain duration nat | CallEnds call_loop_end

definition CALL_RETRY_BACKOFF :: duration where "CALL_RETRY_BACKOFF = millis 200"

definition own_reason :: "nat option \<Rightarrow> call_session \<Rightarrow> err + unit \<Rightarrow> grant_reason option" where
  "own_reason own s outcome =
     (case filter_opt (\<lambda>e. scope e = OwnScope) (cs_recorded s) of
        Some e \<Rightarrow> Some (reason e)
      | None \<Rightarrow>
         (case outcome of
            Inl e \<Rightarrow> map_option AdmissionRefused (own_grant_refusal e own (cs_after s))
          | Inr _ \<Rightarrow> None))"

definition calls_of :: "(bytes \<Rightarrow> string + json) \<Rightarrow> string \<Rightarrow> call_session \<Rightarrow> envelope list \<times> string list \<times> calls_end" where
  "calls_of parse slug s = run_service_calls_persistent parse slug (cs_replies s) (cs_lines s)"

definition clean_eof :: "(bytes \<Rightarrow> string + json) \<Rightarrow> string \<Rightarrow> call_session \<Rightarrow> bool" where
  "clean_eof parse slug s \<longleftrightarrow> cs_ended s = CallsReturn \<and> cs_eof s \<and> snd (snd (calls_of parse slug s)) = CallsWait"

definition call_turn ::
  "(bytes \<Rightarrow> string + json) \<Rightarrow> string \<Rightarrow> bool \<Rightarrow> nat option \<Rightarrow> nat \<Rightarrow> call_session \<Rightarrow> envelope list \<times> call_next" where
  "call_turn parse slug call_reconnect own streak s =
     (let expired = (case own of Some x \<Rightarrow> Some (MemberGrantExpired x) | None \<Rightarrow> None) in
      if (\<exists>x \<in> set_option own. x \<le> cs_now s) then ([], CallEnds (CallOwnGrantEnded (the expired)))
      else
        (fst (calls_of parse slug s),
         (let own_end = (case cs_ended s of
                PumpEnds outcome \<Rightarrow> own_reason own s outcome | OwnExpiryFires \<Rightarrow> expired | CallsReturn \<Rightarrow> None) in
          case own_end of
            Some r \<Rightarrow> CallEnds (CallOwnGrantEnded r)
          | None \<Rightarrow>
              if clean_eof parse slug s then CallEnds CallsDone
              else if \<not> call_reconnect then CallEnds NotReconnecting
              else
                (let streak' = (if is_flapping_session (cs_lasted s) True then streak + 1 else 0);
                     delay = equal_jitter (flapping_session_backoff CALL_RETRY_BACKOFF streak') (cs_rnd s) in
                 case (if cs_expires_in_wait s then expired else None) of
                   Some r \<Rightarrow> CallEnds (CallOwnGrantEnded r)
                 | None \<Rightarrow> CallAgain delay streak'))))"


section \<open>Properties of the handler\<close>

text \<open>No secret of the agent is in the environment of a handler.\<close>

lemma fold_unset: "fold (\<lambda>key env. env(key := None)) ks e k = (if k \<in> set ks then None else e k)"
  by (induction ks arbitrary: e) auto

lemma handler_env_at:
  "handler_env slug parent k =
     (if k \<in> set HANDLER_SECRET_ENV then None else if k = ''CT_SERVICE_TYPE'' then Some slug else parent k)"
  by (simp add: handler_env_def fold_unset)

text \<open>The bounded readers keep the beginning and the end of what arrives before a failing read.\<close>

lemma read_tail_from_eq: "length tail \<le> cap \<Longrightarrow> read_tail_from cap tail rs = (let t = tail @ read_to_end rs in drop (length t - cap) t)"
proof (induction cap tail rs rule: read_tail_from.induct)
  case (2 cap tail b rs)
  have "length (drop (length (tail @ b) - cap) (tail @ b)) \<le> cap" by simp
  note ih = "2.IH" [OF refl this]
  have "drop (length (tail @ b @ r) - cap) (tail @ b @ r)
      = drop (length (drop (length (tail @ b) - cap) (tail @ b) @ r) - cap) (drop (length (tail @ b) - cap) (tail @ b) @ r)" for r :: string
  proof -
    have "drop (length (drop k t @ r) - cap) (drop k t @ r) = drop (length (t @ r) - cap) (t @ r)"
      if "k = length t - cap" for k and t :: string
    proof -
      have "drop k t @ r = drop k (t @ r)" using that by simp
      then show ?thesis using that by (cases "cap \<le> length t") (simp_all add: add.commute)
    qed
    from this [of "length (tail @ b) - cap" "tail @ b"] show ?thesis by simp
  qed
  then show ?case using ih by (simp add: Let_def)
qed (auto simp: Let_def)

lemma read_tail_eq: "read_tail cap rs = drop (length (read_to_end rs) - cap) (read_to_end rs)"
  by (simp add: read_tail_def read_tail_from_eq Let_def)





text \<open>
  A handler's answer. It is the trimmed output of a run that ended well, said something and stayed below the
  message ceiling; every other end of a run is an error. The process group is killed exactly on a timeout.
  Whether the run succeeded or not, the operator's log gets the end of the error output; and no secret of the
  agent is in the environment of the process.
\<close>

theorem handler_answer:
  "(fst (run_service_handler_with_timeout m slug t run) = Ok s \<longleftrightarrow>
     (\<exists>status out err. run = HandlerExited True status out err \<and> length (read_to_end out) \<le> m
        \<and> s = trim (from_utf8_lossy (read_to_end out)) \<and> s \<noteq> []))
   \<and> (snd (snd (run_service_handler_with_timeout m slug t run)) = Some pid \<longleftrightarrow> run = RunsPastTimeout pid)
   \<and> fst (snd (run_service_handler_with_timeout m slug t (HandlerExited success status out err)))
       = forward_handler_stderr slug (drop (length (read_to_end err) - HANDLER_STDERR_KEEP) (read_to_end err))
   \<and> (k \<in> set HANDLER_SECRET_ENV \<longrightarrow> handler_env slug parent k = None)"
proof (intro conjI)
  show "fst (run_service_handler_with_timeout m slug t run) = Ok s \<longleftrightarrow>
     (\<exists>status out err. run = HandlerExited True status out err \<and> length (read_to_end out) \<le> m
        \<and> s = trim (from_utf8_lossy (read_to_end out)) \<and> s \<noteq> [])"
    by (cases run) (auto simp: run_service_handler_with_timeout_def read_head_def Let_def)
  show "snd (snd (run_service_handler_with_timeout m slug t run)) = Some pid \<longleftrightarrow> run = RunsPastTimeout pid"
    by (cases run) (auto simp: run_service_handler_with_timeout_def Let_def)
qed (simp_all add: run_service_handler_with_timeout_def read_tail_eq handler_env_at Let_def)

text \<open>What is registered is declared by the signed offer, and nothing that is refused is registered.\<close>

lemma registered_within_offer:
  "set (fst (registered_services setting (Some c))) \<subseteq> set (services c)"
  "set (fst (registered_services setting (Some c))) \<inter> set (snd (registered_services setting (Some c))) = {}"
  by (auto simp: registered_services_def Let_def)

section \<open>Properties of the persistent caller\<close>

definition answer_of :: "(bytes \<Rightarrow> string + json) \<Rightarrow> string \<Rightarrow> call_reply \<Rightarrow> envelope" where
  "answer_of parse slug r = (case call_role_service parse slug (fst r) of Inr out \<Rightarrow> EnvOk out | Inl e \<Rightarrow> EnvErr e)"

lemma answer_of_simps [simp]:
  "call_role_service parse slug r = Inr out \<Longrightarrow> answer_of parse slug (r, w) = EnvOk out"
  "call_role_service parse slug r = Inl e \<Longrightarrow> answer_of parse slug (r, w) = EnvErr e"
  by (simp_all add: answer_of_def)


definition asked :: "string list \<Rightarrow> nat" where
  "asked ls = length (filter (\<lambda>l. trim l \<noteq> []) ls)"

lemma asked_simps [simp]: "asked [] = 0" "asked (l # ls) = (if trim l = [] then asked ls else Suc (asked ls))"
  by (simp_all add: asked_def)


text \<open>
  A call in flight when the session's pump ends first gets no envelope at all: the loop goes on to the next
  session, and the envelopes written afterwards answer the lines behind it.
\<close>

lemma call_in_flight_lost:
  assumes "trim l \<noteq> []" and "cs_lines s = [l]" "cs_replies s = []" "cs_ended s = PumpEnds (Ok ())" "cs_recorded s = None"
  shows "\<exists>d k. call_turn parse slug True None streak s = ([], CallAgain d k)"
  using assms by (simp add: call_turn_def calls_of_def own_reason_def filter_opt_def clean_eof_def Let_def)











theorem handler_answer_witness:
  "snd (snd (run_service_handler_with_timeout 10 ''s'' 5 (RunsPastTimeout 7))) = Some 7
   \<and> handler_env ''s'' (\<lambda>k. Some ''secret'') ''CT_OIDC_TOKEN'' = None"
proof -
  have "''CT_OIDC_TOKEN'' \<in> set HANDLER_SECRET_ENV" by (simp add: HANDLER_SECRET_ENV_def)
  then show ?thesis using handler_answer by blast
qed



end
