(* ===== verification/Spec2Isabelle.thy ===== *)
theory Spec2Isabelle
  imports Masque ForwardEngine ForwardReconnect PeerGrant ShareLinks Redact Shutdown TcpFallback FramedRelay SelfUpdate Supervisor PeerPin GrantRevoke ServiceCalls
begin

text \<open>
  Verification library of the ct-agent (\<^verbatim>\<open>native/src\<close>).

  The agent joins members of a channel through an edge: an initiator and an acceptor are admitted with
  signed grants, run an encrypted session over a direct or relayed path, and carry a pipe, service
  calls or forwarded TCP streams on it. Around that stand the local gates of a tunnel (a credential
  and share links), the probes and the shutdown of the process.

  \<^bold>\<open>The theories, in the order of the code.\<close>

  \<^item> \<^verbatim>\<open>Rust_Prelude\<close>, \<^verbatim>\<open>Rust_Text\<close>: the machine types and the part of the standard library the sources
    use: big-endian integers, byte and string operations, UTF-8, \<^verbatim>\<open>trim\<close>, decimal numbers.
  \<^item> \<^verbatim>\<open>Stream_Codec\<close>, \<^verbatim>\<open>Credit_Account\<close>, \<^verbatim>\<open>Backoff_Schedule\<close>: the contracts several components share, as
    locales: a self-delimiting encoding, a sender's window, a capped backoff. They are interpreted on
    the frames, on the session window and the stream credit, and on the four admission backoffs.
  \<^item> \<^verbatim>\<open>Codec\<close>, \<^verbatim>\<open>EnvFlag\<close>, \<^verbatim>\<open>Net\<close>, \<^verbatim>\<open>Reconnect\<close>, \<^verbatim>\<open>Masque\<close> model \<^verbatim>\<open>codec.rs\<close>, \<^verbatim>\<open>envflag.rs\<close>, \<^verbatim>\<open>ladder.rs\<close> with the
    addresses of the standard library, \<^verbatim>\<open>reconnect.rs\<close> and \<^verbatim>\<open>masque/\<close>.
  \<^item> \<^verbatim>\<open>ForwardPolicy\<close>, \<^verbatim>\<open>ForwardWire\<close>, \<^verbatim>\<open>ForwardFlow\<close>, \<^verbatim>\<open>ForwardStream\<close>, \<^verbatim>\<open>ForwardEngine\<close>,
    \<^verbatim>\<open>ForwardReconnect\<close> model \<^verbatim>\<open>channel_run/forward.rs\<close>, \<^verbatim>\<open>forward_wire.rs\<close> and \<^verbatim>\<open>forward_stream.rs\<close>: which
    targets a peer may open, the frames, the two flow controls, the pump of a stream, the two engines
    of a session as step relations over their select branches, and the loop around the sessions.
  \<^item> \<^verbatim>\<open>GrantWatch\<close>, \<^verbatim>\<open>PeerGrant\<close> model \<^verbatim>\<open>channel_run/grant_watch.rs\<close> and \<^verbatim>\<open>peer_grant.rs\<close>: the gate that
    lets no byte pass before the peer's grant is verified and none after a grant ended, and the
    re-check that ends a session whose grant was revoked.
  \<^item> \<^verbatim>\<open>AdmissionErrors\<close>, \<^verbatim>\<open>ServeLoop\<close>, \<^verbatim>\<open>Dialing\<close> model \<^verbatim>\<open>channel_run/errors.rs\<close>, \<^verbatim>\<open>serving.rs\<close> and the pure
    parts of \<^verbatim>\<open>dialing.rs\<close> and \<^verbatim>\<open>connectivity.rs\<close>: how a failed admission is classified, what each class
    waits, and the loops that admit, serve and dial again.
  \<^item> \<^verbatim>\<open>Health\<close>, \<^verbatim>\<open>Shutdown\<close> model \<^verbatim>\<open>channel_run/health.rs\<close> and \<^verbatim>\<open>shutdown.rs\<close>: the counters and probes, and
    what a stop signal does.
  \<^item> \<^verbatim>\<open>LocalAuth\<close>, \<^verbatim>\<open>ShareLinks\<close> model \<^verbatim>\<open>local_auth.rs\<close>: the credential, the rate limiter, the links file
    and the gate before a tunnel.
  \<^item> \<^verbatim>\<open>Redact\<close> models \<^verbatim>\<open>channel_run/redact.rs\<close>; \<^verbatim>\<open>PeerPin\<close> models \<^verbatim>\<open>channel_run/peer_pin.rs\<close>: with whom a member
    has a session.
  \<^item> \<^verbatim>\<open>DirectToken\<close>, \<^verbatim>\<open>TcpFallback\<close>, \<^verbatim>\<open>FramedRelay\<close> model three parts of \<^verbatim>\<open>serve.rs\<close>: the routing token of a
    direct client with the revocation view the registration loops feed; the TLS-TCP fallback, one
    attempt over its rungs, the loop of a worker, and the pool with its QUIC probes as a step relation;
    and the relay of a framed connection, its two halves and the single writer, as a step relation.
  \<^item> \<^verbatim>\<open>SecretFile\<close>, \<^verbatim>\<open>SelfUpdate\<close> model \<^verbatim>\<open>secret_file.rs\<close> and \<^verbatim>\<open>self_update.rs\<close> over a file system in which any call
    may fail and power may be lost after any: the atomic write, and the update from the release check
    to the replaced binary.
  \<^item> \<^verbatim>\<open>Supervisor\<close> models \<^verbatim>\<open>bin/ct-agent-supervisor.rs\<close>.

  \<^bold>\<open>How the code is translated.\<close> A struct is a record, an enum a datatype with the source's
  constructors, an error message a constructor that carries what the message says (the text itself
  where the code compares it). A mutable receiver is passed and returned. An \<^verbatim>\<open>async\<close> function is a
  function of what its awaits give: the bytes that arrive, the moments at which timers and events
  come, the outcome of a dial. A select loop is a step relation with a rule per branch, or a function
  of the sequence of turns; then every interleaving is a sequence of steps, and the invariants are
  shown by rule induction. A clock is an argument; a random number is an argument.

  \<^bold>\<open>What the lemmas show.\<close> For the forward: only targets the policy accepts are dialled, both engines
  stay bounded whatever a peer sends, the two windows are conserved and never stall between honest
  members, the pumps are transparent, and frames are read back or refused with the right error. For
  grants: nothing before a verified grant, nothing after its end, and a re-check that fails closed.
  For the loops: capacity, pacing, termination and the only ways they end. For the gates: lockout,
  single use, revocation, bounds of the file, the redirect, and that redeeming implements showing a
  pass. For the probes and the stop: readiness as a function of the history, and a truthful exit
  status in bounded time. For redaction: only spans are masked, the text stays UTF-8, and a value
  after a keyword is masked. For the fallback: the pool's size, when it gives up and hands over, and
  who is served on the direct path after which verdicts; the framed relay carries the bytes of both
  sides unchanged, judges no peer wrongly and ends. For files: old or new content as a whole at
  every moment, and secrets never readable for others. For the update: only whole, newer binaries of
  the published and signed digest are ever found at the path of the executable. For the supervisor:
  what is reported of an exit, the waits, and the only ways it ends.

  \<^bold>\<open>Bounds and loops.\<close> No model uses fuel. The loops of the code that end by themselves are functions
  with a termination proof (the one-shot retry and the drain by the time left, the scanners by the
  text left); the loops that may run for ever consume the list of what their turns meet, and the
  theorems say how many turns suffice or that only a named event ends them.

  \<^bold>\<open>Parameters.\<close> The signed grants of \<^verbatim>\<open>ct_common\<close> (a record of functions), its text test for a park
  expiry, its keepalive tracker, SHA-256, Ed25519, base64, the JSON reader of a release
  manifest, the derivation of a link channel's id and the printing of a debug string are arguments of the definitions that
  use them; what is assumed of them is a named hypothesis with a witness.

  \<^bold>\<open>Not modelled.\<close> The sockets, TLS, QUIC and Noise I/O (\<^verbatim>\<open>transport.rs\<close>, \<^verbatim>\<open>p2p.rs\<close>, \<^verbatim>\<open>super_peer.rs\<close>,
  \<^verbatim>\<open>channel_run/session.rs\<close>, the relay legs of \<^verbatim>\<open>connectivity.rs\<close>), the serving of tunnels in \<^verbatim>\<open>serve.rs\<close>, the
  ACME and login exchanges, the processes and files of \<^verbatim>\<open>manifest_run\<close> and \<^verbatim>\<open>ssh_access.rs\<close>, and the output
  of \<^verbatim>\<open>events.rs\<close> and \<^verbatim>\<open>doctor.rs\<close>. Their pure rules (channel settings, service calls, manifests) come next.
\<close>

end
